(* ===== verification/Go_Base.thy ===== *)
theory Go_Base
  imports Main "HOL-Library.Word" "HOL-Library.Signed_Division"
    "HOL-Library.List_Lexorder" "HOL-Library.Char_ord"
begin

text \<open>
  The prelude: the parts of Go and of its standard library that the modelled sources use.

  \<^item> A Go \<^verbatim>\<open>int\<close> or \<^verbatim>\<open>int64\<close> is an \<^typ>\<open>int\<close>; arithmetic that can leave the
    64-bit range is wrapped by \<open>i64\<close> (\<open>u64\<close> for \<^verbatim>\<open>uint64\<close>).
    Code that works on bytes and shifts uses \<^typ>\<open>8 word\<close>, \<^typ>\<open>32 word\<close> and
    \<^typ>\<open>64 word\<close>.
  \<^item> A function that returns \<^verbatim>\<open>(T, error)\<close> and may panic returns \<open>'a res\<close>:
    \<open>Ok\<close>, \<open>Err\<close> or \<open>Panic\<close>; sequencing is \<open>andThen\<close>, which stops at
    the first error or panic, as an early return or an unwinding stack does.
  \<^item> A Go string is the list of its bytes, a \<^typ>\<open>string\<close>, compared bytewise.
  \<^item> \<^verbatim>\<open>strings.ToLower\<close> and \<^verbatim>\<open>strings.TrimSpace\<close> are modelled on ASCII; bytes above
    127 are left alone.
\<close>

named_theorems go_defs

section \<open>Results: values, errors and panics\<close>

datatype err =
    ErrSyntax            \<comment> \<open>strconv.ErrSyntax\<close>
  | ErrRange             \<comment> \<open>strconv.ErrRange\<close>
  | ErrTimeParse         \<comment> \<open>a *time.ParseError\<close>
  | ErrKeyOutOfRange
  | ErrDateRangeIllegal
  | ErrDateRangeCount
  | ErrDateRangeOverlap
  | ErrLocationsCount
  | ErrUnknownRuleType
  | ErrInvalidArgument
  | ErrMsg string        \<comment> \<open>errors.New and fmt.Errorf: the constant part of the message\<close>

datatype pan =
    PIndex               \<comment> \<open>index or slice bounds out of range\<close>
  | PDivZero             \<comment> \<open>integer divide by zero\<close>
  | PNil                 \<comment> \<open>nil dereference\<close>
  | PKeyError string     \<comment> \<open>panic(NewKeyError(...))\<close>
  | PMsg string          \<comment> \<open>any other panic value\<close>

datatype 'a res = Ok 'a | Err err | Panic pan

fun andThen :: "'a res \<Rightarrow> ('a \<Rightarrow> 'b res) \<Rightarrow> 'b res" where
  "andThen (Ok x) f = f x"
| "andThen (Err e) f = Err e"
| "andThen (Panic p) f = Panic p"

fun is_ok :: "'a res \<Rightarrow> bool" where
  "is_ok (Ok _) = True"
| "is_ok _ = False"

fun is_panic :: "'a res \<Rightarrow> bool" where
  "is_panic (Panic _) = True"
| "is_panic _ = False"

text \<open>Reading a slice element and slicing \<^verbatim>\<open>xs[lo:hi]\<close>, with Go's bounds checks.\<close>

definition at :: "'a list \<Rightarrow> int \<Rightarrow> 'a res" where
  "at xs i = (if 0 \<le> i \<and> i < int (length xs) then Ok (xs ! nat i) else Panic PIndex)"

definition slice_of :: "'a list \<Rightarrow> int \<Rightarrow> int \<Rightarrow> 'a list res" where
  "slice_of xs lo hi =
     (if 0 \<le> lo \<and> lo \<le> hi \<and> hi \<le> int (length xs)
      then Ok (take (nat (hi - lo)) (drop (nat lo) xs)) else Panic PIndex)"

section \<open>64-bit integers\<close>

definition i64 :: "int \<Rightarrow> int" where
  "i64 x = signed_take_bit 63 x"

definition u64 :: "int \<Rightarrow> int" where
  "u64 x = take_bit 64 x"

definition MinInt64 :: int where "MinInt64 = - (2 ^ 63)"
definition MaxInt64 :: int where "MaxInt64 = 2 ^ 63 - 1"

definition in_i64 :: "int \<Rightarrow> bool" where
  "in_i64 x \<longleftrightarrow> MinInt64 \<le> x \<and> x \<le> MaxInt64"

text \<open>Go's \<^verbatim>\<open>%\<close> truncates towards zero and panics on a zero divisor.\<close>

definition go_mod :: "int \<Rightarrow> int \<Rightarrow> int res" where
  "go_mod a b = (if b = 0 then Panic PDivZero else Ok (a smod b))"

section \<open>strconv\<close>

definition is_digit :: "char \<Rightarrow> bool" where
  "is_digit c \<longleftrightarrow> 48 \<le> (of_char c :: int) \<and> (of_char c :: int) \<le> 57"

definition digit_val :: "char \<Rightarrow> int" where
  "digit_val c = of_char c - 48"

text \<open>\<^verbatim>\<open>strconv.ParseUint(s, 10, 64)\<close>: the value is returned beside the error.\<close>

fun parseUint_loop :: "int \<Rightarrow> string \<Rightarrow> int \<times> err option" where
  "parseUint_loop n [] = (n, None)"
| "parseUint_loop n (c # cs) =
     (if \<not> is_digit c then (0, Some ErrSyntax)
      else if n * 10 + digit_val c > 2 ^ 64 - 1 then (2 ^ 64 - 1, Some ErrRange)
      else parseUint_loop (n * 10 + digit_val c) cs)"

definition parseUint10 :: "string \<Rightarrow> int \<times> err option" where
  "parseUint10 s = (if s = [] then (0, Some ErrSyntax) else parseUint_loop 0 s)"

text \<open>\<^verbatim>\<open>strconv.ParseInt(s, 10, 64)\<close>, which is also \<^verbatim>\<open>strconv.Atoi\<close> on a 64-bit platform.\<close>

definition sign_split :: "string \<Rightarrow> bool \<times> string" where
  "sign_split s =
     (case s of
        [] \<Rightarrow> (False, [])
      | c # cs \<Rightarrow> if c = CHR ''+'' then (False, cs) else if c = CHR ''-'' then (True, cs) else (False, s))"

definition parseInt10 :: "string \<Rightarrow> int \<times> err option" where
  "parseInt10 s =
     (if s = [] then (0, Some ErrSyntax)
      else let (neg, t) = sign_split s; (un, e) = parseUint10 t
           in if e \<noteq> None \<and> e \<noteq> Some ErrRange then (0, e)
              else if \<not> neg \<and> un \<ge> 2 ^ 63 then (2 ^ 63 - 1, Some ErrRange)
              else if neg \<and> un > 2 ^ 63 then (- (2 ^ 63), Some ErrRange)
              else (if neg then - un else un, None))"

fun val_or_err :: "'a \<times> err option \<Rightarrow> 'a res" where
  "val_or_err (v, None) = Ok v"
| "val_or_err (v, Some e) = Err e"

definition atoi :: "string \<Rightarrow> int res" where
  "atoi s = val_or_err (parseInt10 s)"

text \<open>\<^verbatim>\<open>strconv.Itoa\<close> and \<^verbatim>\<open>strconv.FormatInt(_, 10)\<close>.\<close>

function nat_str :: "int \<Rightarrow> string" where
  "nat_str n = (if n < 10 then [char_of (48 + n)] else nat_str (n div 10) @ [char_of (48 + n mod 10)])"
  by pat_completeness auto
termination
  by (relation "measure nat") auto

declare nat_str.simps [simp del]

definition itoa :: "int \<Rightarrow> string" where
  "itoa z = (if z < 0 then CHR ''-'' # nat_str (- z) else nat_str z)"

section \<open>strings\<close>

fun split_on :: "char \<Rightarrow> string \<Rightarrow> string list" where
  "split_on c [] = [[]]"
| "split_on c (x # xs) =
     (if x = c then [] # split_on c xs
      else case split_on c xs of [] \<Rightarrow> [[x]] | w # ws \<Rightarrow> (x # w) # ws)"

text \<open>\<^verbatim>\<open>strings.SplitN(s, sep, 2)\<close> for a one-byte separator.\<close>

definition splitN2 :: "char \<Rightarrow> string \<Rightarrow> string list" where
  "splitN2 c s =
     (if c \<in> set s then [takeWhile (\<lambda>x. x \<noteq> c) s, tl (dropWhile (\<lambda>x. x \<noteq> c) s)] else [s])"

definition lower_char :: "char \<Rightarrow> char" where
  "lower_char c =
     (if 65 \<le> (of_char c :: int) \<and> (of_char c :: int) \<le> 90 then char_of ((of_char c :: int) + 32) else c)"

definition toLower :: "string \<Rightarrow> string" where
  "toLower s = map lower_char s"

definition is_space :: "char \<Rightarrow> bool" where
  "is_space c \<longleftrightarrow> (9 \<le> (of_char c :: int) \<and> (of_char c :: int) \<le> 13) \<or> c = CHR '' ''"

definition trim_by :: "(char \<Rightarrow> bool) \<Rightarrow> string \<Rightarrow> string" where
  "trim_by p s = rev (dropWhile p (rev (dropWhile p s)))"

definition trimSpace :: "string \<Rightarrow> string" where
  "trimSpace s = trim_by is_space s"

section \<open>UTF-8: converting a string to runes\<close>

definition cont_byte :: "int \<Rightarrow> bool" where
  "cont_byte b \<longleftrightarrow> 128 \<le> b \<and> b \<le> 191"

text \<open>
  \<^verbatim>\<open>utf8.DecodeRune\<close> on a non-empty byte list: the rune and its width; a malformed sequence is
  \<^verbatim>\<open>U+FFFD\<close> with width 1.
\<close>

definition decode_rune :: "int \<Rightarrow> int list \<Rightarrow> int \<times> int" where
  "decode_rune b0 bs =
     (let bad = (65533, 1);
          lo = (if b0 = 224 then 160 else if b0 = 240 then 144 else 128);
          hi = (if b0 = 237 then 159 else if b0 = 244 then 143 else 191)
      in if b0 < 128 then (b0, 1)
         else if b0 < 194 \<or> b0 > 244 then bad
         else case bs of
           [] \<Rightarrow> bad
         | b1 # bs1 \<Rightarrow>
             if b1 < lo \<or> hi < b1 then bad
             else if b0 < 224 then ((b0 - 192) * 64 + (b1 - 128), 2)
             else (case bs1 of
                [] \<Rightarrow> bad
              | b2 # bs2 \<Rightarrow>
                  if \<not> cont_byte b2 then bad
                  else if b0 < 240 then ((b0 - 224) * 4096 + (b1 - 128) * 64 + (b2 - 128), 3)
                  else (case bs2 of
                     [] \<Rightarrow> bad
                   | b3 # _ \<Rightarrow>
                       if \<not> cont_byte b3 then bad
                       else ((b0 - 240) * 262144 + (b1 - 128) * 4096 + (b2 - 128) * 64 + (b3 - 128), 4))))"

text \<open>\<^verbatim>\<open>[]rune(s)\<close>.\<close>

function bytes_runes :: "int list \<Rightarrow> int list" where
  "bytes_runes [] = []"
| "bytes_runes (b # bs) = (case decode_rune b bs of (r, w) \<Rightarrow> r # bytes_runes (drop (nat (w - 1)) bs))"
  by pat_completeness auto
termination
  by (relation "measure length") auto

definition runes :: "string \<Rightarrow> int list" where
  "runes s = bytes_runes (map of_char s)"

section \<open>Lemmas on results\<close>

lemma andThen_eq_Ok [simp]: "andThen m f = Ok y \<longleftrightarrow> (\<exists>x. m = Ok x \<and> f x = Ok y)"
  by (cases m) auto

lemma andThen_eq_Panic: "andThen m f = Panic p \<longleftrightarrow> m = Panic p \<or> (\<exists>x. m = Ok x \<and> f x = Panic p)"
  by (cases m) auto

lemma andThen_eq_Err: "andThen m f = Err e \<longleftrightarrow> m = Err e \<or> (\<exists>x. m = Ok x \<and> f x = Err e)"
  by (cases m) auto

lemma is_ok_iff: "is_ok r \<longleftrightarrow> (\<exists>x. r = Ok x)"
  by (cases r) auto

lemma is_panic_iff: "is_panic r \<longleftrightarrow> (\<exists>p. r = Panic p)"
  by (cases r) auto

lemma is_ok_andThen: "is_ok (andThen m f) \<longleftrightarrow> (\<exists>x. m = Ok x \<and> is_ok (f x))"
  by (cases m) auto

lemma at_Ok [simp]: "0 \<le> i \<Longrightarrow> i < int (length xs) \<Longrightarrow> at xs i = Ok (xs ! nat i)"
  by (simp add: at_def)

lemma at_eq_Ok: "at xs i = Ok x \<longleftrightarrow> 0 \<le> i \<and> i < int (length xs) \<and> x = xs ! nat i"
  by (auto simp: at_def)

lemma at_int [simp]: "n < length xs \<Longrightarrow> at xs (int n) = Ok (xs ! n)"
  by (simp add: at_def)

lemma slice_of_eq_Ok:
  "slice_of xs lo hi = Ok ys \<longleftrightarrow>
     0 \<le> lo \<and> lo \<le> hi \<and> hi \<le> int (length xs) \<and> ys = take (nat (hi - lo)) (drop (nat lo) xs)"
  by (auto simp: slice_of_def)

section \<open>Lemmas on 64-bit integers\<close>

lemma in_i64_bounds: "in_i64 x \<longleftrightarrow> - (2 ^ 63) \<le> x \<and> x < 2 ^ 63"
  by (auto simp: in_i64_def MinInt64_def MaxInt64_def)

lemma i64_id: "in_i64 x \<Longrightarrow> i64 x = x"
  by (simp add: i64_def in_i64_bounds signed_take_bit_int_eq_self)

lemma in_i64_i64 [simp]: "in_i64 (i64 x)"
  using signed_take_bit_int_greater_eq_minus_exp [of 63 x] signed_take_bit_int_less_exp [of 63 x]
  unfolding i64_def in_i64_bounds by blast

lemma u64_id: "0 \<le> x \<Longrightarrow> x < 2 ^ 64 \<Longrightarrow> u64 x = x"
  by (simp add: u64_def take_bit_int_eq_self)

lemma u64_bounds: "0 \<le> u64 x" "u64 x < 2 ^ 64"
  unfolding u64_def by (rule take_bit_nonnegative, rule take_bit_int_less_exp)

lemma u64_mod: "u64 x = x mod 2 ^ 64"
  by (simp add: u64_def take_bit_eq_mod)

lemma i64_eq_iff: "i64 x = i64 y \<longleftrightarrow> x mod 2 ^ 64 = y mod 2 ^ 64"
  using signed_take_bit_eq_iff_take_bit_eq [of 63 x y] by (simp add: i64_def take_bit_eq_mod)

lemma i64_mod: "i64 x mod 2 ^ 64 = x mod 2 ^ 64"
  using i64_eq_iff [of "i64 x" x] i64_id [OF in_i64_i64, of x] by blast

lemma i64_mod_pow:
  assumes "n \<le> 64"
  shows "i64 x mod 2 ^ n = x mod 2 ^ n"
proof -
  have d: "(2::int) ^ n dvd 2 ^ 64" using assms by (rule le_imp_power_dvd)
  show ?thesis using mod_mod_cancel [OF d, of "i64 x"] mod_mod_cancel [OF d, of x] i64_mod [of x] by metis
qed

text \<open>Wrapping at every step is wrapping once at the end.\<close>

lemma i64_add_left: "i64 (i64 x + y) = i64 (x + y)"
  unfolding i64_eq_iff by (metis i64_mod mod_add_left_eq)

lemma i64_diff_left: "i64 (i64 x - y) = i64 (x - y)"
  unfolding i64_eq_iff by (metis i64_mod mod_diff_left_eq)

lemma i64_mult_left: "i64 (i64 x * y) = i64 (x * y)"
  unfolding i64_eq_iff by (metis i64_mod mod_mult_left_eq)

section \<open>Lemmas on decimal conversion\<close>

lemma parseUint_loop_append:
  "parseUint_loop n (xs @ ys) =
     (case parseUint_loop n xs of (m, None) \<Rightarrow> parseUint_loop m ys | r \<Rightarrow> r)"
  by (induction n xs rule: parseUint_loop.induct) (auto split: prod.splits option.splits)

lemma is_digit_char_of [simp]: "0 \<le> d \<Longrightarrow> d < 10 \<Longrightarrow> is_digit (char_of (48 + d :: int))"
  by (simp add: is_digit_def)

lemma digit_val_char_of [simp]: "0 \<le> d \<Longrightarrow> d < 10 \<Longrightarrow> digit_val (char_of (48 + d :: int)) = d"
  by (simp add: digit_val_def)

lemma parseUint_loop_nat_str: "0 \<le> n \<Longrightarrow> n < 2 ^ 64 \<Longrightarrow> parseUint_loop 0 (nat_str n) = (n, None)"
proof (induction n rule: nat_str.induct)
  case (1 n)
  show ?case
  proof (cases "n < 10")
    case True
    then show ?thesis using 1 by (simp add: nat_str.simps [of n])
  next
    case False
    have "0 \<le> n div 10" "n div 10 < 2 ^ 64" using 1 by linarith+
    with False have IH: "parseUint_loop 0 (nat_str (n div 10)) = (n div 10, None)"
      using 1 by blast
    have eq: "n div 10 * 10 + n mod 10 = n" by simp
    have "nat_str n = nat_str (n div 10) @ [char_of (48 + n mod 10)]"
      using False by (simp add: nat_str.simps [of n])
    then show ?thesis using 1(3) eq
      by (simp only: parseUint_loop_append IH prod.case option.case) simp
  qed
qed

lemma nat_str_nonempty [simp]: "nat_str n \<noteq> []"
  by (simp add: nat_str.simps [of n])

lemma nat_str_digits: "0 \<le> n \<Longrightarrow> c \<in> set (nat_str n) \<Longrightarrow> is_digit c"
proof (induction n rule: nat_str.induct)
  case (1 n)
  then show ?case
    by (cases "n < 10") (auto simp: nat_str.simps [of n])
qed

lemma digit_not_sign: "is_digit c \<Longrightarrow> c \<noteq> CHR ''-'' \<and> c \<noteq> CHR ''+''"
  by (auto simp: is_digit_def)

lemma sign_split_nat_str: "0 \<le> n \<Longrightarrow> sign_split (nat_str n) = (False, nat_str n)"
  using nat_str_digits [of n "hd (nat_str n)"]
  by (auto simp: sign_split_def digit_not_sign dest: digit_not_sign split: list.split)

lemma parseInt10_itoa:
  assumes "in_i64 z"
  shows "parseInt10 (itoa z) = (z, None)"
proof (cases "z < 0")
  case True
  with assms have "0 \<le> - z" "- z < 2 ^ 64" by (simp_all add: in_i64_bounds)
  then have "parseUint_loop 0 (nat_str (- z)) = (- z, None)"
    by (rule parseUint_loop_nat_str)
  with True assms show ?thesis
    by (simp add: parseInt10_def itoa_def sign_split_def parseUint10_def in_i64_bounds)
next
  case False
  with assms have "0 \<le> z" "z < 2 ^ 64" by (simp_all add: in_i64_bounds)
  then have "parseUint_loop 0 (nat_str z) = (z, None)"
    by (rule parseUint_loop_nat_str)
  with False assms show ?thesis
    by (simp add: parseInt10_def itoa_def sign_split_nat_str parseUint10_def in_i64_bounds)
qed

lemma atoi_itoa: "in_i64 z \<Longrightarrow> atoi (itoa z) = Ok z"
  by (simp add: atoi_def parseInt10_itoa)

lemma parseUint_loop_range:
  "0 \<le> n \<Longrightarrow> n < 2 ^ 64 \<Longrightarrow> 0 \<le> fst (parseUint_loop n s) \<and> fst (parseUint_loop n s) < 2 ^ 64"
proof (induction n s rule: parseUint_loop.induct)
  case (2 n c cs)
  have "is_digit c \<Longrightarrow> 0 \<le> digit_val c" by (simp add: is_digit_def digit_val_def)
  with 2 show ?case by auto
qed simp

lemma parseUint10_range: "0 \<le> fst (parseUint10 s) \<and> fst (parseUint10 s) < 2 ^ 64"
  using parseUint_loop_range [of 0 s] by (simp add: parseUint10_def)

lemma parseInt10_range: "in_i64 (fst (parseInt10 s))"
proof -
  have "0 \<le> fst (parseUint10 t)" for t using parseUint10_range by blast
  then have "parseUint10 t = (u, e) \<Longrightarrow> 0 \<le> u" for t u e by (metis fst_conv)
  then show ?thesis
    by (fastforce simp: parseInt10_def in_i64_bounds Let_def split: prod.splits)
qed

lemma atoi_range: "atoi s = Ok z \<Longrightarrow> in_i64 z"
  using parseInt10_range [of s] by (cases "parseInt10 s"; cases "snd (parseInt10 s)") (auto simp: atoi_def)

section \<open>Lemmas on strings\<close>

lemma split_on_nonempty [simp]: "split_on c s \<noteq> []"
  by (induction s) (auto split: list.splits)

lemma split_on_no_sep: "c \<notin> set s \<Longrightarrow> split_on c s = [s]"
  by (induction s) auto

lemma toLower_idem [simp]: "toLower (toLower s) = toLower s"
  by (auto simp: toLower_def lower_char_def)

lemmas go_eval =
  at_def slice_of_def go_mod_def i64_def u64_def in_i64_def MinInt64_def MaxInt64_def
  parseUint10_def parseInt10_def sign_split_def atoi_def is_digit_def digit_val_def
  itoa_def nat_str.simps splitN2_def lower_char_def toLower_def is_space_def trim_by_def trimSpace_def

end
