(* ===== verification/Encoding.thy ===== *)
theory Encoding
  imports Go_Base
begin

unbundle bit_operations_syntax

text \<open>
  The MySQL wire encoding of integers and strings (\<^verbatim>\<open>src/mysql/encoding.go\<close>). A
  \<^verbatim>\<open>[]byte\<close> is a list of bytes, a position an \<^typ>\<open>int\<close>. A write into a buffer returns the
  new buffer and the next position, or panics where Go's bounds check does; a read returns the
  value, the next position and the \<^verbatim>\<open>ok\<close> flag. The length of a length-encoded string is an
  unsigned 64-bit value that the code converts to \<^verbatim>\<open>int\<close>: that conversion and the addition to
  the position wrap (\<open>i64\<close>).
\<close>

type_synonym byte = "8 word"

section \<open>Encoding\<close>

definition LenEncIntSize :: "64 word \<Rightarrow> int" where
  "LenEncIntSize i = (if i < 251 then 1 else if i < 2 ^ 16 then 3 else if i < 2 ^ 24 then 4 else 9)"

text \<open>\<^verbatim>\<open>byte(i >> (8*k))\<close>\<close>

definition byte_of :: "nat \<Rightarrow> 'a::len word \<Rightarrow> byte" where
  "byte_of k i = ucast (drop_bit (8 * k) i)"

text \<open>\<^verbatim>\<open>data[pos] = b\<close>, and a run of such assignments at consecutive positions.\<close>

definition put :: "byte list \<Rightarrow> int \<Rightarrow> byte \<Rightarrow> byte list res" where
  "put data pos b = (if 0 \<le> pos \<and> pos < int (length data) then Ok (data[nat pos := b]) else Panic PIndex)"

fun puts :: "byte list \<Rightarrow> int \<Rightarrow> byte list \<Rightarrow> byte list res" where
  "puts data pos [] = Ok data"
| "puts data pos (b # bs) = andThen (put data pos b) (\<lambda>d. puts d (pos + 1) bs)"

definition WriteLenEncInt :: "byte list \<Rightarrow> int \<Rightarrow> 64 word \<Rightarrow> (byte list \<times> int) res" where
  "WriteLenEncInt data pos i =
     (if i < 251 then andThen (puts data pos [byte_of 0 i]) (\<lambda>d. Ok (d, pos + 1))
      else if i < 2 ^ 16 then
        andThen (puts data pos [0xfc, byte_of 0 i, byte_of 1 i]) (\<lambda>d. Ok (d, pos + 3))
      else if i < 2 ^ 24 then
        andThen (puts data pos [0xfd, byte_of 0 i, byte_of 1 i, byte_of 2 i]) (\<lambda>d. Ok (d, pos + 4))
      else
        andThen (puts data pos [0xfe, byte_of 0 i, byte_of 1 i, byte_of 2 i, byte_of 3 i,
           byte_of 4 i, byte_of 5 i, byte_of 6 i, byte_of 7 i]) (\<lambda>d. Ok (d, pos + 9)))"

definition AppendLenEncInt :: "byte list \<Rightarrow> 64 word \<Rightarrow> byte list" where
  "AppendLenEncInt data i =
     (if i \<le> 250 then data @ [byte_of 0 i]
      else if i \<le> 0xffff then data @ [0xfc, byte_of 0 i, byte_of 1 i]
      else if i \<le> 0xffffff then data @ [0xfd, byte_of 0 i, byte_of 1 i, byte_of 2 i]
      else if i \<le> 0xffffffffffffffff then
        data @ [0xfe, byte_of 0 i, byte_of 1 i, byte_of 2 i, byte_of 3 i, byte_of 4 i, byte_of 5 i,
          byte_of 6 i, byte_of 7 i]
      else data)"

definition LenNullString :: "byte list \<Rightarrow> int" where
  "LenNullString value = int (length value) + 1"

text \<open>\<^verbatim>\<open>pos += copy(data[pos:], value)\<close>: copies what fits.\<close>

definition copy_at :: "byte list \<Rightarrow> int \<Rightarrow> byte list \<Rightarrow> (byte list \<times> int) res" where
  "copy_at data pos value =
     (if 0 \<le> pos \<and> pos \<le> int (length data)
      then let n = min (length data - nat pos) (length value)
           in Ok (take (nat pos) data @ take n value @ drop (nat pos + n) data, pos + int n)
      else Panic PIndex)"

definition WriteNullString :: "byte list \<Rightarrow> int \<Rightarrow> byte list \<Rightarrow> (byte list \<times> int) res" where
  "WriteNullString data pos value =
     andThen (copy_at data pos value) (\<lambda>(d, p). andThen (put d p 0) (\<lambda>d'. Ok (d', p + 1)))"

definition writeEOFString :: "byte list \<Rightarrow> int \<Rightarrow> byte list \<Rightarrow> (byte list \<times> int) res" where
  "writeEOFString data pos value = copy_at data pos value"

definition WriteByte :: "byte list \<Rightarrow> int \<Rightarrow> byte \<Rightarrow> (byte list \<times> int) res" where
  "WriteByte data pos value = andThen (put data pos value) (\<lambda>d. Ok (d, pos + 1))"

definition WriteUint16 :: "byte list \<Rightarrow> int \<Rightarrow> 16 word \<Rightarrow> (byte list \<times> int) res" where
  "WriteUint16 data pos v = andThen (puts data pos [byte_of 0 v, byte_of 1 v]) (\<lambda>d. Ok (d, pos + 2))"

definition AppendUint16 :: "byte list \<Rightarrow> 16 word \<Rightarrow> byte list" where
  "AppendUint16 data n = data @ [byte_of 0 n] @ [byte_of 1 n]"

definition WriteUint32 :: "byte list \<Rightarrow> int \<Rightarrow> 32 word \<Rightarrow> (byte list \<times> int) res" where
  "WriteUint32 data pos v =
     andThen (puts data pos [byte_of 0 v, byte_of 1 v, byte_of 2 v, byte_of 3 v]) (\<lambda>d. Ok (d, pos + 4))"

definition AppendUint32 :: "byte list \<Rightarrow> 32 word \<Rightarrow> byte list" where
  "AppendUint32 data n = data @ [byte_of 0 n] @ [byte_of 1 n] @ [byte_of 2 n] @ [byte_of 3 n]"

definition WriteUint64 :: "byte list \<Rightarrow> int \<Rightarrow> 64 word \<Rightarrow> (byte list \<times> int) res" where
  "WriteUint64 data pos v =
     andThen (puts data pos [byte_of 0 v, byte_of 1 v, byte_of 2 v, byte_of 3 v,
       byte_of 4 v, byte_of 5 v, byte_of 6 v, byte_of 7 v]) (\<lambda>d. Ok (d, pos + 8))"

definition AppendUint64 :: "byte list \<Rightarrow> 64 word \<Rightarrow> byte list" where
  "AppendUint64 data n = data @ [byte_of 0 n] @ [byte_of 1 n] @ [byte_of 2 n] @ [byte_of 3 n]
     @ [byte_of 4 n] @ [byte_of 5 n] @ [byte_of 6 n] @ [byte_of 7 n]"

definition LenEncStringSize :: "byte list \<Rightarrow> int" where
  "LenEncStringSize value = LenEncIntSize (of_nat (length value)) + int (length value)"

definition WriteLenEncString :: "byte list \<Rightarrow> int \<Rightarrow> byte list \<Rightarrow> (byte list \<times> int) res" where
  "WriteLenEncString data pos value =
     andThen (WriteLenEncInt data pos (of_nat (length value))) (\<lambda>(d, p). writeEOFString d p value)"

definition AppendLenEncStringBytes :: "byte list \<Rightarrow> byte list \<Rightarrow> byte list" where
  "AppendLenEncStringBytes data b = AppendLenEncInt data (of_nat (length b)) @ b"

definition WriteZeroes :: "byte list \<Rightarrow> int \<Rightarrow> int \<Rightarrow> (byte list \<times> int) res" where
  "WriteZeroes data pos len = andThen (puts data pos (replicate (nat len) 0)) (\<lambda>d. Ok (d, pos + len))"

section \<open>Decoding\<close>

definition ReadByte :: "byte list \<Rightarrow> int \<Rightarrow> (byte \<times> int \<times> bool) res" where
  "ReadByte data pos =
     (if pos \<ge> int (length data) then Ok (0, 0, False)
      else andThen (at data pos) (\<lambda>b. Ok (b, pos + 1, True)))"

definition ReadBytes :: "byte list \<Rightarrow> int \<Rightarrow> int \<Rightarrow> (byte list \<times> int \<times> bool) res" where
  "ReadBytes data pos sz =
     (if i64 (i64 (pos + sz) - 1) \<ge> int (length data) then Ok ([], 0, False)
      else andThen (slice_of data pos (i64 (pos + sz))) (\<lambda>bs. Ok (bs, i64 (pos + sz), True)))"

text \<open>The copy is made with \<^verbatim>\<open>make([]byte, size)\<close>, which panics on a negative size.\<close>

definition ReadBytesCopy :: "byte list \<Rightarrow> int \<Rightarrow> int \<Rightarrow> (byte list \<times> int \<times> bool) res" where
  "ReadBytesCopy data pos sz =
     (if i64 (i64 (pos + sz) - 1) \<ge> int (length data) then Ok ([], 0, False)
      else if sz < 0 then Panic (PMsg ''makeslice: len out of range'')
      else andThen (slice_of data pos (i64 (pos + sz))) (\<lambda>bs. Ok (bs, i64 (pos + sz), True)))"

text \<open>\<^verbatim>\<open>bytes.IndexByte(data, 0)\<close>, \<open>-1\<close> when there is no zero byte.\<close>

fun index_zero :: "byte list \<Rightarrow> int" where
  "index_zero [] = -1"
| "index_zero (b # bs) = (if b = 0 then 0 else let i = index_zero bs in if i = -1 then -1 else i + 1)"

definition ReadNullString :: "byte list \<Rightarrow> int \<Rightarrow> (byte list \<times> int \<times> bool) res" where
  "ReadNullString data pos =
     andThen (slice_of data pos (int (length data)))
       (\<lambda>rest. let e = index_zero rest
          in if e = -1 then Ok ([], 0, False)
             else andThen (slice_of data pos (pos + e)) (\<lambda>s. Ok (s, pos + e + 1, True)))"

definition le16 :: "byte \<Rightarrow> byte \<Rightarrow> 16 word" where
  "le16 b0 b1 = ucast b0 OR push_bit 8 (ucast b1)"

definition le32 :: "byte \<Rightarrow> byte \<Rightarrow> byte \<Rightarrow> byte \<Rightarrow> 32 word" where
  "le32 b0 b1 b2 b3 =
     ucast b0 OR push_bit 8 (ucast b1) OR push_bit 16 (ucast b2) OR push_bit 24 (ucast b3)"

definition le64 :: "byte \<Rightarrow> byte \<Rightarrow> byte \<Rightarrow> byte \<Rightarrow> byte \<Rightarrow> byte \<Rightarrow> byte \<Rightarrow> byte \<Rightarrow> 64 word" where
  "le64 b0 b1 b2 b3 b4 b5 b6 b7 =
     ucast b0 OR push_bit 8 (ucast b1) OR push_bit 16 (ucast b2) OR push_bit 24 (ucast b3) OR
     push_bit 32 (ucast b4) OR push_bit 40 (ucast b5) OR push_bit 48 (ucast b6) OR push_bit 56 (ucast b7)"

definition ReadUint16 :: "byte list \<Rightarrow> int \<Rightarrow> (16 word \<times> int \<times> bool) res" where
  "ReadUint16 data pos =
     (if pos + 1 \<ge> int (length data) then Ok (0, 0, False)
      else andThen (slice_of data pos (pos + 2))
        (\<lambda>bs. Ok (le16 (bs ! 0) (bs ! 1), pos + 2, True)))"

definition ReadUint32 :: "byte list \<Rightarrow> int \<Rightarrow> (32 word \<times> int \<times> bool) res" where
  "ReadUint32 data pos =
     (if pos + 3 \<ge> int (length data) then Ok (0, 0, False)
      else andThen (slice_of data pos (pos + 4))
        (\<lambda>bs. Ok (le32 (bs ! 0) (bs ! 1) (bs ! 2) (bs ! 3), pos + 4, True)))"

definition ReadUint64 :: "byte list \<Rightarrow> int \<Rightarrow> (64 word \<times> int \<times> bool) res" where
  "ReadUint64 data pos =
     (if pos + 7 \<ge> int (length data) then Ok (0, 0, False)
      else andThen (slice_of data pos (pos + 8))
        (\<lambda>bs. Ok (le64 (bs ! 0) (bs ! 1) (bs ! 2) (bs ! 3) (bs ! 4) (bs ! 5) (bs ! 6) (bs ! 7), pos + 8, True)))"

text \<open>The result is the value, the next position, \<^verbatim>\<open>isNull\<close> and \<^verbatim>\<open>ok\<close>.\<close>

definition ReadLenEncInt :: "byte list \<Rightarrow> int \<Rightarrow> (64 word \<times> int \<times> bool \<times> bool) res" where
  "ReadLenEncInt data pos =
     (if pos \<ge> int (length data) then Ok (0, 0, False, False)
      else andThen (at data pos) (\<lambda>b.
        if b = 0xfb then Ok (0, pos + 1, True, True)
        else if b = 0xfc then
          (if pos + 2 \<ge> int (length data) then Ok (0, 0, False, False)
           else andThen (at data (pos + 1)) (\<lambda>b1. andThen (at data (pos + 2)) (\<lambda>b2.
             Ok (ucast b1 OR push_bit 8 (ucast b2), pos + 3, False, True))))
        else if b = 0xfd then
          (if pos + 3 \<ge> int (length data) then Ok (0, 0, False, False)
           else andThen (at data (pos + 1)) (\<lambda>b1. andThen (at data (pos + 2)) (\<lambda>b2.
             andThen (at data (pos + 3)) (\<lambda>b3.
             Ok (ucast b1 OR push_bit 8 (ucast b2) OR push_bit 16 (ucast b3), pos + 4, False, True)))))
        else if b = 0xfe then
          (if pos + 8 \<ge> int (length data) then Ok (0, 0, False, False)
           else andThen (at data (pos + 1)) (\<lambda>b1. andThen (at data (pos + 2)) (\<lambda>b2.
             andThen (at data (pos + 3)) (\<lambda>b3. andThen (at data (pos + 4)) (\<lambda>b4.
             andThen (at data (pos + 5)) (\<lambda>b5. andThen (at data (pos + 6)) (\<lambda>b6.
             andThen (at data (pos + 7)) (\<lambda>b7. andThen (at data (pos + 8)) (\<lambda>b8.
             Ok (le64 b1 b2 b3 b4 b5 b6 b7 b8, pos + 9, False, True))))))))))
        else Ok (ucast b, pos + 1, False, True)))"

definition readLenEncString :: "byte list \<Rightarrow> int \<Rightarrow> (byte list \<times> int \<times> bool) res" where
  "readLenEncString data pos =
     andThen (ReadLenEncInt data pos) (\<lambda>(sz, pos, _, ok).
       if \<not> ok then Ok ([], 0, False)
       else let s = i64 (uint sz)
         in if i64 (i64 (pos + s) - 1) \<ge> int (length data) then Ok ([], 0, False)
            else andThen (slice_of data pos (i64 (pos + s))) (\<lambda>bs. Ok (bs, i64 (pos + s), True)))"

definition skipLenEncString :: "byte list \<Rightarrow> int \<Rightarrow> (int \<times> bool) res" where
  "skipLenEncString data pos =
     andThen (ReadLenEncInt data pos) (\<lambda>(sz, pos, _, ok).
       if \<not> ok then Ok (0, False)
       else let s = i64 (uint sz)
         in if i64 (i64 (pos + s) - 1) \<ge> int (length data) then Ok (0, False)
            else Ok (i64 (pos + s), True))"

definition ReadLenEncStringAsBytes :: "byte list \<Rightarrow> int \<Rightarrow> (byte list \<times> int \<times> bool \<times> bool) res" where
  "ReadLenEncStringAsBytes data pos =
     andThen (ReadLenEncInt data pos) (\<lambda>(sz, pos, isNull, ok).
       if \<not> ok then Ok ([], 0, isNull, False)
       else let s = i64 (uint sz)
         in if i64 (i64 (pos + s) - 1) \<ge> int (length data) then Ok ([], 0, isNull, False)
            else andThen (slice_of data pos (i64 (pos + s))) (\<lambda>bs. Ok (bs, i64 (pos + s), isNull, True)))"

section \<open>Buffers\<close>

text \<open>A write overwrites a window of the buffer and nothing else.\<close>

definition window :: "byte list \<Rightarrow> int \<Rightarrow> byte list \<Rightarrow> byte list" where
  "window data pos bs = take (nat pos) data @ bs @ drop (nat pos + length bs) data"

lemma puts_window:
  assumes "0 \<le> pos" "pos + int (length bs) \<le> int (length data)"
  shows "puts data pos bs = Ok (window data pos bs)"
  using assms
proof (induction bs arbitrary: data pos)
  case (Cons b bs)
  let ?d = "data[nat pos := b]"
  have "puts data pos (b # bs) = puts ?d (pos + 1) bs"
    using Cons.prems by (simp add: put_def)
  also have "\<dots> = Ok (window ?d (pos + 1) bs)"
    using Cons.prems by (intro Cons.IH) auto
  also have "window ?d (pos + 1) bs = window data pos (b # bs)"
  proof -
    have "nat pos < length data" "length (take (nat pos) data) = nat pos" using Cons.prems by simp_all
    then show ?thesis
      using Cons.prems by (simp add: window_def nat_add_distrib take_Suc_conv_app_nth take_update_swap
          list_update_append)
  qed
  finally show ?case .
qed (simp add: window_def)

lemma puts_panic:
  assumes "0 \<le> pos" "pos \<le> int (length data)" "int (length data) < pos + int (length bs)"
  shows "puts data pos bs = Panic PIndex"
  using assms
proof (induction bs arbitrary: data pos)
  case (Cons b bs)
  then show ?case by (cases "pos < int (length data)") (auto simp: put_def)
qed simp

lemma length_window [simp]:
  "0 \<le> pos \<Longrightarrow> pos + int (length bs) \<le> int (length data) \<Longrightarrow> length (window data pos bs) = length data"
  by (simp add: window_def)

lemma at_window:
  assumes "0 \<le> pos" "pos + int (length bs) \<le> int (length data)" "k < length bs"
  shows "at (window data pos bs) (pos + int k) = Ok (bs ! k)"
proof -
  have "nat (pos + int k) = nat pos + k" "length (take (nat pos) data) = nat pos" using assms by simp_all
  with assms show ?thesis
    by (simp add: at_def window_def nth_append)
qed

section \<open>Bytes of a word\<close>

lemma le64_bytes:
  "le64 (byte_of 0 i) (byte_of 1 i) (byte_of 2 i) (byte_of 3 i)
     (byte_of 4 i) (byte_of 5 i) (byte_of 6 i) (byte_of 7 i) = (i :: 64 word)"
proof (rule bit_eqI)
  fix n :: nat
  assume "possible_bit TYPE(64 word) n"
  then have "n < 64" by simp
  then consider "n < 8" | "8 \<le> n \<and> n < 16" | "16 \<le> n \<and> n < 24" | "24 \<le> n \<and> n < 32"
    | "32 \<le> n \<and> n < 40" | "40 \<le> n \<and> n < 48" | "48 \<le> n \<and> n < 56" | "56 \<le> n \<and> n < 64"
    by linarith
  then show "bit (le64 (byte_of 0 i) (byte_of 1 i) (byte_of 2 i) (byte_of 3 i)
     (byte_of 4 i) (byte_of 5 i) (byte_of 6 i) (byte_of 7 i)) n \<longleftrightarrow> bit i n"
    by cases (auto simp: le64_def byte_of_def bit_simps)
qed

lemma le32_bytes:
  "le32 (byte_of 0 i) (byte_of 1 i) (byte_of 2 i) (byte_of 3 i) = (i :: 32 word)"
proof (rule bit_eqI)
  fix n :: nat
  assume "possible_bit TYPE(32 word) n"
  then have "n < 32" by simp
  then consider "n < 8" | "8 \<le> n \<and> n < 16" | "16 \<le> n \<and> n < 24" | "24 \<le> n \<and> n < 32"
    by linarith
  then show "bit (le32 (byte_of 0 i) (byte_of 1 i) (byte_of 2 i) (byte_of 3 i)) n \<longleftrightarrow> bit i n"
    by cases (auto simp: le32_def byte_of_def bit_simps)
qed

lemma le16_bytes: "le16 (byte_of 0 i) (byte_of 1 i) = (i :: 16 word)"
proof (rule bit_eqI)
  fix n :: nat
  assume "possible_bit TYPE(16 word) n"
  then have "n < 16" by simp
  then consider "n < 8" | "8 \<le> n \<and> n < 16" by linarith
  then show "bit (le16 (byte_of 0 i) (byte_of 1 i)) n \<longleftrightarrow> bit i n"
    by cases (auto simp: le16_def byte_of_def bit_simps)
qed

text \<open>A value below \<open>2 ^ m\<close> has no bit from \<open>m\<close> up.\<close>

lemma small_no_bit:
  assumes "(i :: 64 word) < 2 ^ m" "m \<le> n" "m < 64"
  shows "\<not> bit i n"
proof -
  have "uint i < 2 ^ m"
    using assms(1,3) by (subst word_2p_lem [symmetric]) (simp_all add: word_size)
  then have "take_bit m (uint i) = uint i" by (simp add: take_bit_int_eq_self)
  then have "\<not> bit (uint i) n" using assms(2) by (metis bit_take_bit_iff leD)
  then show ?thesis using bit_imp_le_length [of i n] by (auto simp: bit_uint_iff)
qed

lemma small_byte:
  assumes "(i :: 64 word) < 2 ^ m" "m \<le> 8 * k" "m < 64"
  shows "byte_of k i = 0"
proof (rule bit_eqI)
  fix n
  have "\<not> bit i (8 * k + n)" using assms small_no_bit [of i m "8 * k + n"] by simp
  then show "bit (byte_of k i) n = bit 0 n" by (simp add: byte_of_def bit_simps)
qed

section \<open>Length-encoded integers\<close>

text \<open>The bytes both encoders emit, and that they are \<^verbatim>\<open>LenEncIntSize\<close> many.\<close>

definition lenenc :: "64 word \<Rightarrow> byte list" where
  "lenenc i = AppendLenEncInt [] i"

lemma lenenc_cases:
  obtains (one) "i < 251" "lenenc i = [byte_of 0 i]" "LenEncIntSize i = 1"
  | (three) "251 \<le> i" "i < 2 ^ 16" "lenenc i = [0xfc, byte_of 0 i, byte_of 1 i]" "LenEncIntSize i = 3"
  | (four) "2 ^ 16 \<le> i" "i < 2 ^ 24" "lenenc i = [0xfd, byte_of 0 i, byte_of 1 i, byte_of 2 i]"
      "LenEncIntSize i = 4"
  | (nine) "2 ^ 24 \<le> i" "LenEncIntSize i = 9"
      "lenenc i = [0xfe, byte_of 0 i, byte_of 1 i, byte_of 2 i, byte_of 3 i, byte_of 4 i,
         byte_of 5 i, byte_of 6 i, byte_of 7 i]"
proof -
  have max: "i \<le> 0xffffffffffffffff" using uint_lt2p [of i] by (simp add: word_le_def)
  have eq: "i \<le> 250 \<longleftrightarrow> i < 251" "i \<le> 0xffff \<longleftrightarrow> i < 2 ^ 16" "i \<le> 0xffffff \<longleftrightarrow> i < 2 ^ 24"
    by (auto simp: word_le_nat_alt word_less_nat_alt)
  note ge = linorder_not_less [THEN iffD1]
  consider "i < 251" | "\<not> i < 251 \<and> i < 2 ^ 16" | "\<not> i < 251 \<and> \<not> i < 2 ^ 16 \<and> i < 2 ^ 24"
    | "\<not> i < 251 \<and> \<not> i < 2 ^ 16 \<and> \<not> i < 2 ^ 24" by blast
  then show thesis
  proof cases
    case 1
    then show ?thesis using eq by (intro one) (simp_all add: lenenc_def AppendLenEncInt_def LenEncIntSize_def)
  next
    case 2
    then show ?thesis using eq
      by (intro three) (simp_all add: ge lenenc_def AppendLenEncInt_def LenEncIntSize_def)
  next
    case 3
    then show ?thesis using eq
      by (intro four) (simp_all add: ge lenenc_def AppendLenEncInt_def LenEncIntSize_def)
  next
    case 4
    then show ?thesis using eq max
      by (intro nine) (simp_all add: ge lenenc_def AppendLenEncInt_def LenEncIntSize_def)
  qed
qed

lemma length_lenenc: "int (length (lenenc i)) = LenEncIntSize i"
  by (cases i rule: lenenc_cases) simp_all

lemma AppendLenEncInt_lenenc: "AppendLenEncInt data i = data @ lenenc i"
  by (auto simp: lenenc_def AppendLenEncInt_def)

lemma WriteLenEncInt_lenenc:
  "WriteLenEncInt data pos i = andThen (puts data pos (lenenc i)) (\<lambda>d. Ok (d, pos + LenEncIntSize i))"
proof (cases i rule: lenenc_cases)
  case one
  then show ?thesis by (simp add: WriteLenEncInt_def)
next
  case three
  then have "\<not> i < 251" by simp
  with three show ?thesis by (simp add: WriteLenEncInt_def)
next
  case four
  then have "\<not> i < 251" "\<not> i < 2 ^ 16" by (auto simp: word_less_nat_alt word_le_nat_alt)
  with four show ?thesis by (simp add: WriteLenEncInt_def)
next
  case nine
  then have "\<not> i < 251" "\<not> i < 2 ^ 16" "\<not> i < 2 ^ 24" by (auto simp: word_less_nat_alt word_le_nat_alt)
  with nine show ?thesis by (simp add: WriteLenEncInt_def)
qed

text \<open>A buffer that holds the encoded bytes at a position decodes to the integer.\<close>

lemma ReadLenEncInt_lenenc:
  assumes "\<And>k. k < length (lenenc i) \<Longrightarrow> at data (pos + int k) = Ok (lenenc i ! k)"
  shows "ReadLenEncInt data pos = Ok (i, pos + LenEncIntSize i, False, True)"
proof (cases i rule: lenenc_cases)
  case one
  have b: "at data pos = Ok (byte_of 0 i)" using assms [of 0] one by simp
  have "i < 2 ^ 8" using one(1) by (simp add: word_less_nat_alt)
  note z = small_byte [OF this]
  have i: "ucast (byte_of 0 i) = i"
    using le64_bytes [of i] by (simp add: le64_def z)
  have "byte_of 0 i \<noteq> 0xfb" "byte_of 0 i \<noteq> 0xfc" "byte_of 0 i \<noteq> 0xfd" "byte_of 0 i \<noteq> 0xfe"
    using i one(1) by auto
  then show ?thesis using b i one by (auto simp: ReadLenEncInt_def at_eq_Ok)
next
  case three
  have b: "at data pos = Ok 0xfc" "at data (pos + 1) = Ok (byte_of 0 i)" "at data (pos + 2) = Ok (byte_of 1 i)"
    using assms [of 0] assms [of 1] assms [of 2] three by simp_all
  note z = small_byte [OF three(2)]
  have "ucast (byte_of 0 i) OR push_bit 8 (ucast (byte_of 1 i)) = i"
    using le64_bytes [of i] by (simp add: le64_def z)
  with b three show ?thesis by (auto simp: ReadLenEncInt_def at_eq_Ok)
next
  case four
  have b: "at data pos = Ok 0xfd" "at data (pos + 1) = Ok (byte_of 0 i)" "at data (pos + 2) = Ok (byte_of 1 i)"
    "at data (pos + 3) = Ok (byte_of 2 i)"
    using assms [of 0] assms [of 1] assms [of 2] assms [of 3] four by simp_all
  note z = small_byte [OF four(2)]
  have "ucast (byte_of 0 i) OR push_bit 8 (ucast (byte_of 1 i)) OR push_bit 16 (ucast (byte_of 2 i)) = i"
    using le64_bytes [of i] by (simp add: le64_def z)
  with b four show ?thesis by (auto simp: ReadLenEncInt_def at_eq_Ok)
next
  case nine
  have b: "at data pos = Ok 0xfe" "at data (pos + 1) = Ok (byte_of 0 i)" "at data (pos + 2) = Ok (byte_of 1 i)"
    "at data (pos + 3) = Ok (byte_of 2 i)" "at data (pos + 4) = Ok (byte_of 3 i)"
    "at data (pos + 5) = Ok (byte_of 4 i)" "at data (pos + 6) = Ok (byte_of 5 i)"
    "at data (pos + 7) = Ok (byte_of 6 i)" "at data (pos + 8) = Ok (byte_of 7 i)"
    using assms [of 0] assms [of 1] assms [of 2] assms [of 3] assms [of 4] assms [of 5] assms [of 6]
      assms [of 7] assms [of 8] nine by simp_all
  have "0 \<le> pos" "\<not> pos \<ge> int (length data)" "\<not> pos + 8 \<ge> int (length data)"
    using b(1,9) by (auto simp: at_eq_Ok)
  with b nine show ?thesis by (simp add: ReadLenEncInt_def le64_bytes [simplified])
qed

text \<open>
  C35: \<^verbatim>\<open>WriteLenEncInt\<close> succeeds exactly when \<^verbatim>\<open>LenEncIntSize\<close> bytes are free at the
  position; it then changes only these bytes, returns the position after them, and
  \<^verbatim>\<open>ReadLenEncInt\<close> reads the same integer back from there.
\<close>

theorem write_read_lenenc_int:
  assumes "0 \<le> pos" "pos + LenEncIntSize i \<le> int (length data)"
  shows "\<exists>data'. WriteLenEncInt data pos i = Ok (data', pos + LenEncIntSize i) \<and>
    length data' = length data \<and>
    (\<forall>k. k < nat pos \<or> nat (pos + LenEncIntSize i) \<le> k \<longrightarrow> data' ! k = data ! k) \<and>
    ReadLenEncInt data' pos = Ok (i, pos + LenEncIntSize i, False, True)"
proof (intro exI conjI)
  let ?d = "window data pos (lenenc i)"
  have fits: "pos + int (length (lenenc i)) \<le> int (length data)"
    using assms(2) by (simp add: length_lenenc)
  show "WriteLenEncInt data pos i = Ok (?d, pos + LenEncIntSize i)"
    using puts_window [OF assms(1) fits] by (simp add: WriteLenEncInt_lenenc)
  show "length ?d = length data" using assms(1) fits by simp
  have "nat (pos + LenEncIntSize i) = nat pos + length (lenenc i)"
    using assms(1) by (simp flip: length_lenenc)
  moreover have "length (take (nat pos) data) = nat pos" using assms(1) fits by simp
  moreover have "nat pos + length (lenenc i) \<le> length data" using assms(1) fits by simp
  ultimately show "\<forall>k. k < nat pos \<or> nat (pos + LenEncIntSize i) \<le> k \<longrightarrow> ?d ! k = data ! k"
    by (auto simp: window_def nth_append)
  show "ReadLenEncInt ?d pos = Ok (i, pos + LenEncIntSize i, False, True)"
    by (rule ReadLenEncInt_lenenc) (rule at_window [OF assms(1) fits])
qed

theorem write_read_lenenc_int_witness:
  "WriteLenEncInt [0, 0, 0, 0] 1 1000 = Ok ([0, 0xfc, 0xe8, 0x03], 4) \<and>
   (\<exists>d. WriteLenEncInt [0, 0, 0, 0] 1 1000 = Ok (d, 4) \<and> ReadLenEncInt d 1 = Ok (1000, 4, False, True))"
proof -
  have s: "LenEncIntSize 1000 = 3" by (simp add: LenEncIntSize_def)
  have "WriteLenEncInt [0, 0, 0, 0] 1 1000 = Ok ([0, 0xfc, 0xe8, 0x03], 4)"
    by (simp add: WriteLenEncInt_def byte_of_def put_def)
  moreover have "\<exists>d. WriteLenEncInt [0, 0, 0, 0] 1 1000 = Ok (d, 4) \<and> ReadLenEncInt d 1 = Ok (1000, 4, False, True)"
    using write_read_lenenc_int [of 1 1000 "[0, 0, 0, 0]"] by (auto simp: s)
  ultimately show ?thesis by blast
qed

text \<open>
  A write that does not fit panics (the caller's buffer is too short), and never writes
  a truncated encoding.
\<close>

lemma write_lenenc_int_short:
  assumes "0 \<le> pos" "pos \<le> int (length data)" "int (length data) < pos + LenEncIntSize i"
  shows "WriteLenEncInt data pos i = Panic PIndex"
  using puts_panic [OF assms(1,2), of "lenenc i"] assms(3)
  by (simp add: WriteLenEncInt_lenenc length_lenenc)

theorem write_lenenc_int_short_witness: "WriteLenEncInt [0, 0, 0] 1 1000 = Panic PIndex"
  by (rule write_lenenc_int_short) (simp_all add: LenEncIntSize_def)

section \<open>Length-encoded strings\<close>

lemma at_append_right: "k < length ys \<Longrightarrow> at (xs @ ys) (int (length xs) + int k) = Ok (ys ! k)"
proof -
  have "nat (int (length xs) + int k) = length xs + k" by simp
  then show "k < length ys \<Longrightarrow> ?thesis" by (simp add: at_def nth_append)
qed

lemma ReadLenEncInt_append:
  "ReadLenEncInt (data @ lenenc i @ rest) (int (length data)) =
     Ok (i, int (length data) + LenEncIntSize i, False, True)"
proof (rule ReadLenEncInt_lenenc)
  fix k assume "k < length (lenenc i)"
  then show "at (data @ lenenc i @ rest) (int (length data) + int k) = Ok (lenenc i ! k)"
    using at_append_right [of k "lenenc i @ rest" data] by (simp add: nth_append)
qed

text \<open>
  C36: appending a length-encoded string and reading it back yields the bytes and the position
  behind them, whatever follows in the packet. (Packets are shorter than \<open>2 ^ 62\<close> bytes.)
\<close>

theorem append_read_lenenc_string:
  assumes "length data + length b + length rest < 2 ^ 62"
  shows "ReadLenEncStringAsBytes (AppendLenEncStringBytes data b @ rest) (int (length data)) =
    Ok (b, int (length (AppendLenEncStringBytes data b)), False, True)"
proof -
  let ?n = "of_nat (length b) :: 64 word"
  let ?p = "int (length data) + LenEncIntSize ?n"
  have bl: "length b < 2 ^ 62" using assms by simp
  have u: "uint ?n = int (length b)"
    using bl by (simp add: uint_nat unat_of_nat)
  have s: "i64 (uint ?n) = int (length b)"
    using bl by (simp add: u i64_id in_i64_bounds)
  have sz: "LenEncIntSize ?n \<le> 9" by (simp add: LenEncIntSize_def)
  have w: "i64 (?p + int (length b)) = ?p + int (length b)"
    "i64 (?p + int (length b) - 1) = ?p + int (length b) - 1"
    using assms sz length_lenenc [of ?n] by (auto intro!: i64_id simp: in_i64_bounds)
  have d: "AppendLenEncStringBytes data b @ rest = data @ lenenc ?n @ (b @ rest)"
    by (simp add: AppendLenEncStringBytes_def AppendLenEncInt_lenenc)
  have len: "int (length (AppendLenEncStringBytes data b)) = ?p + int (length b)"
    by (simp add: AppendLenEncStringBytes_def AppendLenEncInt_lenenc flip: length_lenenc)
  have np: "nat ?p = length data + length (lenenc ?n)" by (simp flip: length_lenenc)
  have sl: "slice_of (data @ lenenc ?n @ (b @ rest)) ?p (?p + int (length b)) = Ok b"
    by (simp add: slice_of_eq_Ok np) (simp flip: length_lenenc)
  show ?thesis
    unfolding ReadLenEncStringAsBytes_def d len
    by (simp add: ReadLenEncInt_append s w sl Let_def) (simp flip: length_lenenc)
qed

theorem append_read_lenenc_string_witness:
  "ReadLenEncStringAsBytes (AppendLenEncStringBytes [7] [1, 2] @ [9]) 1 = Ok ([1, 2], 4, False, True)"
  using append_read_lenenc_string [of "[7]" "[1, 2]" "[9]"]
  by (simp add: AppendLenEncStringBytes_def AppendLenEncInt_def)

text \<open>
  The length is taken from the packet as an unsigned 64-bit number and converted to a signed
  \<^verbatim>\<open>int\<close> before it is compared with the packet length. For a length of \<open>2 ^ 64 - 1\<close> the
  comparison passes and the slice expression panics, so a crafted packet panics the reader.
\<close>

lemma lenenc_string_panic:
  "ReadLenEncStringAsBytes ([0xfe, 0xff, 0xff, 0xff, 0xff, 0xff, 0xff, 0xff, 0xff] @ rest) 0 = Panic PIndex"
proof -
  have r: "ReadLenEncInt ([0xfe, 0xff, 0xff, 0xff, 0xff, 0xff, 0xff, 0xff, 0xff] @ rest) 0 =
      Ok (0xffffffffffffffff, 9, False, True)"
    by (simp add: ReadLenEncInt_def at_def le64_def)
  have s: "i64 18446744073709551615 = - 1" "i64 8 = 8" "i64 7 = 7"
    by (simp_all add: i64_def)
  show ?thesis
    by (simp only: ReadLenEncStringAsBytes_def r andThen.simps) (simp add: s slice_of_def)
qed

section \<open>Fixed-width integers\<close>

text \<open>
  The fixed-width encoders and decoders are inverse to each other at every position of a packet.
\<close>

lemma append_read_uint:
  "ReadUint16 (AppendUint16 data n16 @ rest) (int (length data)) = Ok (n16, int (length data) + 2, True) \<and>
   ReadUint32 (AppendUint32 data n32 @ rest) (int (length data)) = Ok (n32, int (length data) + 4, True) \<and>
   ReadUint64 (AppendUint64 data n64 @ rest) (int (length data)) = Ok (n64, int (length data) + 8, True)"
  by (simp add: ReadUint16_def ReadUint32_def ReadUint64_def AppendUint16_def AppendUint32_def
      AppendUint64_def slice_of_def le16_bytes [simplified] le32_bytes [simplified] le64_bytes [simplified])

section \<open>No decoder reads outside the packet\<close>

text \<open>
  C37: at a non-negative position \<^verbatim>\<open>ReadLenEncInt\<close> never panics, and when it reports success
  the next position is after the current one and inside the packet.
\<close>

theorem ReadLenEncInt_safe:
  assumes "0 \<le> pos"
  shows "\<exists>v p isNull ok. ReadLenEncInt data pos = Ok (v, p, isNull, ok) \<and>
    (ok \<longrightarrow> pos < p \<and> p \<le> int (length data))"
  using assms by (auto simp: ReadLenEncInt_def at_def)

theorem ReadLenEncInt_safe_witness:
  "\<exists>v p isNull ok. ReadLenEncInt [0xfc, 1] 0 = Ok (v, p, isNull, ok) \<and> (ok \<longrightarrow> 0 < p \<and> p \<le> int (length [0xfc, 1 :: byte]))"
  using ReadLenEncInt_safe [of 0 "[0xfc, 1]"] by simp

end
