(* ===== verification/Go_Time.thy ===== *)
theory Go_Time
  imports Go_Base
begin

text \<open>
  The parts of Go's \<^verbatim>\<open>time\<close> package that the sharding code uses, on calendar dates
  \<open>(year, month, day)\<close> of the proleptic Gregorian calendar: parsing and formatting with the
  layouts \<^verbatim>\<open>20060102\<close>, \<^verbatim>\<open>200601\<close>, \<^verbatim>\<open>2006\<close> and \<^verbatim>\<open>2006-01-02\<close>, the day after a
  date, the number of days between two dates, and the local date of a Unix time. The local time
  zone is the environment's: it is a parameter, the offset in seconds at a Unix time.
\<close>

type_synonym date = "int \<times> int \<times> int"

definition is_leap :: "int \<Rightarrow> bool" where
  "is_leap y \<longleftrightarrow> y mod 4 = 0 \<and> (y mod 100 \<noteq> 0 \<or> y mod 400 = 0)"

definition daysIn :: "int \<Rightarrow> int \<Rightarrow> int" where
  "daysIn m y = (if m = 2 then (if is_leap y then 29 else 28) else if m \<in> {4, 6, 9, 11} then 30 else 31)"

fun valid_date :: "date \<Rightarrow> bool" where
  "valid_date (y, m, d) \<longleftrightarrow> 1 \<le> m \<and> m \<le> 12 \<and> 1 \<le> d \<and> d \<le> daysIn m y"

text \<open>\<^verbatim>\<open>t.Add(24 * time.Hour)\<close> for a time at midnight UTC.\<close>

fun next_day :: "date \<Rightarrow> date" where
  "next_day (y, m, d) =
     (if d < daysIn m y then (y, m, d + 1) else if m < 12 then (y, m + 1, 1) else (y + 1, 1, 1))"

text \<open>Days before a month in its year, and the serial number of a day.\<close>

definition days_before :: "int \<Rightarrow> int \<Rightarrow> int" where
  "days_before m y =
     (if m \<le> 1 then 0 else if m = 2 then 31
      else (if m = 3 then 59 else if m = 4 then 90 else if m = 5 then 120 else if m = 6 then 151
        else if m = 7 then 181 else if m = 8 then 212 else if m = 9 then 243 else if m = 10 then 273
        else if m = 11 then 304 else 334) + (if is_leap y then 1 else 0))"

fun day_number :: "date \<Rightarrow> int" where
  "day_number (y, m, d) =
     365 * y + (y + 3) div 4 - (y + 99) div 100 + (y + 399) div 400 + days_before m y + d"

text \<open>
  \<^verbatim>\<open>int(end.Sub(begin).Hours() / 24)\<close> for two midnights: \<^verbatim>\<open>Sub\<close> saturates at the largest
  \<^verbatim>\<open>Duration\<close>, which is 106751 whole days.
\<close>

definition days_sub :: "date \<Rightarrow> date \<Rightarrow> int" where
  "days_sub e b = min (day_number e - day_number b) 106751"

section \<open>Parsing and formatting\<close>

definition all_digits :: "string \<Rightarrow> bool" where
  "all_digits s \<longleftrightarrow> list_all is_digit s"

definition digits_val :: "string \<Rightarrow> int" where
  "digits_val s = foldl (\<lambda>n c. n * 10 + digit_val c) 0 s"

text \<open>\<^verbatim>\<open>time.Parse\<close> with layouts \<^verbatim>\<open>20060102\<close>, \<^verbatim>\<open>200601\<close> and \<^verbatim>\<open>2006\<close>.\<close>

definition timeParse_ymd :: "string \<Rightarrow> date res" where
  "timeParse_ymd s =
     (let dt = (digits_val (take 4 s), digits_val (take 2 (drop 4 s)), digits_val (drop 6 s))
      in if length s = 8 \<and> all_digits s \<and> valid_date dt then Ok dt else Err ErrTimeParse)"

definition timeParse_ym :: "string \<Rightarrow> date res" where
  "timeParse_ym s =
     (let dt = (digits_val (take 4 s), digits_val (drop 4 s), 1)
      in if length s = 6 \<and> all_digits s \<and> valid_date dt then Ok dt else Err ErrTimeParse)"

definition timeParse_y :: "string \<Rightarrow> date res" where
  "timeParse_y s = (if length s = 4 \<and> all_digits s then Ok (digits_val s, 1, 1) else Err ErrTimeParse)"

text \<open>Decimal with leading zeros to a width, as \<^verbatim>\<open>Format\<close> and \<^verbatim>\<open>%0wd\<close> print it.\<close>

fun zdigits :: "nat \<Rightarrow> int \<Rightarrow> string" where
  "zdigits 0 n = []"
| "zdigits (Suc w) n = zdigits w (n div 10) @ [char_of (48 + n mod 10)]"

definition zpad :: "nat \<Rightarrow> int \<Rightarrow> string" where
  "zpad w n =
     (if 0 \<le> n then (if n < 10 ^ w then zdigits w n else nat_str n)
      else CHR ''-'' # (if - n < 10 ^ w then zdigits w (- n) else nat_str (- n)))"

fun format_ymd :: "date \<Rightarrow> string" where
  "format_ymd (y, m, d) = zpad 4 y @ zpad 2 m @ zpad 2 d"

fun format_dashed :: "date \<Rightarrow> string" where
  "format_dashed (y, m, d) = zpad 4 y @ ''-'' @ zpad 2 m @ ''-'' @ zpad 2 d"

section \<open>Unix time\<close>

definition civil_from_days :: "int \<Rightarrow> date" where
  "civil_from_days n =
     (let z = n + 719468;
          era = z div 146097;
          doe = z mod 146097;
          yoe = (doe - doe div 1460 + doe div 36524 - doe div 146096) div 365;
          doy = doe - (365 * yoe + yoe div 4 - yoe div 100);
          mp = (5 * doy + 2) div 153;
          d = doy - (153 * mp + 2) div 5 + 1;
          m = (if mp < 10 then mp + 3 else mp - 9)
      in (yoe + era * 400 + (if m \<le> 2 then 1 else 0), m, d))"

text \<open>The date of \<^verbatim>\<open>time.Unix(sec, 0)\<close> in the local zone.\<close>

definition unixDate :: "(int \<Rightarrow> int) \<Rightarrow> int \<Rightarrow> date" where
  "unixDate zone sec = civil_from_days ((sec + zone sec) div 86400)"

section \<open>Calendar lemmas\<close>

text \<open>The number that a date's decimal format denotes.\<close>

fun date_num :: "date \<Rightarrow> int" where
  "date_num (y, m, d) = y * 10000 + m * 100 + d"

lemma daysIn_bounds: "28 \<le> daysIn m y" "daysIn m y \<le> 31"
  by (simp_all add: daysIn_def)

lemma next_day_valid: "valid_date dt \<Longrightarrow> valid_date (next_day dt)"
proof (cases dt)
  case (fields y m d)
  assume "valid_date dt"
  with fields daysIn_bounds [of m y] daysIn_bounds [of "m + 1" y] daysIn_bounds [of 1 "y + 1"]
  show ?thesis by auto
qed

lemma next_day_num: "valid_date dt \<Longrightarrow> date_num dt < date_num (next_day dt)"
proof (cases dt)
  case (fields y m d)
  assume "valid_date dt"
  with fields daysIn_bounds [of m y] show ?thesis by auto
qed

lemma div_succ:
  assumes "1 < (k::int)"
  shows "(y + k) div k = (y + (k - 1)) div k + (if y mod k = 0 then 1 else 0)"
proof -
  define q r where "q = y div k" and "r = y mod k"
  have y: "y = k * q + r" unfolding q_def r_def by (rule mult_div_mod_eq [symmetric])
  have "0 \<le> r" "r < k" unfolding r_def using assms by (intro pos_mod_sign pos_mod_bound; linarith)+
  have s: "k * (q + 1) = k * q + k" by (simp only: distrib_left mult_1_right)
  have 1: "(y + k) div k = q + 1"
    using y \<open>0 \<le> r\<close> \<open>r < k\<close> s by (intro int_div_pos_eq [where r = r]) linarith+
  show ?thesis
  proof (cases "r = 0")
    case True
    have "(y + (k - 1)) div k = q"
      using y True assms by (intro int_div_pos_eq [where r = "k - 1"]) linarith+
    then show ?thesis using 1 True r_def by (simp only: simp_thms if_True)
  next
    case False
    have "(y + (k - 1)) div k = q + 1"
      using y False \<open>0 \<le> r\<close> \<open>r < k\<close> s by (intro int_div_pos_eq [where r = "r - 1"]) linarith+
    then show ?thesis using 1 False r_def by (simp only: if_False add_0_right)
  qed
qed

lemma leap_succ:
  "(y + 4) div 4 - (y + 100) div 100 + (y + 400) div 400 =
   (y + 3) div 4 - (y + 99) div 100 + (y + 399) div 400 + (if is_leap y then 1 else (0::int))"
proof -
  have m: "y mod 400 = 0 \<Longrightarrow> y mod 100 = 0" "y mod 100 = 0 \<Longrightarrow> y mod 4 = 0"
    using mod_mod_cancel [of 100 400 y] mod_mod_cancel [of 4 100 y] by simp_all
  have e: "(y + 4) div 4 = (y + 3) div 4 + (if y mod 4 = 0 then 1 else 0)"
    "(y + 100) div 100 = (y + 99) div 100 + (if y mod 100 = 0 then 1 else 0)"
    "(y + 400) div 400 = (y + 399) div 400 + (if y mod 400 = 0 then 1 else 0)"
    by (rule div_succ [of 4 y, simplified], rule div_succ [of 100 y, simplified], rule div_succ [of 400 y, simplified])
  show ?thesis
  proof (cases "y mod 100 = 0")
    case True
    then have "y mod 4 = 0" using m by (simp only:)
    with True show ?thesis by (simp only: e is_leap_def) simp
  next
    case False
    then have "y mod 400 \<noteq> 0" using m(1) by (rule contrapos_nn)
    with False show ?thesis by (simp only: e is_leap_def) simp
  qed
qed

lemma day_number_next: "valid_date dt \<Longrightarrow> day_number (next_day dt) = day_number dt + 1"
proof (cases dt)
  case (fields y m d)
  assume v: "valid_date dt"
  consider "d < daysIn m y" | "\<not> d < daysIn m y" "m < 12" | "\<not> d < daysIn m y" "m = 12"
    using v fields by fastforce
  then show ?thesis
  proof cases
    case 1
    then show ?thesis using fields by simp
  next
    case 2
    have "d = daysIn m y" using v fields 2 by simp
    moreover have "days_before (m + 1) y = days_before m y + daysIn m y"
    proof -
      have "m = 1 \<or> m = 2 \<or> m = 3 \<or> m = 4 \<or> m = 5 \<or> m = 6 \<or> m = 7 \<or> m = 8 \<or> m = 9 \<or> m = 10 \<or> m = 11"
        using v fields 2 by (simp add: ) presburger
      then show ?thesis by (elim disjE) (simp_all add: days_before_def daysIn_def)
    qed
    ultimately show ?thesis using fields 2 by simp
  next
    case 3
    have d: "d = 31" using v fields 3 by (simp add: daysIn_def)
    show ?thesis using fields 3 d leap_succ [of y]
      by (simp add: days_before_def algebra_simps)
  qed
qed

text \<open>The dates between two valid ones are exactly the iterates of the day after.\<close>

lemma iterate_next_day:
  assumes "valid_date dt"
  shows "valid_date ((next_day ^^ n) dt) \<and> day_number ((next_day ^^ n) dt) = day_number dt + int n"
  using assms by (induction n) (auto simp: next_day_valid day_number_next)

lemma iterate_next_day_mono:
  assumes "valid_date dt" "i < j"
  shows "date_num ((next_day ^^ i) dt) < date_num ((next_day ^^ j) dt)"
  using assms(2)
proof (induction j)
  case (Suc j)
  have "date_num ((next_day ^^ j) dt) < date_num ((next_day ^^ Suc j) dt)"
    using iterate_next_day [OF assms(1), of j] next_day_num by simp
  with Suc show ?case by (cases "i = j") auto
qed simp

section \<open>Digit strings\<close>

lemma digits_val_append: "digits_val (s @ t) = foldl (\<lambda>n c. n * 10 + digit_val c) (digits_val s) t"
  by (simp add: digits_val_def)

lemma foldl_digits: "foldl (\<lambda>n c. n * 10 + digit_val c) a t = a * 10 ^ length t + digits_val t"
proof (induction t rule: rev_induct)
  case (snoc c t)
  then show ?case by (simp add: digits_val_def algebra_simps)
qed (simp add: digits_val_def)

lemma digits_val_app: "digits_val (s @ t) = digits_val s * 10 ^ length t + digits_val t"
  by (simp add: digits_val_append foldl_digits)

lemma digits_val_Cons: "digits_val (c # t) = digit_val c * 10 ^ length t + digits_val t"
  using digits_val_app [of "[c]" t] by (simp add: digits_val_def)

lemma digits_val_Nil [simp]: "digits_val [] = 0"
  by (simp add: digits_val_def)

lemma all_digits_simps [simp]:
  "all_digits []" "all_digits (c # s) \<longleftrightarrow> is_digit c \<and> all_digits s"
  "all_digits (s @ t) \<longleftrightarrow> all_digits s \<and> all_digits t"
  by (auto simp: all_digits_def)

lemma digit_val_bounds: "is_digit c \<Longrightarrow> 0 \<le> digit_val c \<and> digit_val c \<le> 9"
  by (simp add: is_digit_def digit_val_def)

lemma digits_val_bounds: "all_digits s \<Longrightarrow> 0 \<le> digits_val s \<and> digits_val s < 10 ^ length s"
proof (induction s)
  case (Cons c s)
  then have "0 \<le> digit_val c" "digit_val c \<le> 9" using digit_val_bounds by simp_all
  from this(2) have "digit_val c * 10 ^ length s \<le> 9 * 10 ^ length s" by (intro mult_right_mono) auto
  moreover have "0 \<le> digits_val s" "digits_val s < 10 ^ length s" using Cons by simp_all
  moreover have "(10::int) ^ length (c # s) = 9 * 10 ^ length s + 10 ^ length s" by simp
  moreover have "0 \<le> digit_val c * 10 ^ length s" using \<open>0 \<le> digit_val c\<close> by simp
  ultimately show ?case unfolding digits_val_Cons by linarith
qed simp

lemma digit_val_less: "digit_val c < digit_val d \<longleftrightarrow> c < d"
  unfolding digit_val_def less_char_def by (metis diff_less_eq diff_add_cancel of_nat_less_iff of_nat_of_char)

text \<open>Digit strings of one length are ordered bytewise as the numbers they denote.\<close>

lemma digits_less:
  assumes "length s = length t" "all_digits s" "all_digits t"
  shows "s < t \<longleftrightarrow> digits_val s < digits_val t"
  using assms
proof (induction s t rule: list_induct2)
  case (Cons c s d t)
  note b = digits_val_bounds [of s] digits_val_bounds [of t]
  let ?p = "(10::int) ^ length t"
  have eq: "digits_val (c # s) = digit_val c * ?p + digits_val s" "digits_val (d # t) = digit_val d * ?p + digits_val t"
    using Cons by (simp_all add: digits_val_Cons)
  have less: "digit_val a * ?p + x < digit_val e * ?p + y"
    if "digit_val a < digit_val e" "x < ?p" "0 \<le> y" for a e x y
  proof -
    have "(digit_val a + 1) * ?p \<le> digit_val e * ?p" using that by (intro mult_right_mono) auto
    then show ?thesis using that by (simp add: algebra_simps)
  qed
  consider "c < d" | "c = d" | "d < c" by fastforce
  then show ?case
  proof cases
    case 1
    then show ?thesis using less [of c d "digits_val s" "digits_val t"] b Cons digit_val_less [of c d]
      unfolding eq by simp
  next
    case 2
    then show ?thesis using Cons unfolding eq by simp
  next
    case 3
    then have "digit_val d < digit_val c" using digit_val_less by simp
    then show ?thesis using less [of d c "digits_val t" "digits_val s"] b Cons 3
      unfolding eq by auto
  qed
qed simp

lemma digits_val_inj:
  assumes "length s = length t" "all_digits s" "all_digits t" "digits_val s = digits_val t"
  shows "s = t"
  using digits_less [OF assms(1-3)] digits_less [of t s] assms by (metis linorder_less_linear less_irrefl)

text \<open>\<^verbatim>\<open>strconv.Atoi\<close> reads a short digit string.\<close>

lemma parseUint_loop_digits:
  assumes "all_digits s" "0 \<le> n" "n * 10 ^ length s + digits_val s < 2 ^ 64"
  shows "parseUint_loop n s = (n * 10 ^ length s + digits_val s, None)"
  using assms
proof (induction s arbitrary: n)
  case (Cons c s)
  have d: "is_digit c" "0 \<le> digit_val c" "all_digits s" "0 \<le> digits_val s"
    using Cons.prems digit_val_bounds digits_val_bounds [of s] by simp_all
  have eq: "n * 10 ^ length (c # s) + digits_val (c # s) = (n * 10 + digit_val c) * 10 ^ length s + digits_val s"
    by (simp add: digits_val_Cons algebra_simps)
  have "(n * 10 + digit_val c) * 1 \<le> (n * 10 + digit_val c) * 10 ^ length s"
    using d Cons.prems(2) by (intro mult_left_mono) auto
  then have small: "\<not> n * 10 + digit_val c > 2 ^ 64 - 1" using Cons.prems(3) d(4) unfolding eq by simp
  have "parseUint_loop n (c # s) = parseUint_loop (n * 10 + digit_val c) s"
    using d small by simp
  also have "\<dots> = ((n * 10 + digit_val c) * 10 ^ length s + digits_val s, None)"
    using Cons.IH [of "n * 10 + digit_val c"] d Cons.prems unfolding eq by simp
  finally show ?case unfolding eq .
qed simp

lemma atoi_digits:
  assumes "all_digits s" "s \<noteq> []" "length s \<le> 18"
  shows "atoi s = Ok (digits_val s)"
proof -
  have "(10::int) ^ length s \<le> 10 ^ 18" using assms(3) by (intro power_increasing) auto
  then have small: "digits_val s < 2 ^ 63" using digits_val_bounds [OF assms(1)] by simp
  have p: "parseUint10 s = (digits_val s, None)"
    using parseUint_loop_digits [OF assms(1), of 0] small assms(2) by (simp add: parseUint10_def)
  have "sign_split s = (False, s)"
    using assms digit_not_sign by (cases s) (auto simp: sign_split_def)
  then show ?thesis using assms(2) small p by (simp add: atoi_def parseInt10_def)
qed

lemma zdigits_props:
  "0 \<le> n \<Longrightarrow> n < 10 ^ w \<Longrightarrow> all_digits (zdigits w n) \<and> length (zdigits w n) = w \<and> digits_val (zdigits w n) = n"
proof (induction w arbitrary: n)
  case (Suc w)
  have "0 \<le> n div 10" "n div 10 < 10 ^ w" using Suc.prems by auto
  from Suc.IH [OF this] show ?case by (simp add: digits_val_app digits_val_Cons)
qed simp

lemma zpad_props:
  assumes "0 \<le> n" "n < 10 ^ w"
  shows "all_digits (zpad w n)" "length (zpad w n) = w" "digits_val (zpad w n) = n"
  using zdigits_props [OF assms] assms by (simp_all add: zpad_def)

lemma atoi_format_ymd:
  assumes "valid_date (y, m, d)" "0 \<le> y" "y < 10000"
  shows "atoi (format_ymd (y, m, d)) = Ok (date_num (y, m, d))"
proof -
  have b: "0 \<le> m" "m < 10 ^ 2" "0 \<le> d" "d < 10 ^ 2" "y < 10 ^ 4"
    using assms daysIn_bounds [of m y] by auto
  note p = zpad_props [OF b(1,2)] zpad_props [OF b(3,4)] zpad_props [OF assms(2) b(5)]
  have "all_digits (format_ymd (y, m, d))" "length (format_ymd (y, m, d)) = 8"
    "digits_val (format_ymd (y, m, d)) = date_num (y, m, d)"
    using p by (simp_all add: digits_val_app algebra_simps)
  then show ?thesis using atoi_digits [of "format_ymd (y, m, d)"] by force
qed

end
