(* ===== verification/Num_Key.thy ===== *)
theory Num_Key
  imports Go_Time
begin

text \<open>
  \<^verbatim>\<open>src/proxy/router/numkey.go\<close>: numeric key ranges and the expansion of the date ranges of a
  shard configuration into the table indexes of day, month and year shards.
\<close>

definition MinNumKey :: int where "MinNumKey = MinInt64"
definition MaxNumKey :: int where "MaxNumKey = MaxInt64"

record NumKeyRange =
  Start :: int
  End :: int

definition nkr_MapKey :: "NumKeyRange \<Rightarrow> string" where
  "nkr_MapKey kr = itoa (Start kr) @ ''-'' @ itoa (End kr)"

definition nkr_Contains :: "NumKeyRange \<Rightarrow> int \<Rightarrow> bool" where
  "nkr_Contains kr i \<longleftrightarrow> Start kr \<le> i \<and> (End kr = MaxNumKey \<or> i < End kr)"

definition sum_locations :: "int list \<Rightarrow> int" where
  "sum_locations locs = foldl (\<lambda>acc l. i64 (acc + l)) 0 locs"

definition ParseNumSharding :: "int list \<Rightarrow> int \<Rightarrow> NumKeyRange list res" where
  "ParseNumSharding locs limit =
     (let tableCount = sum_locations locs
      in if tableCount < 0 then Panic (PMsg ''makeslice: len out of range'')
         else Ok (map (\<lambda>i. \<lparr>Start = i64 (i * limit), End = i64 ((i + 1) * limit)\<rparr>) [0..tableCount - 1]))"

text \<open>The single-value branch that the three date range parsers share.\<close>

definition parse_single_date :: "nat \<Rightarrow> string \<Rightarrow> int list res" where
  "parse_single_date dateLength s =
     (if length s \<noteq> dateLength then Err ErrDateRangeIllegal
      else andThen (atoi s) (\<lambda>dateNum. Ok [dateNum]))"

fun day_loop :: "date \<Rightarrow> nat \<Rightarrow> int list res" where
  "day_loop dt 0 = Ok []"
| "day_loop dt (Suc n) =
     andThen (atoi (format_ymd dt)) (\<lambda>dateNum.
     andThen (day_loop (next_day dt) n) (\<lambda>rest. Ok (dateNum # rest)))"

definition ParseDayRange :: "string \<Rightarrow> int list res" where
  "ParseDayRange dateRange =
     (case splitN2 (CHR ''-'') dateRange of
        [s] \<Rightarrow> parse_single_date 8 s
      | [s0, s1] \<Rightarrow>
          if length s0 \<noteq> 8 \<or> length s1 \<noteq> 8 then Err ErrDateRangeIllegal
          else let (lo, hi) = (if s1 < s0 then (s1, s0) else (s0, s1))
               in andThen (timeParse_ymd lo) (\<lambda>begin.
                  andThen (timeParse_ymd hi) (\<lambda>end.
                    day_loop begin (nat (days_sub end begin + 1))))
      | _ \<Rightarrow> Err ErrDateRangeIllegal)"

fun month_loop :: "int \<Rightarrow> int \<Rightarrow> nat \<Rightarrow> int list" where
  "month_loop year monthTmp 0 = []"
| "month_loop year monthTmp (Suc n) =
     (let (year, monthTmp) = (if 12 < monthTmp then (year + 1, monthTmp mod 12) else (year, monthTmp))
      in (year * 100 + monthTmp) # month_loop year (monthTmp + 1) n)"

definition ParseMonthRange :: "string \<Rightarrow> int list res" where
  "ParseMonthRange dateRange =
     (case splitN2 (CHR ''-'') dateRange of
        [s] \<Rightarrow> parse_single_date 6 s
      | [s0, s1] \<Rightarrow>
          if length s0 \<noteq> 6 \<or> length s1 \<noteq> 6 then Err ErrDateRangeIllegal
          else let (lo, hi) = (if s1 < s0 then (s1, s0) else (s0, s1))
               in andThen (atoi (take 4 lo)) (\<lambda>beginYear.
                  andThen (atoi (drop 4 lo)) (\<lambda>beginMonth.
                  andThen (atoi (take 4 hi)) (\<lambda>endYear.
                  andThen (atoi (drop 4 hi)) (\<lambda>endMonth.
                    Ok (month_loop beginYear beginMonth
                          (nat ((endYear - beginYear) * 12 + endMonth - beginMonth + 1)))))))
      | _ \<Rightarrow> Err ErrDateRangeIllegal)"

text \<open>
  With \<^verbatim>\<open>endYear = MaxInt64\<close> the loop \<^verbatim>\<open>for i := beginYear; i <= endYear; i++\<close> never ends and
  appends until memory runs out.
\<close>

definition ParseYearRange :: "string \<Rightarrow> int list res" where
  "ParseYearRange dateRange =
     (case splitN2 (CHR ''-'') dateRange of
        [s] \<Rightarrow> parse_single_date 4 s
      | [s0, s1] \<Rightarrow>
          let (lo, hi) = (if s1 < s0 then (s1, s0) else (s0, s1))
          in andThen (atoi lo) (\<lambda>beginYear.
             andThen (atoi hi) (\<lambda>endYear.
               if endYear = MaxInt64 then Panic (PMsg ''out of memory'') else Ok [beginYear..endYear]))
      | _ \<Rightarrow> Err ErrDateRangeIllegal)"

section \<open>Numeric ranges\<close>

lemma sum_locations_eq:
  assumes "\<forall>l \<in> set locs. 0 \<le> l" "sum_list locs \<le> MaxInt64"
  shows "sum_locations locs = sum_list locs"
  using assms unfolding sum_locations_def
proof (induction locs rule: rev_induct)
  case (snoc l locs)
  have nn: "0 \<le> sum_list locs" using snoc.prems by (simp add: sum_list_nonneg)
  have le: "sum_list locs \<le> MaxInt64" using snoc.prems by simp
  have "foldl (\<lambda>acc l. i64 (acc + l)) 0 locs = sum_list locs" using snoc.IH snoc.prems le by simp
  moreover have "in_i64 (sum_list locs + l)"
    using snoc.prems nn by (simp add: in_i64_def MinInt64_def)
  ultimately show ?case by (simp add: i64_id)
qed simp

lemma ParseNumSharding_ranges:
  assumes "\<forall>l \<in> set locs. 0 \<le> l" "0 < limit" "sum_list locs * limit \<le> MaxInt64"
  shows "ParseNumSharding locs limit =
     Ok (map (\<lambda>i. \<lparr>Start = i * limit, End = (i + 1) * limit\<rparr>) [0..sum_list locs - 1])"
proof -
  have nn: "0 \<le> sum_list locs" using assms(1) by (simp add: sum_list_nonneg)
  have "sum_list locs * 1 \<le> sum_list locs * limit" using nn assms(2) by (intro mult_left_mono) auto
  then have s: "sum_locations locs = sum_list locs" using assms by (intro sum_locations_eq) auto
  have "i64 (i * limit) = i * limit \<and> i64 ((i + 1) * limit) = (i + 1) * limit"
    if "0 \<le> i" "i < sum_list locs" for i
  proof -
    have "(i + 1) * limit \<le> sum_list locs * limit" using that assms(2) by (intro mult_right_mono) auto
    moreover have "i * limit \<le> (i + 1) * limit" "0 \<le> i * limit"
      using that assms(2) by (simp_all add: mult_right_mono)
    ultimately show ?thesis using assms(3) by (intro conjI i64_id) (auto simp: in_i64_def MinInt64_def)
  qed
  then show ?thesis using nn by (simp add: ParseNumSharding_def s)
qed

section \<open>Day, month and year ranges\<close>

lemma splitN2_dash:
  assumes "all_digits s"
  shows "splitN2 (CHR ''-'') (s @ CHR ''-'' # t) = [s, t]"
proof -
  have "c \<noteq> CHR ''-''" if "c \<in> set s" for c
    using assms that digit_not_sign by (auto simp: all_digits_def list_all_iff)
  then show ?thesis by (simp add: splitN2_def takeWhile_append2 dropWhile_append2)
qed

lemma day_loop_eq:
  assumes "valid_date dt" "\<And>k. k < n \<Longrightarrow> (case (next_day ^^ k) dt of (y, _) \<Rightarrow> 0 \<le> y \<and> y < 10000)"
  shows "day_loop dt n = Ok (map (\<lambda>k. date_num ((next_day ^^ k) dt)) [0..<n])"
  using assms
proof (induction n arbitrary: dt)
  case (Suc n)
  obtain y m d where dt: "dt = (y, m, d)" by (cases dt)
  have "0 \<le> y" "y < 10000" using Suc.prems(2) [of 0] dt by simp_all
  then have a: "atoi (format_ymd dt) = Ok (date_num dt)" using Suc.prems(1) dt atoi_format_ymd by blast
  have "case (next_day ^^ k) (next_day dt) of (y, _) \<Rightarrow> 0 \<le> y \<and> y < 10000" if "k < n" for k
    using Suc.prems(2) [of "Suc k"] that by (simp add: funpow_swap1 del: funpow.simps) (simp add: funpow_swap1)
  from Suc.IH [OF next_day_valid [OF Suc.prems(1)] this]
  have r: "day_loop (next_day dt) n = Ok (map (\<lambda>k. date_num ((next_day ^^ k) (next_day dt))) [0..<n])" .
  have "[0..<Suc n] = 0 # map Suc [0..<n]" by (simp add: map_Suc_upt upt_conv_Cons del: upt_Suc)
  then show ?case by (simp add: a r funpow_swap1 del: upt_Suc)
qed simp

text \<open>
  A range of days \<^verbatim>\<open>s-t\<close>, in either order, expands to exactly the valid dates between the two,
  in ascending order.
\<close>

definition year_of :: "date \<Rightarrow> int" where
  "year_of dt = fst dt"

lemma digits_date:
  assumes "timeParse_ymd s = Ok dt"
  shows "length s = 8" "all_digits s" "valid_date dt" "digits_val s = date_num dt" "0 \<le> year_of dt" "year_of dt < 10000"
proof -
  let ?a = "take 4 s" and ?b = "take 2 (drop 4 s)" and ?c = "drop 6 s"
  have p: "length s = 8" "all_digits s" "valid_date dt" "dt = (digits_val ?a, digits_val ?b, digits_val ?c)"
    using assms by (auto simp: timeParse_ymd_def Let_def split: if_splits)
  have "?c = drop 2 (drop 4 s)" by simp
  then have s: "s = ?a @ ?b @ ?c" by (metis append_take_drop_id)
  show "length s = 8" "all_digits s" "valid_date dt" using p by blast+
  have d: "all_digits ?a" "all_digits ?b" "all_digits ?c"
    using p(2) by (auto simp: all_digits_def list_all_iff dest: in_set_takeD in_set_dropD)
  show "digits_val s = date_num dt"
    using p(1) unfolding p(4) by (subst s) (simp add: digits_val_app)
  show "0 \<le> year_of dt" "year_of dt < 10000"
    using digits_val_bounds [OF d(1)] p(1) unfolding p(4) year_of_def by simp_all
qed

lemma next_day_least:
  assumes "valid_date b" "valid_date e" "date_num b < date_num e"
  shows "date_num (next_day b) \<le> date_num e"
proof -
  obtain y m d where b: "b = (y, m, d)" by (cases b)
  obtain y' m' d' where e: "e = (y', m', d')" by (cases e)
  have bd: "1 \<le> m" "m \<le> 12" "1 \<le> d" "d \<le> daysIn m y" "1 \<le> m'" "m' \<le> 12" "1 \<le> d'" "d' \<le> daysIn m' y'"
    using assms b e by auto
  note k = daysIn_bounds [of m y] daysIn_bounds [of m' y']
  have lt: "y * 10000 + m * 100 + d < y' * 10000 + m' * 100 + d'" using assms(3) b e by simp
  show ?thesis
  proof (cases "d < daysIn m y")
    case True
    then show ?thesis using lt b e by simp
  next
    case False
    then have d: "d = daysIn m y" using bd by simp
    have "\<not> (y' = y \<and> m' = m)" using bd d lt by auto
    then have "y < y' \<or> y = y' \<and> m < m'" using lt bd k by (cases "y = y'"; cases "m = m'") auto
    then show ?thesis using b e bd k d by auto
  qed
qed

lemma date_num_inj:
  assumes "valid_date b" "valid_date e" "date_num b = date_num e"
  shows "b = e"
proof -
  obtain y m d where b: "b = (y, m, d)" by (cases b)
  obtain y' m' d' where e: "e = (y', m', d')" by (cases e)
  have bd: "1 \<le> m" "m \<le> 12" "1 \<le> d" "d \<le> 31" "1 \<le> m'" "m' \<le> 12" "1 \<le> d'" "d' \<le> 31"
    using assms b e daysIn_bounds [of m y] daysIn_bounds [of m' y'] by auto
  have eq: "y * 10000 + m * 100 + d = y' * 10000 + m' * 100 + d'" using assms(3) b e by simp
  have "y = y'" using eq bd by linarith
  moreover from this have "m = m'" using eq bd by linarith
  ultimately show ?thesis using eq b e by simp
qed

lemma iterate_reaches:
  assumes "valid_date b" "valid_date e" "date_num b \<le> date_num e"
  shows "\<exists>n. (next_day ^^ n) b = e"
  using assms
proof (induction "nat (date_num e - date_num b)" arbitrary: b rule: less_induct)
  case less
  show ?case
  proof (cases "date_num b = date_num e")
    case True
    then have "b = e" using less.prems date_num_inj by blast
    then show ?thesis by (intro exI [of _ 0]) simp
  next
    case False
    then have lt: "date_num b < date_num e" using less.prems by simp
    note nx = next_day_valid [OF less.prems(1)] next_day_num [OF less.prems(1)]
      next_day_least [OF less.prems(1,2) lt]
    have "nat (date_num e - date_num (next_day b)) < nat (date_num e - date_num b)"
      using nx by simp
    from less.hyps [OF this nx(1) less.prems(2) nx(3)]
    obtain n where "(next_day ^^ n) (next_day b) = e" by blast
    then show ?thesis by (intro exI [of _ "Suc n"]) (simp add: funpow_swap1)
  qed
qed

lemma iterate_num_mono:
  "valid_date b \<Longrightarrow> i \<le> j \<Longrightarrow> date_num ((next_day ^^ i) b) \<le> date_num ((next_day ^^ j) b)"
  using iterate_next_day_mono [of b i j] by (cases "i = j") auto

lemma iterate_year_bound:
  assumes "valid_date b" "(next_day ^^ n) b = e" "0 \<le> year_of b" "year_of e < 10000" "k \<le> n"
  shows "case (next_day ^^ k) b of (y, _) \<Rightarrow> 0 \<le> y \<and> y < 10000"
proof -
  obtain y m d y0 m0 d0 y1 m1 d1 where q: "(next_day ^^ k) b = (y, m, d)" "b = (y0, m0, d0)" "e = (y1, m1, d1)"
    by (metis prod_cases3)
  have v: "valid_date ((next_day ^^ i) b)" for i using iterate_next_day [OF assms(1)] by blast
  have "date_num b \<le> date_num (y, m, d)" "date_num (y, m, d) \<le> date_num e"
    using iterate_num_mono [OF assms(1), of 0 k] iterate_num_mono [OF assms(1,5)] assms(2) q(1) by simp_all
  moreover have "valid_date (y, m, d)" "valid_date e" using v [of k] v [of n] assms(2) q(1) by simp_all
  ultimately show ?thesis
    using assms(1,3,4) q daysIn_bounds [of m y] daysIn_bounds [of m0 y0] daysIn_bounds [of m1 y1]
    by (simp add: year_of_def)
qed

lemma day_loop_prefix:
  assumes "valid_date b" "valid_date e" "date_num b \<le> date_num e" "0 \<le> year_of b" "year_of e < 10000"
    "int n \<le> day_number e - day_number b + 1"
  shows "day_loop b n = Ok (map (\<lambda>k. date_num ((next_day ^^ k) b)) [0..<n])"
    "sorted_wrt (<) (map (\<lambda>k. date_num ((next_day ^^ k) b)) [0..<n])"
proof -
  obtain m where m: "(next_day ^^ m) b = e" using iterate_reaches [OF assms(1-3)] by blast
  then have "n \<le> Suc m" using iterate_next_day [OF assms(1), of m] assms(6) by simp
  then show "day_loop b n = Ok (map (\<lambda>k. date_num ((next_day ^^ k) b)) [0..<n])"
    using iterate_year_bound [OF assms(1) m assms(4,5)] by (intro day_loop_eq [OF assms(1)]) auto
  show "sorted_wrt (<) (map (\<lambda>k. date_num ((next_day ^^ k) b)) [0..<n])"
    using iterate_next_day_mono [OF assms(1)] by (auto simp: sorted_wrt_map sorted_wrt_iff_nth_less)
qed

lemma day_loop_set:
  assumes "valid_date b" "valid_date e" "date_num b \<le> date_num e" "0 \<le> year_of b" "year_of e < 10000"
  shows "\<exists>l. day_loop b (nat (day_number e - day_number b + 1)) = Ok l \<and> sorted_wrt (<) l \<and>
     set l = {date_num d | d. valid_date d \<and> date_num b \<le> date_num d \<and> date_num d \<le> date_num e}"
proof -
  obtain n where n: "(next_day ^^ n) b = e" using iterate_reaches [OF assms(1-3)] by blast
  have it: "valid_date ((next_day ^^ k) b)" for k using iterate_next_day [OF assms(1)] by blast
  have len: "nat (day_number e - day_number b + 1) = Suc n" "int (Suc n) \<le> day_number e - day_number b + 1"
    using iterate_next_day [OF assms(1), of n] n by simp_all
  note le = iterate_num_mono [OF assms(1)] and pre = day_loop_prefix [OF assms len(2)]
  let ?l = "map (\<lambda>k. date_num ((next_day ^^ k) b)) [0..<Suc n]"
  have "set ?l = {date_num d | d. valid_date d \<and> date_num b \<le> date_num d \<and> date_num d \<le> date_num e}"
  proof (intro equalityI subsetI)
    fix x assume "x \<in> set ?l"
    then obtain k where "k < Suc n" "x = date_num ((next_day ^^ k) b)" by (auto simp del: upt_Suc)
    then show "x \<in> {date_num d | d. valid_date d \<and> date_num b \<le> date_num d \<and> date_num d \<le> date_num e}"
      using it [of k] le [of 0 k] le [of k n] unfolding n funpow_0 by (intro CollectI exI [of _ "(next_day ^^ k) b"]) simp
  next
    fix x assume "x \<in> {date_num d | d. valid_date d \<and> date_num b \<le> date_num d \<and> date_num d \<le> date_num e}"
    then obtain d where d: "x = date_num d" "valid_date d" "date_num b \<le> date_num d" "date_num d \<le> date_num e" by blast
    obtain k where k: "(next_day ^^ k) b = d" using iterate_reaches [OF assms(1) d(2,3)] by blast
    have "k \<le> n" using iterate_next_day_mono [OF assms(1), of n k] d(4) n k by (cases "k \<le> n") auto
    then show "x \<in> set ?l" using d(1) k by (auto simp del: upt_Suc)
  qed
  then show ?thesis unfolding len(1) using pre by blast
qed

lemma ParseDayRange_sorted:
  assumes "ParseDayRange r = Ok l"
  shows "sorted_wrt (<) l"
proof -
  consider x where "splitN2 (CHR ''-'') r = [x]" | x y where "splitN2 (CHR ''-'') r = [x, y]"
    by (cases "CHR ''-'' \<in> set r") (auto simp: splitN2_def)
  then show ?thesis
  proof cases
    case 1
    then show ?thesis using assms by (auto simp: ParseDayRange_def parse_single_date_def split: if_splits)
  next
    case (2 x y)
    obtain lo hi b e where q: "timeParse_ymd lo = Ok b" "timeParse_ymd hi = Ok e" "lo \<le> hi"
      "day_loop b (nat (days_sub e b + 1)) = Ok l"
      using assms 2 by (auto simp: ParseDayRange_def split: if_splits)
    note L = digits_date [OF q(1)] and H = digits_date [OF q(2)]
    have "date_num b \<le> date_num e" using q(3) digits_less [of hi lo] L H by (simp add: not_less [symmetric])
    moreover from this obtain m where "(next_day ^^ m) b = e" using iterate_reaches [OF L(3) H(3)] by blast
    then have "day_number b \<le> day_number e" using iterate_next_day [OF L(3), of m] by simp
    ultimately show ?thesis
      using day_loop_prefix [OF L(3) H(3) _ L(5) H(6), of "nat (days_sub e b + 1)"] q(4)
      by (auto simp: days_sub_def)
  qed
qed

text \<open>
  C21: the day range \<^verbatim>\<open>s-t\<close> of two dates at most 106751 days apart, written in either order,
  expands to exactly the valid calendar dates from the earlier to the later one, each once, in
  ascending order.
\<close>

lemma ParseDayRange_days:
  assumes "timeParse_ymd s = Ok b" "timeParse_ymd t = Ok e" "\<bar>day_number e - day_number b\<bar> \<le> 106751"
  shows "\<exists>l. ParseDayRange (s @ ''-'' @ t) = Ok l \<and> sorted_wrt (<) l \<and>
     set l = {date_num d | d. valid_date d \<and> min (date_num b) (date_num e) \<le> date_num d \<and>
                              date_num d \<le> max (date_num b) (date_num e)}"
proof -
  note S = digits_date [OF assms(1)] and T = digits_date [OF assms(2)]
  have lt: "t < s \<longleftrightarrow> date_num e < date_num b" using digits_less [of t s] S T by simp
  have sp: "splitN2 (CHR ''-'') (s @ ''-'' @ t) = [s, t]" using splitN2_dash [OF S(2)] by simp
  have ds: "days_sub b e = day_number b - day_number e" "days_sub e b = day_number e - day_number b"
    using assms(3) by (simp_all add: days_sub_def)
  show ?thesis
  proof (cases "t < s")
    case True
    then show ?thesis using day_loop_set [OF T(3) S(3)] lt S T assms(1,2) sp
      by (simp add: ParseDayRange_def ds min_def max_def)
  next
    case False
    then show ?thesis using day_loop_set [OF S(3) T(3)] lt S T assms(1,2) sp
      by (simp add: ParseDayRange_def ds min_def max_def)
  qed
qed

theorem ParseDayRange_days_witness:
  "timeParse_ymd ''20160228'' = Ok (2016, 2, 28) \<and> timeParse_ymd ''20160302'' = Ok (2016, 3, 2) \<and>
   ParseDayRange ''20160302-20160228'' = Ok [20160228, 20160229, 20160301, 20160302] \<and>
   (\<exists>l. ParseDayRange (''20160302'' @ ''-'' @ ''20160228'') = Ok l \<and> sorted_wrt (<) l)"
proof -
  have a: "timeParse_ymd ''20160228'' = Ok (2016, 2, 28)" "timeParse_ymd ''20160302'' = Ok (2016, 3, 2)"
    by (code_simp)+
  have b: "ParseDayRange ''20160302-20160228'' = Ok [20160228, 20160229, 20160301, 20160302]"
    by code_simp
  have "\<bar>day_number (2016, 2, 28) - day_number (2016, 3, 2)\<bar> \<le> 106751" by code_simp
  from ParseDayRange_days [OF a(2,1) this] a b show ?thesis by blast
qed

definition nth_month :: "int \<Rightarrow> int \<Rightarrow> nat \<Rightarrow> int" where
  "nth_month y m k = (y + (m - 1 + int k) div 12) * 100 + (m - 1 + int k) mod 12 + 1"

lemma nth_month_Suc: "nth_month y m (Suc k) = nth_month y (m + 1) k"
  by (simp add: nth_month_def algebra_simps)

lemma nth_month_wrap: "nth_month y (12 + m) k = nth_month (y + 1) m k"
proof -
  have "12 + m - 1 + int k = 12 + (m - 1 + int k)" by simp
  then show ?thesis unfolding nth_month_def by (simp only: div_add_self1 mod_add_self1) simp
qed

lemma nth_month_0: "1 \<le> m \<Longrightarrow> m \<le> 12 \<Longrightarrow> nth_month y m 0 = y * 100 + m"
  by (simp add: nth_month_def)

lemma month_loop_eq:
  assumes "1 \<le> m" "m \<le> 13"
  shows "month_loop y m n = map (nth_month y m) [0..<n]"
  using assms
proof (induction n arbitrary: y m)
  case (Suc n)
  have up: "[0..<Suc n] = 0 # map Suc [0..<n]" by (simp add: map_Suc_upt upt_conv_Cons del: upt_Suc)
  have step: "map (nth_month u v) [0..<Suc n] = nth_month u v 0 # map (nth_month u (v + 1)) [0..<n]" for u v
    unfolding up by (simp add: nth_month_Suc)
  show ?case
  proof (cases "m = 13")
    case True
    have "nth_month y m = nth_month (y + 1) 1" using nth_month_wrap [of y 1] True by (intro ext) simp
    then have "map (nth_month y m) [0..<Suc n] = nth_month (y + 1) 1 0 # map (nth_month (y + 1) 2) [0..<n]"
      using step [of "y + 1" 1] by (simp only: one_add_one)
    then show ?thesis using Suc.IH [of 2 "y + 1"] nth_month_0 [of 1 "y + 1"] True by (simp del: upt_Suc)
  next
    case False
    then show ?thesis using Suc.IH [of "m + 1" y] step [of y m] nth_month_0 [of m y] Suc.prems by simp
  qed
qed simp

lemma nth_month_parts:
  "\<exists>q r. nth_month y m k = (y + q) * 100 + r + 1 \<and> m - 1 + int k = 12 * q + r \<and> 0 \<le> r \<and> r < 12"
  unfolding nth_month_def
  by (intro exI [of _ "(m - 1 + int k) div 12"] exI [of _ "(m - 1 + int k) mod 12"]) simp

lemma nth_month_mono:
  assumes "i < j"
  shows "nth_month y m i < nth_month y m j"
proof -
  obtain q r q' r' where e: "nth_month y m i = (y + q) * 100 + r + 1" "m - 1 + int i = 12 * q + r" "0 \<le> r" "r < 12"
    "nth_month y m j = (y + q') * 100 + r' + 1" "m - 1 + int j = 12 * q' + r'" "0 \<le> r'" "r' < 12"
    using nth_month_parts by metis
  have lt: "12 * q + r < 12 * q' + r'" using e(2,6) assms by linarith
  then have "q \<le> q'" using e by linarith
  then show ?thesis unfolding e(1,5) using lt e by (cases "q = q'") (simp_all add: distrib_right)
qed

lemma nth_month_le_iff:
  assumes "1 \<le> m'" "m' \<le> 12"
  shows "nth_month y m k \<le> y' * 100 + m' \<longleftrightarrow> k < nat ((y' - y) * 12 + m' - m + 1)"
proof -
  obtain q r where e: "nth_month y m k = (y + q) * 100 + r + 1" "m - 1 + int k = 12 * q + r" "0 \<le> r" "r < 12"
    using nth_month_parts by metis
  have "(y + q) * 100 + r + 1 \<le> y' * 100 + m' \<longleftrightarrow> 12 * q + r + 1 \<le> (y' - y) * 12 + m'"
    using e(3,4) assms by (cases "y + q = y'"; cases "y + q < y'") auto
  then show ?thesis using e by auto
qed

lemma nth_month_reach:
  assumes "1 \<le> m" "m \<le> 12" "1 \<le> v" "v \<le> 12" "y * 100 + m \<le> u * 100 + v"
  shows "\<exists>k. u * 100 + v = nth_month y m k"
proof -
  have "(u - y) * 12 + v - m \<ge> 0" using assms by (cases "u = y"; cases "u < y") auto
  then obtain k where "int k = (u - y) * 12 + v - m" using nonneg_int_cases by metis
  then have k: "m - 1 + int k = 12 * (u - y) + (v - 1)" by simp
  have "(m - 1 + int k) div 12 = u - y" "(m - 1 + int k) mod 12 = v - 1"
    unfolding k using assms(3,4)
    by (intro int_div_pos_eq [where r = "v - 1"] int_mod_pos_eq [where q = "u - y"]; simp)+
  then have "u * 100 + v = nth_month y m k" by (simp add: nth_month_def)
  then show ?thesis by blast
qed

lemma month_loop_set:
  assumes "1 \<le> m" "m \<le> 12" "1 \<le> m'" "m' \<le> 12" "y * 100 + m \<le> y' * 100 + m'"
  shows "sorted_wrt (<) (month_loop y m (nat ((y' - y) * 12 + m' - m + 1))) \<and>
     set (month_loop y m (nat ((y' - y) * 12 + m' - m + 1))) =
       {u * 100 + v | u v. 1 \<le> v \<and> v \<le> 12 \<and> y * 100 + m \<le> u * 100 + v \<and> u * 100 + v \<le> y' * 100 + m'}"
    (is "_ \<and> _ = ?S")
proof -
  let ?f = "nth_month y m" and ?n = "nat ((y' - y) * 12 + m' - m + 1)"
  have lo: "y * 100 + m \<le> ?f k" for k
    using nth_month_mono [of 0 k y m] nth_month_0 [OF assms(1,2), of y] by (cases "k = 0") auto
  have "sorted_wrt (<) (map ?f [0..<?n])"
    using nth_month_mono by (simp add: sorted_wrt_map sorted_wrt_iff_nth_less)
  moreover have "set (map ?f [0..<?n]) = ?S"
  proof (intro equalityI subsetI)
    fix x assume "x \<in> set (map ?f [0..<?n])"
    then obtain k where "k < ?n" "x = ?f k" by auto
    moreover obtain q r where "?f k = (y + q) * 100 + r + 1" "0 \<le> r" "r < 12"
      using nth_month_parts by metis
    ultimately show "x \<in> ?S" using nth_month_le_iff [OF assms(3,4), of y m k y'] lo [of k]
      by (intro CollectI exI [of _ "y + q"] exI [of _ "r + 1"]) auto
  next
    fix x assume "x \<in> ?S"
    then obtain u v where uv: "x = u * 100 + v" "1 \<le> v" "v \<le> 12" "y * 100 + m \<le> x" "x \<le> y' * 100 + m'" by blast
    then obtain k where "x = ?f k" using nth_month_reach [OF assms(1,2)] by metis
    then show "x \<in> set (map ?f [0..<?n])" using nth_month_le_iff [OF assms(3,4), of y m k y'] uv by auto
  qed
  ultimately show ?thesis using month_loop_eq [of m y ?n] assms(1,2) by simp
qed

lemma month_loop_sorted':
  "m \<le> 13 \<Longrightarrow> sorted_wrt (<) (month_loop y m n) \<and> (\<forall>x \<in> set (month_loop y m n). y * 100 + m \<le> x)"
proof (induction n arbitrary: y m)
  case (Suc n)
  show ?case
  proof (cases "m = 13")
    case True
    then show ?thesis using Suc.IH [of 2 "y + 1"] by fastforce
  next
    case False
    then show ?thesis using Suc.IH [of "m + 1" y] Suc.prems by fastforce
  qed
qed simp

lemma month_loop_sorted: "sorted_wrt (<) (month_loop y m n)"
proof (cases "m \<le> 13")
  case False
  show ?thesis
  proof (cases n)
    case (Suc k)
    have "month_loop y m (Suc k) = month_loop (y + 1) (m mod 12) (Suc k)" using False by simp
    moreover have "m mod 12 \<le> 13" by (rule order_trans [OF less_imp_le [OF pos_mod_bound]]) simp_all
    ultimately show ?thesis using month_loop_sorted' Suc by metis
  qed simp
qed (use month_loop_sorted' in blast)

lemma ParseMonthRange_sorted: "ParseMonthRange r = Ok l \<Longrightarrow> sorted_wrt (<) l"
  using month_loop_sorted
  by (auto simp: ParseMonthRange_def parse_single_date_def split: if_splits list.splits)

lemma ParseYearRange_sorted: "ParseYearRange r = Ok l \<Longrightarrow> sorted_wrt (<) l"
  by (auto simp: ParseYearRange_def parse_single_date_def split: if_splits list.splits)

lemma digits_month:
  assumes "timeParse_ym s = Ok (y, m, d)"
  shows "length s = 6" "all_digits s" "1 \<le> m" "m \<le> 12" "digits_val s = y * 100 + m"
    "atoi (take 4 s) = Ok y" "atoi (drop 4 s) = Ok m"
proof -
  have p: "length s = 6" "all_digits s" "1 \<le> m" "m \<le> 12" "y = digits_val (take 4 s)" "m = digits_val (drop 4 s)"
    using assms by (auto simp: timeParse_ym_def Let_def split: if_splits)
  have d: "all_digits (take 4 s)" "all_digits (drop 4 s)"
    using p(2) by (auto simp: all_digits_def list_all_iff dest: in_set_takeD in_set_dropD)
  show "length s = 6" "all_digits s" "1 \<le> m" "m \<le> 12" using p by blast+
  show "digits_val s = y * 100 + m"
    using digits_val_app [of "take 4 s" "drop 4 s"] p by simp
  show "atoi (take 4 s) = Ok y" "atoi (drop 4 s) = Ok m"
    using atoi_digits [OF d(1)] atoi_digits [OF d(2)] p(1) unfolding p(5,6) by force+
qed

text \<open>
  C32: the month range \<^verbatim>\<open>s-t\<close> of two months, written in either order, expands to exactly the
  months from the earlier to the later one, each once, in ascending order, across year ends.
\<close>

lemma ParseMonthRange_months:
  assumes "timeParse_ym s = Ok (y, m, d)" "timeParse_ym t = Ok (y', m', d')"
  shows "\<exists>l. ParseMonthRange (s @ ''-'' @ t) = Ok l \<and> sorted_wrt (<) l \<and>
     set l = {u * 100 + v | u v. 1 \<le> v \<and> v \<le> 12 \<and>
        min (y * 100 + m) (y' * 100 + m') \<le> u * 100 + v \<and> u * 100 + v \<le> max (y * 100 + m) (y' * 100 + m')}"
proof -
  note S = digits_month [OF assms(1)] and T = digits_month [OF assms(2)]
  have lt: "t < s \<longleftrightarrow> y' * 100 + m' < y * 100 + m" using digits_less [of t s] S T by simp
  have sp: "splitN2 (CHR ''-'') (s @ ''-'' @ t) = [s, t]" using splitN2_dash [OF S(2)] by simp
  show ?thesis
  proof (cases "t < s")
    case True
    then show ?thesis using month_loop_set [of m' m y' y] lt S T sp
      by (simp add: ParseMonthRange_def min_def max_def)
  next
    case False
    then show ?thesis using month_loop_set [of m m' y y'] lt S T sp
      by (simp add: ParseMonthRange_def min_def max_def)
  qed
qed

theorem ParseMonthRange_months_witness:
  "timeParse_ym ''201511'' = Ok (2015, 11, 1) \<and> timeParse_ym ''201602'' = Ok (2016, 2, 1) \<and>
   ParseMonthRange ''201511-201602'' = Ok [201511, 201512, 201601, 201602] \<and>
   (\<exists>l. ParseMonthRange (''201511'' @ ''-'' @ ''201602'') = Ok l \<and> sorted_wrt (<) l)"
proof -
  have a: "timeParse_ym ''201511'' = Ok (2015, 11, 1)" "timeParse_ym ''201602'' = Ok (2016, 2, 1)"
    by (code_simp)+
  have b: "ParseMonthRange ''201511-201602'' = Ok [201511, 201512, 201601, 201602]"
    by code_simp
  from ParseMonthRange_months [OF a] a b show ?thesis by blast
qed

lemma ParseYearRange_years:
  assumes "length s = 4" "all_digits s" "length t = 4" "all_digits t"
  shows "ParseYearRange (s @ ''-'' @ t) =
     Ok [min (digits_val s) (digits_val t)..max (digits_val s) (digits_val t)]"
proof -
  have lt: "t < s \<longleftrightarrow> digits_val t < digits_val s" using digits_less [of t s] assms by simp
  have sp: "splitN2 (CHR ''-'') (s @ ''-'' @ t) = [s, t]" using splitN2_dash [OF assms(2)] by simp
  have a: "atoi s = Ok (digits_val s)" "atoi t = Ok (digits_val t)" using assms by (auto intro!: atoi_digits)
  have b: "digits_val s < MaxInt64" "digits_val t < MaxInt64"
    using digits_val_bounds [OF assms(2)] digits_val_bounds [OF assms(4)] assms by (simp_all add: MaxInt64_def)
  show ?thesis using sp a b lt by (simp add: ParseYearRange_def min_def max_def)
qed

end
