(* ===== verification/Util_Hash.thy ===== *)
theory Util_Hash
  imports Go_Base
begin

text \<open>
  The hashing and padding helpers of \<^verbatim>\<open>src/util\<close>: \<^verbatim>\<open>hack.Abs\<close> (\<^verbatim>\<open>util/hack/hack.go\<close>),
  \<^verbatim>\<open>Left\<close> and \<^verbatim>\<open>Right\<close> (\<^verbatim>\<open>util/padding.go\<close>) and the 32-bit Murmur3 hash
  (\<^verbatim>\<open>util/murmur.go\<close>), which computes in \<^verbatim>\<open>int64\<close> and truncates to \<^verbatim>\<open>int32\<close>; and
  \<^verbatim>\<open>hash/crc32.ChecksumIEEE\<close> of the standard library. The main result is that the murmur code
  computes \<^verbatim>\<open>MurmurHash3_x86_32\<close>, specified on bytes with constants of its own and checked against
  published test vectors.
\<close>

unbundle bit_operations_syntax

section \<open>hack.Abs and padding\<close>

definition Abs :: "int \<Rightarrow> int" where
  "Abs n = (let y = drop_bit 63 n in i64 ((n XOR y) - y))"

fun times_str :: "string \<Rightarrow> nat \<Rightarrow> string" where
  "times_str s 0 = []"
| "times_str s (Suc n) = times_str s n @ s"

definition Left :: "string \<Rightarrow> int \<Rightarrow> string \<Rightarrow> string" where
  "Left str len pad = times_str pad (nat (len - int (length str))) @ str"

definition Right :: "string \<Rightarrow> int \<Rightarrow> string \<Rightarrow> string" where
  "Right str len pad = str @ times_str pad (nat (len - int (length str)))"

section \<open>crc32.ChecksumIEEE\<close>

definition crc32_bit :: "32 word \<Rightarrow> 32 word" where
  "crc32_bit c = (if bit c 0 then drop_bit 1 c XOR 0xEDB88320 else drop_bit 1 c)"

definition crc32_byte :: "32 word \<Rightarrow> char \<Rightarrow> 32 word" where
  "crc32_byte c b = (crc32_bit ^^ 8) (c XOR word_of_int (of_char b))"

definition ChecksumIEEE :: "string \<Rightarrow> 32 word" where
  "ChecksumIEEE s = NOT (foldl crc32_byte (NOT 0) s)"

section \<open>Murmur hash\<close>

definition rotateLeft :: "32 word \<Rightarrow> nat \<Rightarrow> 32 word" where
  "rotateLeft i distance = push_bit distance i OR drop_bit (32 - distance) i"

definition mixK1 :: "32 word \<Rightarrow> 32 word" where
  "mixK1 k1 =
     (let k1_64 = i64 (sint k1 * 0xcc9e2d51);
          k1 = rotateLeft (word_of_int k1_64) 15
      in word_of_int (i64 (sint k1 * 0x1b873593)))"

definition mixH1 :: "32 word \<Rightarrow> 32 word \<Rightarrow> 32 word" where
  "mixH1 h1 k1 =
     (let h1 = rotateLeft (h1 XOR k1) 13
      in word_of_int (i64 (i64 (sint h1 * 5) + 0xe6546b64)))"

definition fmix :: "32 word \<Rightarrow> 32 word \<Rightarrow> 32 word" where
  "fmix h1 len =
     (let h1 = h1 XOR len;
          h1 = h1 XOR drop_bit 16 h1;
          h1 = h1 * 0x85ebca6b;
          h1 = h1 XOR drop_bit 13 h1;
          h1 = h1 * 0xc2b2ae35
      in h1 XOR drop_bit 16 h1)"

fun murmur_loop :: "32 word \<Rightarrow> int list \<Rightarrow> 32 word" where
  "murmur_loop h1 (a # b # rest) =
     murmur_loop (mixH1 h1 (mixK1 (word_of_int a OR push_bit 16 (word_of_int b)))) rest"
| "murmur_loop h1 [a] = h1 XOR mixK1 (word_of_int a)"
| "murmur_loop h1 [] = h1"

definition HashUnencodedChars :: "int \<Rightarrow> string \<Rightarrow> int" where
  "HashUnencodedChars seed inputStr =
     (let input = runes inputStr
      in sint (fmix (murmur_loop (word_of_int seed) input) (word_of_int (2 * int (length input)))))"

section \<open>Absolute value\<close>

lemma Abs_eq:
  assumes "in_i64 n"
  shows "Abs n = (if n = MinInt64 then MinInt64 else \<bar>n\<bar>)"
proof (cases "n < 0")
  case True
  have "drop_bit 63 n = - 1"
    using True assms by (simp add: drop_bit_eq_div in_i64_bounds)
  then have a: "Abs n = i64 (- n)" by (simp add: Abs_def not_eq_complement)
  show ?thesis
  proof (cases "n = MinInt64")
    case True
    have "i64 (- MinInt64) = MinInt64" by code_simp
    with True a show ?thesis by simp
  next
    case False
    then have "in_i64 (- n)" using assms \<open>n < 0\<close> by (auto simp: in_i64_def MinInt64_def MaxInt64_def)
    with a False \<open>n < 0\<close> show ?thesis by (simp add: i64_id)
  qed
next
  case False
  then have "drop_bit 63 n = 0" using assms by (simp add: drop_bit_eq_div in_i64_bounds)
  moreover have "n \<noteq> MinInt64" using False by (simp add: MinInt64_def)
  ultimately show ?thesis using False assms by (simp add: Abs_def i64_id)
qed

lemma length_times_str [simp]: "length (times_str s n) = n * length s"
  by (induction n) auto

section \<open>The reference hash\<close>

text \<open>
  \<^verbatim>\<open>MurmurHash3_x86_32\<close> as published, on bytes: blocks of four bytes in little-endian order, a tail
  of up to three bytes, and the finalizer on the length in bytes.
\<close>

definition m3_scramble :: "32 word \<Rightarrow> 32 word" where
  "m3_scramble k = word_rotl 15 (k * 0xcc9e2d51) * 0x1b873593"

definition m3_block :: "32 word \<Rightarrow> 32 word \<Rightarrow> 32 word" where
  "m3_block h k = word_rotl 13 (h XOR m3_scramble k) * 5 + 0xe6546b64"

definition m3_xorshift :: "nat \<Rightarrow> 32 word \<Rightarrow> 32 word" where
  "m3_xorshift n h = h XOR drop_bit n h"

definition m3_finalize :: "32 word \<Rightarrow> 32 word" where
  "m3_finalize h = m3_xorshift 16 (m3_xorshift 13 (m3_xorshift 16 h * 0x85ebca6b) * 0xc2b2ae35)"

fun le_word :: "8 word list \<Rightarrow> 32 word" where
  "le_word [] = 0"
| "le_word (b # bs) = ucast b + 256 * le_word bs"

fun m3_body :: "32 word \<Rightarrow> 8 word list \<Rightarrow> 32 word" where
  "m3_body h (a # b # c # d # rest) = m3_body (m3_block h (le_word [a, b, c, d])) rest"
| "m3_body h bs = h XOR m3_scramble (le_word bs)"

definition murmur3_32 :: "32 word \<Rightarrow> 8 word list \<Rightarrow> 32 word" where
  "murmur3_32 seed bs = m3_finalize (m3_body seed bs XOR of_nat (length bs))"

text \<open>Guava hashes the \<^verbatim>\<open>char\<close>s of a Java string, its UTF-16 units, each as two bytes.\<close>

definition unit_bytes :: "int \<Rightarrow> 8 word list" where
  "unit_bytes u = [word_of_int u, word_of_int (u div 256)]"

definition utf16_units :: "int \<Rightarrow> int list" where
  "utf16_units r =
     (if r < 0x10000 then [r] else [0xD800 + (r - 0x10000) div 1024, 0xDC00 + (r - 0x10000) mod 1024])"

definition utf16_bytes :: "int list \<Rightarrow> 8 word list" where
  "utf16_bytes rs = concat (map unit_bytes (concat (map utf16_units rs)))"

lemma murmur3_32_vectors:
  "murmur3_32 0 [] = 0" "murmur3_32 1 [] = 0x514E28B7" "murmur3_32 0xFFFFFFFF [] = 0x81F16F39"
  "murmur3_32 0 [0xFF, 0xFF, 0xFF, 0xFF] = 0x76293B50" "murmur3_32 0 [0x21, 0x43, 0x65, 0x87] = 0xF55B516B"
  "murmur3_32 0x5082EDEE [0x21, 0x43, 0x65, 0x87] = 0x2362F9DE" "murmur3_32 0 [0x21, 0x43, 0x65] = 0x7E4A8634"
  "murmur3_32 0 [0x21, 0x43] = 0xA0F7B07A" "murmur3_32 0 [0x21] = 0x72661CF4"
  "murmur3_32 0x9747B28C (map (\<lambda>c. word_of_int (of_char c)) ''Hello, world!'') = 0x24884CBA"
  by code_simp+

section \<open>The murmur code computes the reference hash\<close>

lemma decode_rune_nonneg: "0 \<le> b \<Longrightarrow> \<forall>x \<in> set bs. 0 \<le> x \<Longrightarrow> decode_rune b bs = (r, w) \<Longrightarrow> 0 \<le> r"
  by (auto simp: decode_rune_def Let_def cont_byte_def split: if_splits list.splits)

lemma bytes_runes_nonneg: "\<forall>x \<in> set bs. 0 \<le> x \<Longrightarrow> \<forall>r \<in> set (bytes_runes bs). 0 \<le> r"
proof (induction bs rule: bytes_runes.induct)
  case (2 b bs)
  obtain r w where d: "decode_rune b bs = (r, w)" by (cases "decode_rune b bs")
  have "\<forall>x \<in> set (drop (nat (w - 1)) bs). 0 \<le> x" using 2(2) by (auto dest: in_set_dropD)
  with 2(1) [OF d [symmetric]] d decode_rune_nonneg [OF _ _ d] 2(2) show ?case by simp
qed simp

lemma runes_nonneg: "r \<in> set (runes s) \<Longrightarrow> 0 \<le> r"
  using bytes_runes_nonneg [of "map of_char s"] by (auto simp: runes_def of_char_def intro: horner_sum_nonnegative)

lemma word32_i64: "(word_of_int (i64 x) :: 32 word) = word_of_int x"
  by (simp add: word_of_int_eq_iff i64_def take_bit_signed_take_bit)

lemma rotateLeft_rotl: "0 < d \<Longrightarrow> d < 32 \<Longrightarrow> rotateLeft x d = word_rotl d x"
proof (rule bit_word_eqI)
  fix n assume d: "0 < d" "d < 32" and n: "n < LENGTH(32)"
  show "bit (rotateLeft x d) n \<longleftrightarrow> bit (word_rotl d x) n"
  proof (cases "d \<le> n")
    case True
    then have "(n + (32 - d)) mod 32 = n - d" using d n by (simp add: mod_if)
    moreover have "\<not> bit x (32 - d + n)" using True d bit_imp_le_length [of x "32 - d + n"] by auto
    ultimately show ?thesis using True d n
      by (simp add: rotateLeft_def bit_or_iff bit_push_bit_iff bit_drop_bit_eq bit_word_rotl_iff)
  next
    case False
    then have "(n + (32 - d)) mod 32 = 32 - d + n" using d n by simp
    then show ?thesis using False d n
      by (simp add: rotateLeft_def bit_or_iff bit_push_bit_iff bit_drop_bit_eq bit_word_rotl_iff)
  qed
qed

lemma mixK1_ref: "mixK1 k = m3_scramble k"
  by (simp add: mixK1_def m3_scramble_def Let_def word32_i64 rotateLeft_rotl)

lemma mixH1_ref: "mixH1 h (mixK1 k) = m3_block h k"
  by (simp add: mixH1_def m3_block_def mixK1_ref Let_def word32_i64 rotateLeft_rotl)

lemma fmix_ref: "fmix h len = m3_finalize (h XOR len)"
  by (simp add: fmix_def m3_finalize_def m3_xorshift_def Let_def)

lemma le_unit:
  assumes "0 \<le> u" "u < 0x10000"
  shows "le_word (unit_bytes u) = word_of_int u"
proof -
  have "u div 256 < 256" using assms by simp
  then have "le_word (unit_bytes u) = word_of_int (u mod 256) + 256 * word_of_int (u div 256)"
    using assms by (simp add: unit_bytes_def unsigned_ucast_eq ucast_eq uint_word_of_int)
  also have "\<dots> = word_of_int (u mod 256 + 256 * (u div 256))" by (simp only: of_int_add of_int_mult of_int_numeral)
  finally show ?thesis by (simp only: mod_mult_div_eq)
qed

lemma le_two_units:
  assumes "0 \<le> u" "u < 0x10000" "0 \<le> v" "v < 0x10000"
  shows "le_word (unit_bytes u @ unit_bytes v) = word_of_int u OR push_bit 16 (word_of_int v)"
proof -
  have "le_word (unit_bytes u @ unit_bytes v) = le_word (unit_bytes u) + 65536 * le_word (unit_bytes v)"
    by (simp add: unit_bytes_def algebra_simps)
  also have "\<dots> = word_of_int (u + push_bit 16 v)" using assms by (simp add: le_unit push_bit_eq_mult)
  also have "u + push_bit 16 v = u OR push_bit 16 v"
  proof (rule disjunctive_add)
    have "take_bit 16 u = u" using assms by (simp add: take_bit_int_eq_self_iff)
    then have "\<not> bit u n" if "16 \<le> n" for n using that by (metis bit_take_bit_iff not_less)
    then show "\<not> bit u n \<or> \<not> bit (push_bit 16 v) n" for n
      by (cases "16 \<le> n") (auto simp: bit_push_bit_iff)
  qed
  finally show ?thesis by (simp add: of_int_or_eq of_int_push_bit)
qed

lemma murmur_loop_ref:
  assumes "\<forall>r \<in> set rs. 0 \<le> r \<and> r < 0x10000"
  shows "murmur_loop h rs = m3_body h (concat (map unit_bytes rs))"
  using assms
proof (induction h rs rule: murmur_loop.induct)
  case (1 h a b rest)
  then show ?case using le_two_units [of a b] by (simp add: unit_bytes_def mixH1_ref)
next
  case (2 h a)
  then show ?case using le_unit [of a] by (simp add: unit_bytes_def mixK1_ref)
qed (simp add: m3_scramble_def)

text \<open>
  C34: the murmur code, which multiplies in \<^verbatim>\<open>int64\<close> and truncates, computes \<^verbatim>\<open>MurmurHash3_x86_32\<close> of the
  UTF-16 encoding of the string, as Guava does, for every seed and every string of characters of the
  basic multilingual plane (below \<^verbatim>\<open>U+10000\<close>).
\<close>

theorem HashUnencodedChars_ref:
  assumes "list_all (\<lambda>r. r < 0x10000) (runes s)"
  shows "HashUnencodedChars seed s = sint (murmur3_32 (word_of_int seed) (utf16_bytes (runes s)))"
proof -
  have r: "\<forall>r \<in> set (runes s). 0 \<le> r \<and> r < 0x10000" using assms runes_nonneg by (auto simp: list_all_iff)
  then have "map utf16_units (runes s) = map (\<lambda>r. [r]) (runes s)" by (simp add: utf16_units_def)
  then have u: "utf16_bytes (runes s) = concat (map unit_bytes (runes s))"
    unfolding utf16_bytes_def by (simp only: concat_map_singleton list.map_ident)
  have "length (concat (map unit_bytes rs)) = 2 * length rs" for rs by (induction rs) (simp_all add: unit_bytes_def)
  then show ?thesis
    by (simp add: HashUnencodedChars_def murmur3_32_def murmur_loop_ref [OF r] fmix_ref u Let_def)
qed

theorem HashUnencodedChars_ref_witness:
  "HashUnencodedChars 0 ''Hello'' = sint (murmur3_32 0 [0x48, 0, 0x65, 0, 0x6C, 0, 0x6C, 0, 0x6F, 0]) \<and>
   HashUnencodedChars 0 ''Hello'' = - 1644453155"
proof -
  have "list_all (\<lambda>r. r < 0x10000) (runes ''Hello'')" "utf16_bytes (runes ''Hello'') = [0x48, 0, 0x65, 0, 0x6C, 0, 0x6C, 0, 0x6F, 0]"
    by code_simp+
  with HashUnencodedChars_ref [of "''Hello''" 0] have "HashUnencodedChars 0 ''Hello'' = sint (murmur3_32 0 [0x48, 0, 0x65, 0, 0x6C, 0, 0x6C, 0, 0x6F, 0])"
    by simp
  moreover have "sint (murmur3_32 0 [0x48, 0, 0x65, 0, 0x6C, 0, 0x6C, 0, 0x6F, 0]) = - 1644453155" by code_simp
  ultimately show ?thesis by simp
qed

text \<open>A character from \<^verbatim>\<open>U+10000\<close> on is two units of UTF-16; the code hashes it as one, so that the hash
  is not that of Guava.\<close>

lemma supplementary_char_gap:
  "runes (map char_of [0xF0::int, 0x9F, 0x98, 0x80]) = [0x1F600]"
  "HashUnencodedChars 0 (map char_of [0xF0::int, 0x9F, 0x98, 0x80]) \<noteq> sint (murmur3_32 0 (utf16_bytes [0x1F600]))"
  by code_simp+

end
