(* ===== verification/Shards.thy ===== *)
theory Shards
  imports Num_Key Util_Hash
begin

text \<open>
  The shard functions of \<^verbatim>\<open>src/proxy/router/shard.go\<close> and \<^verbatim>\<open>src/proxy/router/shard_mycat.go\<close>:
  every implementation of the interfaces \<^verbatim>\<open>Shard\<close> and \<^verbatim>\<open>RangeShard\<close>, which map a sharding key
  to the index of the table that holds it.

  \<^item> A key is an \<^verbatim>\<open>interface{}\<close> in the source; the type switch is a case distinction on
    \<open>key\<close>. Keys of any other dynamic type are \<open>KOther\<close>.
  \<^item> A panic with a \<^verbatim>\<open>KeyError\<close> is the result \<open>Panic (PKeyError _)\<close>: nothing in the
    router recovers it.
  \<^item> What the code takes from outside the repository is in the record \<open>Env\<close>: the offset of the
    local time zone, and the lookups of the red-black tree map of \<^verbatim>\<open>emirpasic/gods\<close>, as
    functions of the sequence of \<^verbatim>\<open>Put\<close> calls made on the map.
\<close>

unbundle bit_operations_syntax

datatype key =
    KInt int
  | KUint int
  | KInt64 int
  | KUint64 int
  | KString string
  | KBytes string
  | KOther

record Env =
  zone :: "int \<Rightarrow> int"
  tm_Ceiling :: "(int \<times> int) list \<Rightarrow> int \<Rightarrow> (int \<times> int) option"
  tm_Min :: "(int \<times> int) list \<Rightarrow> (int \<times> int) option"

fun wf_key :: "key \<Rightarrow> bool" where
  "wf_key (KInt n) \<longleftrightarrow> in_i64 n"
| "wf_key (KInt64 n) \<longleftrightarrow> in_i64 n"
| "wf_key (KUint n) \<longleftrightarrow> 0 \<le> n \<and> n < 2 ^ 64"
| "wf_key (KUint64 n) \<longleftrightarrow> 0 \<le> n \<and> n < 2 ^ 64"
| "wf_key _ \<longleftrightarrow> True"

section \<open>Key conversions\<close>

text \<open>\<^verbatim>\<open>binary.Write(buf, binary.BigEndian, uint64(i))\<close>.\<close>

definition Uint64Key_String :: "int \<Rightarrow> string" where
  "Uint64Key_String i = map (\<lambda>k. char_of (take_bit 8 (drop_bit k (u64 i)))) [56, 48, 40, 32, 24, 16, 8, 0]"

fun EncodeValue :: "key \<Rightarrow> string res" where
  "EncodeValue (KInt n) = Ok (Uint64Key_String n)"
| "EncodeValue (KUint64 n) = Ok (Uint64Key_String n)"
| "EncodeValue (KInt64 n) = Ok (Uint64Key_String n)"
| "EncodeValue (KString s) = Ok s"
| "EncodeValue (KBytes s) = Ok s"
| "EncodeValue _ = Panic (PKeyError ''Unexpected key variable type'')"

fun GetString :: "key \<Rightarrow> string res" where
  "GetString (KInt n) = Ok (itoa n)"
| "GetString (KInt64 n) = Ok (itoa n)"
| "GetString (KUint n) = Ok (itoa n)"
| "GetString (KUint64 n) = Ok (itoa n)"
| "GetString (KString s) = Ok s"
| "GetString (KBytes s) = Ok s"
| "GetString KOther = Panic (PKeyError ''Unexpected key variable type'')"

fun HashValue :: "key \<Rightarrow> int res" where
  "HashValue (KInt n) = Ok (u64 n)"
| "HashValue (KUint64 n) = Ok n"
| "HashValue (KInt64 n) = Ok (u64 n)"
| "HashValue (KString s) =
     (case parseUint10 s of (v, None) \<Rightarrow> Ok v | (v, Some _) \<Rightarrow> Ok (uint (ChecksumIEEE s)))"
| "HashValue (KBytes s) = Ok (uint (ChecksumIEEE s))"
| "HashValue _ = Panic (PKeyError ''Unexpected key variable type'')"

definition num_of_string :: "string \<Rightarrow> int res" where
  "num_of_string s =
     (case parseInt10 s of (v, None) \<Rightarrow> Ok v | (v, Some _) \<Rightarrow> Panic (PKeyError ''invalid num format''))"

fun NumValue :: "key \<Rightarrow> int res" where
  "NumValue (KInt n) = Ok n"
| "NumValue (KUint64 n) = Ok (i64 n)"
| "NumValue (KInt64 n) = Ok n"
| "NumValue (KString s) = num_of_string s"
| "NumValue (KBytes s) = num_of_string s"
| "NumValue _ = Panic (PKeyError ''Unexpected key variable type'')"

section \<open>Hash, mod and numeric range shards\<close>

definition HashShard_FindForKey :: "int \<Rightarrow> key \<Rightarrow> int res" where
  "HashShard_FindForKey shardNum key =
     andThen (HashValue key) (\<lambda>h.
       if u64 shardNum = 0 then Panic PDivZero else Ok (i64 (h mod u64 shardNum)))"

definition ModShard_FindForKey :: "int \<Rightarrow> key \<Rightarrow> int res" where
  "ModShard_FindForKey shardNum key = andThen (NumValue key) (\<lambda>v. go_mod (Abs v) shardNum)"

fun range_index :: "int \<Rightarrow> NumKeyRange list \<Rightarrow> int \<Rightarrow> int option" where
  "range_index i [] v = None"
| "range_index i (r # rs) v = (if nkr_Contains r v then Some i else range_index (i + 1) rs v)"

definition NumRangeShard_FindForKey :: "NumKeyRange list \<Rightarrow> key \<Rightarrow> int res" where
  "NumRangeShard_FindForKey rs key =
     andThen (NumValue key) (\<lambda>v.
       case range_index 0 rs v of Some i \<Rightarrow> Ok i | None \<Rightarrow> Err ErrKeyOutOfRange)"

definition NumRangeShard_EqualStart :: "NumKeyRange list \<Rightarrow> key \<Rightarrow> int \<Rightarrow> bool res" where
  "NumRangeShard_EqualStart rs key index =
     andThen (NumValue key) (\<lambda>v. andThen (at rs index) (\<lambda>r. Ok (Start r = v)))"

section \<open>Date shards\<close>

definition date_key_err :: "int res" where
  "date_key_err = Err (ErrMsg ''invalid date format'')"

definition atoi_date :: "string \<Rightarrow> int res" where
  "atoi_date s = (case atoi s of Ok v \<Rightarrow> Ok v | _ \<Rightarrow> date_key_err)"

definition getNumYear :: "Env \<Rightarrow> key \<Rightarrow> int res" where
  "getNumYear env key =
     (case key of
        KInt n \<Rightarrow> Ok (fst (unixDate (zone env) n))
      | KUint64 n \<Rightarrow> Ok (fst (unixDate (zone env) (i64 n)))
      | KInt64 n \<Rightarrow> Ok (fst (unixDate (zone env) n))
      | KString s \<Rightarrow> andThen (slice_of s 0 4) atoi_date
      | _ \<Rightarrow> Err (ErrMsg ''Unexpected key variable type''))"

definition month_digits :: "string \<Rightarrow> string res" where
  "month_digits s = andThen (slice_of s 0 4) (\<lambda>y. andThen (slice_of s 5 7) (\<lambda>m. Ok (y @ m)))"

definition getNumYearMonth :: "Env \<Rightarrow> key \<Rightarrow> int res" where
  "getNumYearMonth env key =
     (let unix = (\<lambda>sec. andThen (month_digits (format_dashed (unixDate (zone env) sec))) atoi_date)
      in case key of
        KInt n \<Rightarrow> unix n
      | KUint64 n \<Rightarrow> unix (i64 n)
      | KInt64 n \<Rightarrow> unix n
      | KString s \<Rightarrow> if length s < 10 then date_key_err else andThen (month_digits s) atoi_date
      | _ \<Rightarrow> Err (ErrMsg ''Unexpected key variable type''))"

definition day_digits :: "string \<Rightarrow> string res" where
  "day_digits s = andThen (month_digits s) (\<lambda>ym. andThen (slice_of s 8 10) (\<lambda>d. Ok (ym @ d)))"

definition getNumYearMonthDay :: "Env \<Rightarrow> key \<Rightarrow> int res" where
  "getNumYearMonthDay env key =
     (let unix = (\<lambda>sec. andThen (day_digits (format_dashed (unixDate (zone env) sec))) atoi_date)
      in case key of
        KInt n \<Rightarrow> unix n
      | KUint64 n \<Rightarrow> unix (i64 n)
      | KInt64 n \<Rightarrow> unix n
      | KString s \<Rightarrow> if length s < 10 then date_key_err else andThen (day_digits s) atoi_date
      | _ \<Rightarrow> Err (ErrMsg ''Unexpected key variable type''))"

text \<open>The three \<^verbatim>\<open>EqualStart\<close> methods compare the key's own index; an error is false.\<close>

definition equal_start_of :: "int res \<Rightarrow> int \<Rightarrow> bool res" where
  "equal_start_of r index =
     (case r of Ok n \<Rightarrow> Ok (n = index) | Err _ \<Rightarrow> Ok False | Panic p \<Rightarrow> Panic p)"

section \<open>Mycat: mod and long\<close>

record MycatPartitionLongShard =
  pl_shardNum :: int
  pl_countStr :: string
  pl_lengthStr :: string
  pl_count :: "int list"
  pl_length :: "int list"
  pl_segment :: "int list"

definition NewMycatPartitionLongShard :: "int \<Rightarrow> string \<Rightarrow> string \<Rightarrow> MycatPartitionLongShard" where
  "NewMycatPartitionLongShard n countStr lengthStr =
     \<lparr>pl_shardNum = n, pl_countStr = countStr, pl_lengthStr = lengthStr,
      pl_count = [], pl_length = [], pl_segment = []\<rparr>"

fun atoi_list :: "string list \<Rightarrow> int list res" where
  "atoi_list [] = Ok []"
| "atoi_list (s # ss) = andThen (atoi s) (\<lambda>n. andThen (atoi_list ss) (\<lambda>ns. Ok (n # ns)))"

definition toIntArray :: "string \<Rightarrow> int list res" where
  "toIntArray str = atoi_list (split_on (CHR '','') (filter (\<lambda>c. c \<noteq> CHR '' '') str))"

definition set_at :: "'a list \<Rightarrow> int \<Rightarrow> 'a \<Rightarrow> 'a list res" where
  "set_at xs i v = (if 0 \<le> i \<and> i < int (length xs) then Ok (xs[nat i := v]) else Panic PIndex)"

definition make_ints :: "int \<Rightarrow> int list res" where
  "make_ints n =
     (if n < 0 then Panic (PMsg ''makeslice: len out of range'') else Ok (replicate (nat n) 0))"

fun ai_inner :: "nat \<Rightarrow> int \<Rightarrow> int \<Rightarrow> int list \<Rightarrow> (int list \<times> int) res" where
  "ai_inner 0 len index ai = Ok (ai, index)"
| "ai_inner (Suc n) len index ai =
     andThen (at ai index) (\<lambda>v.
     andThen (set_at ai (index + 1) (i64 (v + len))) (\<lambda>ai.
       ai_inner n len (index + 1) ai))"

fun ai_outer :: "(int \<times> int) list \<Rightarrow> int \<Rightarrow> int list \<Rightarrow> int list res" where
  "ai_outer [] index ai = Ok ai"
| "ai_outer ((c, len) # rest) index ai =
     andThen (ai_inner (nat c) len index ai) (\<lambda>(ai, index). ai_outer rest index ai)"

fun seg_inner :: "nat \<Rightarrow> int \<Rightarrow> int \<Rightarrow> int list \<Rightarrow> int list res" where
  "seg_inner 0 j v segment = Ok segment"
| "seg_inner (Suc n) j v segment =
     andThen (set_at segment j v) (\<lambda>segment. seg_inner n (j + 1) v segment)"

fun seg_outer :: "int \<Rightarrow> int list \<Rightarrow> int list \<Rightarrow> int list res" where
  "seg_outer i (a # b # rest) segment =
     andThen (seg_inner (nat (b - a)) a (i - 1) segment) (\<lambda>segment. seg_outer (i + 1) (b # rest) segment)"
| "seg_outer i _ segment = Ok segment"

definition LongShard_Init :: "MycatPartitionLongShard \<Rightarrow> MycatPartitionLongShard res" where
  "LongShard_Init m =
     andThen (toIntArray (pl_countStr m)) (\<lambda>countList.
     andThen (toIntArray (pl_lengthStr m)) (\<lambda>lengthList.
     if length countList \<noteq> length lengthList
     then Err (ErrMsg ''error, check your scope & scopeLength definition'')
     else let segmentLength = foldl (\<lambda>s c. i64 (s + c)) 0 countList in
     if segmentLength \<noteq> pl_shardNum m then Err (ErrMsg ''segmentLength is not equal to shardNum'')
     else andThen (make_ints (i64 (segmentLength + 1))) (\<lambda>ai.
     andThen (ai_outer (zip countList lengthList) 0 ai) (\<lambda>ai.
     andThen (at ai (int (length ai) - 1)) (\<lambda>lst.
     if lst \<noteq> 1024 then Err (ErrMsg ''error, check your partitionScope definition'')
     else andThen (seg_outer 1 ai (replicate 1024 0)) (\<lambda>segment.
       Ok (m\<lparr>pl_count := countList, pl_length := lengthList, pl_segment := segment\<rparr>)))))))"

definition LongShard_FindForKey :: "MycatPartitionLongShard \<Rightarrow> key \<Rightarrow> int res" where
  "LongShard_FindForKey m key = andThen (NumValue key) (\<lambda>h. at (pl_segment m) (h AND 1023))"

section \<open>Mycat: string\<close>

record MycatPartitionStringShard =
  ps_long :: MycatPartitionLongShard
  ps_hashSliceStr :: string
  ps_hashSliceStart :: int
  ps_hashSliceEnd :: int

definition NewMycatPartitionStringShard :: "int \<Rightarrow> string \<Rightarrow> string \<Rightarrow> string \<Rightarrow> MycatPartitionStringShard" where
  "NewMycatPartitionStringShard n countStr lengthStr hashSliceStr =
     \<lparr>ps_long = NewMycatPartitionLongShard n countStr lengthStr, ps_hashSliceStr = hashSliceStr,
      ps_hashSliceStart = 0, ps_hashSliceEnd = 0\<rparr>"

definition parseHashSliceValue :: "string \<Rightarrow> int res" where
  "parseHashSliceValue str = (if str = [] then Ok 0 else atoi str)"

definition parseHashSliceStartEnd :: "string \<Rightarrow> (int \<times> int) res" where
  "parseHashSliceStartEnd hashSliceStr =
     (case split_on (CHR '':'') (trimSpace hashSliceStr) of
        [s] \<Rightarrow> andThen (atoi s) (\<lambda>v. Ok (if v \<ge> 0 then (0, v) else (v, 0)))
      | [s, t] \<Rightarrow>
          (case parseHashSliceValue s of
             Ok start \<Rightarrow>
               (case parseHashSliceValue t of
                  Ok end \<Rightarrow> Ok (start, end)
                | _ \<Rightarrow> Err (ErrMsg ''parse hash slice end error''))
           | _ \<Rightarrow> Err (ErrMsg ''parse hash slice start error''))
      | _ \<Rightarrow> Err (ErrMsg ''invalid hash slice str''))"

definition StringShard_Init :: "MycatPartitionStringShard \<Rightarrow> MycatPartitionStringShard res" where
  "StringShard_Init m =
     andThen (LongShard_Init (ps_long m)) (\<lambda>long.
     andThen (parseHashSliceStartEnd (ps_hashSliceStr m)) (\<lambda>(start, end).
       Ok (m\<lparr>ps_long := long, ps_hashSliceStart := start, ps_hashSliceEnd := end\<rparr>)))"

definition stringHash :: "string \<Rightarrow> int \<Rightarrow> int \<Rightarrow> int" where
  "stringHash s start end =
     (let input = runes s;
          start = (if start < 0 then 0 else start);
          end = (if end > int (length input) then int (length input) else end)
      in foldl (\<lambda>h r. i64 (i64 (i64 (h * 32) - h) + r)) 0
           (take (nat (end - start)) (drop (nat start) input)))"

definition StringShard_FindForKey :: "MycatPartitionStringShard \<Rightarrow> key \<Rightarrow> int res" where
  "StringShard_FindForKey m key =
     andThen (GetString key) (\<lambda>keyStr.
       let start = (if ps_hashSliceStart m \<ge> 0 then ps_hashSliceStart m
                    else int (length keyStr) + ps_hashSliceStart m);
           end = (if ps_hashSliceEnd m > 0 then ps_hashSliceEnd m
                  else int (length keyStr) + ps_hashSliceEnd m);
           h = stringHash keyStr start end
       in at (pl_segment (ps_long m)) (h AND 1023))"

section \<open>Mycat: murmur\<close>

record MycatPartitionMurmurHashShard =
  pm_seed :: int
  pm_count :: int
  pm_virtualBucketTimes :: int
  pm_weightMap :: "(int \<times> int) list"
  pm_bucketMap :: "(int \<times> int) list"   \<comment> \<open>the \<^verbatim>\<open>Put\<close> calls on the tree map, in order\<close>

definition NewMycatPartitionMurmurHashShard :: "string \<Rightarrow> string \<Rightarrow> int \<Rightarrow> MycatPartitionMurmurHashShard res" where
  "NewMycatPartitionMurmurHashShard seedStr vbtStr count =
     andThen (atoi seedStr) (\<lambda>seed.
     andThen (atoi (if vbtStr = [] then ''160'' else vbtStr)) (\<lambda>vbt.
       Ok \<lparr>pm_seed = seed, pm_count = count, pm_virtualBucketTimes = vbt,
           pm_weightMap = [], pm_bucketMap = []\<rparr>))"

definition getWeight :: "MycatPartitionMurmurHashShard \<Rightarrow> int \<Rightarrow> int" where
  "getWeight m bucket = (case map_of (pm_weightMap m) bucket of None \<Rightarrow> 1 | Some w \<Rightarrow> w)"

fun bucket_nodes :: "int \<Rightarrow> int \<Rightarrow> string \<Rightarrow> int \<Rightarrow> nat \<Rightarrow> (int \<times> int) list" where
  "bucket_nodes seed i buf n 0 = []"
| "bucket_nodes seed i buf n (Suc k) =
     (let buf = buf @ ''-NODE-'' @ itoa n
      in (HashUnencodedChars seed buf, i) # bucket_nodes seed i buf (n + 1) k)"

definition generateBucketMap :: "MycatPartitionMurmurHashShard \<Rightarrow> MycatPartitionMurmurHashShard" where
  "generateBucketMap m =
     m\<lparr>pm_bucketMap := pm_bucketMap m @
         concat (map (\<lambda>i. bucket_nodes (pm_seed m) i (''SHARD-'' @ itoa i) 0
                            (nat (i64 (pm_virtualBucketTimes m * getWeight m i))))
                     [0..pm_count m - 1])\<rparr>"

text \<open>\<^verbatim>\<open>Init\<close> makes a fresh tree map, fills it, and then makes the weight map empty.\<close>

definition MurmurShard_Init :: "MycatPartitionMurmurHashShard \<Rightarrow> MycatPartitionMurmurHashShard" where
  "MurmurShard_Init m = (generateBucketMap (m\<lparr>pm_bucketMap := []\<rparr>))\<lparr>pm_weightMap := []\<rparr>"

definition MurmurShard_FindForKey :: "Env \<Rightarrow> MycatPartitionMurmurHashShard \<Rightarrow> key \<Rightarrow> int res" where
  "MurmurShard_FindForKey env m key =
     andThen (GetString key) (\<lambda>keyStr.
       case tm_Ceiling env (pm_bucketMap m) (HashUnencodedChars (pm_seed m) keyStr) of
         Some (_, ret) \<Rightarrow> Ok ret
       | None \<Rightarrow>
           (case tm_Min env (pm_bucketMap m) of
              None \<Rightarrow> Err (ErrMsg ''bucket map is empty'')
            | Some (_, v) \<Rightarrow> Ok v))"

section \<open>Mycat: padding mod\<close>

record MycatPartitionPaddingModShard =
  pp_padFrom :: int
  pp_padLength :: int
  pp_modBegin :: int
  pp_modEnd :: int
  pp_mod :: int

definition newDefaultMycatPartitionPaddingModShard :: MycatPartitionPaddingModShard where
  "newDefaultMycatPartitionPaddingModShard =
     \<lparr>pp_padFrom = 1, pp_padLength = 18, pp_modBegin = 10, pp_modEnd = 16, pp_mod = 2\<rparr>"

definition GetMycatPartitionPaddingModShard ::
  "string \<Rightarrow> string \<Rightarrow> string \<Rightarrow> string \<Rightarrow> int \<Rightarrow> MycatPartitionPaddingModShard res" where
  "GetMycatPartitionPaddingModShard padFromStr padLengthStr modBeginStr modEndStr md =
     andThen (atoi padFromStr) (\<lambda>padFrom.
     andThen (atoi padLengthStr) (\<lambda>padLength.
     andThen (atoi modBeginStr) (\<lambda>modBegin.
     andThen (atoi modEndStr) (\<lambda>modEnd.
       Ok \<lparr>pp_padFrom = padFrom, pp_padLength = padLength, pp_modBegin = modBegin,
           pp_modEnd = modEnd, pp_mod = md\<rparr>))))"

definition PaddingMod_checkParam :: "MycatPartitionPaddingModShard \<Rightarrow> unit res" where
  "PaddingMod_checkParam m =
     (if pp_padFrom m \<noteq> 0 \<and> pp_padFrom m \<noteq> 1 then Err (ErrMsg ''invalid padding mod mode'')
      else if pp_mod m < 2 then Err (ErrMsg ''invalid padding mod number'')
      else if pp_modBegin m < 0 \<or> pp_modBegin m \<ge> pp_modEnd m
        then Err (ErrMsg ''invalid padding modBegin or modEnd'')
      else if pp_padLength m \<le> 0 then Err (ErrMsg ''invalid padding mod padLength'')
      else if pp_padLength m < i64 (pp_modEnd m - pp_modBegin m)
        then Err (ErrMsg ''invalid padding mod, padLength is less than modBegin - modEnd'')
      else Ok ())"

definition PaddingMod_FindForKey :: "MycatPartitionPaddingModShard \<Rightarrow> key \<Rightarrow> int res" where
  "PaddingMod_FindForKey m key =
     andThen (NumValue key) (\<lambda>h.
       let keyStr = itoa h
       in andThen
            (if int (length keyStr) > pp_padLength m then slice_of keyStr 0 (pp_padLength m)
             else if pp_padFrom m = 0 then
               (if h < 0 then Err (ErrMsg ''padding left to a negative is not allowed'')
                else Ok (Left keyStr (pp_padLength m) ''0''))
             else Ok (Right keyStr (pp_padLength m) ''0''))
          (\<lambda>paddingKey.
          andThen (slice_of paddingKey (pp_modBegin m) (pp_modEnd m)) (\<lambda>modSegment.
          andThen (val_or_err (parseInt10 modSegment)) (\<lambda>bigNum.
            go_mod (Abs bigNum) (pp_mod m)))))"

section \<open>The interfaces Shard and RangeShard\<close>

datatype Shard =
    HashShard int
  | ModShard int
  | NumRangeShard "NumKeyRange list"
  | DateYearShard
  | DateMonthShard
  | DateDayShard
  | DefaultShard
  | GlobalTableShard
  | MycatModShard int
  | MycatLongShard MycatPartitionLongShard
  | MycatStringShard MycatPartitionStringShard
  | MycatMurmurShard MycatPartitionMurmurHashShard
  | MycatPaddingModShard MycatPartitionPaddingModShard

fun FindForKey :: "Env \<Rightarrow> Shard \<Rightarrow> key \<Rightarrow> int res" where
  "FindForKey env (HashShard n) key = HashShard_FindForKey n key"
| "FindForKey env (ModShard n) key = ModShard_FindForKey n key"
| "FindForKey env (NumRangeShard rs) key = NumRangeShard_FindForKey rs key"
| "FindForKey env DateYearShard key = getNumYear env key"
| "FindForKey env DateMonthShard key = getNumYearMonth env key"
| "FindForKey env DateDayShard key = getNumYearMonthDay env key"
| "FindForKey env DefaultShard key = Ok 0"
| "FindForKey env GlobalTableShard key = Panic (PMsg ''global table cannot find key'')"
| "FindForKey env (MycatModShard n) key = ModShard_FindForKey n key"
| "FindForKey env (MycatLongShard m) key = LongShard_FindForKey m key"
| "FindForKey env (MycatStringShard m) key = StringShard_FindForKey m key"
| "FindForKey env (MycatMurmurShard m) key = MurmurShard_FindForKey env m key"
| "FindForKey env (MycatPaddingModShard m) key = PaddingMod_FindForKey m key"

fun IsRangeShard :: "Shard \<Rightarrow> bool" where
  "IsRangeShard (NumRangeShard rs) = True"
| "IsRangeShard DateYearShard = True"
| "IsRangeShard DateMonthShard = True"
| "IsRangeShard DateDayShard = True"
| "IsRangeShard _ = False"

text \<open>Calling \<^verbatim>\<open>EqualStart\<close> through a failed type assertion to \<^verbatim>\<open>RangeShard\<close> panics.\<close>

fun EqualStart :: "Env \<Rightarrow> Shard \<Rightarrow> key \<Rightarrow> int \<Rightarrow> bool res" where
  "EqualStart env (NumRangeShard rs) key index = NumRangeShard_EqualStart rs key index"
| "EqualStart env DateYearShard key index = equal_start_of (getNumYear env key) index"
| "EqualStart env DateMonthShard key index = equal_start_of (getNumYearMonth env key) index"
| "EqualStart env DateDayShard key index = equal_start_of (getNumYearMonthDay env key) index"
| "EqualStart env _ key index = Panic PNil"

end
