(* ===== verification/Models.thy ===== *)
theory Models
  imports Shards "HOL-Library.AList"
begin

text \<open>
  The configuration models of \<^verbatim>\<open>src/models\<close> and their verification: shard rules
  (\<^verbatim>\<open>shard.go\<close>, \<^verbatim>\<open>shard_rule.go\<close>, \<^verbatim>\<open>numkey.go\<close>), slices (\<^verbatim>\<open>slice.go\<close>), users (\<^verbatim>\<open>user.go\<close>)
  and namespaces (\<^verbatim>\<open>namespace.go\<close>). The package repeats much of the parsing code of
  \<^verbatim>\<open>src/proxy/router\<close>; its copies are modelled on their own here, with the prefix \<open>m_\<close> where the
  names clash, and related to the router's in the theory \<open>Verify_Router\<close>.

  A Go \<^verbatim>\<open>map[int]int\<close> that is only read by key and by length is an association list without
  repeated keys.
\<close>

section \<open>Shard configurations\<close>

record ShardCfg =
  cfg_DB :: string
  cfg_Table :: string
  cfg_ParentTable :: string
  cfg_Type :: string
  cfg_Key :: string
  cfg_Locations :: "int list"
  cfg_Slices :: "string list"
  cfg_DateRange :: "string list"
  cfg_TableRowLimit :: int
  cfg_Databases :: "string list"
  cfg_PartitionCount :: string
  cfg_PartitionLength :: string
  cfg_HashSlice :: string
  cfg_Seed :: string
  cfg_VirtualBucketTimes :: string
  cfg_PadFrom :: string
  cfg_PadLength :: string
  cfg_ModBegin :: string
  cfg_ModEnd :: string

definition ShardDefault :: string where "ShardDefault = ''default''"
definition ShardGlobal :: string where "ShardGlobal = ''global''"
definition ShardLinked :: string where "ShardLinked = ''linked''"
definition ShardMod :: string where "ShardMod = ''mod''"
definition ShardHash :: string where "ShardHash = ''hash''"
definition ShardRange :: string where "ShardRange = ''range''"
definition ShardYear :: string where "ShardYear = ''date_year''"
definition ShardMonth :: string where "ShardMonth = ''date_month''"
definition ShardDay :: string where "ShardDay = ''date_day''"
definition ShardMycatMod :: string where "ShardMycatMod = ''mycat_mod''"
definition ShardMycatLong :: string where "ShardMycatLong = ''mycat_long''"
definition ShardMycatString :: string where "ShardMycatString = ''mycat_string''"
definition ShardMycatMURMUR :: string where "ShardMycatMURMUR = ''mycat_murmur''"
definition ShardMycatPaddingMod :: string where "ShardMycatPaddingMod = ''mycat_padding_mod''"

lemmas shard_types =
  ShardDefault_def ShardGlobal_def ShardLinked_def ShardMod_def ShardHash_def ShardRange_def
  ShardYear_def ShardMonth_def ShardDay_def ShardMycatMod_def ShardMycatLong_def
  ShardMycatString_def ShardMycatMURMUR_def ShardMycatPaddingMod_def

definition m_IsMycatShardingRule :: "string \<Rightarrow> bool" where
  "m_IsMycatShardingRule t \<longleftrightarrow>
     t = ShardMod \<or> t = ShardMycatLong \<or> t = ShardMycatMURMUR \<or> t = ShardMycatPaddingMod \<or> t = ShardMycatString"

section \<open>Database lists\<close>

text \<open>
  The submatches of \<^verbatim>\<open>^(\S+?)\[(\d+)-(\d+)\]$\<close>, read from the end: the bounds are digits, so the
  opening bracket is the last one and the match is unique.
\<close>

definition regex_space :: "char \<Rightarrow> bool" where
  "regex_space c \<longleftrightarrow> of_char c \<in> {9, 10, 12, 13, 32 :: int}"

definition rangeDatabaseRegex :: "string \<Rightarrow> (string \<times> string \<times> string) option" where
  "rangeDatabaseRegex db =
     (case rev db of
        [] \<Rightarrow> None
      | c # t \<Rightarrow>
          let r = takeWhile is_digit t in
          case dropWhile is_digit t of
            [] \<Rightarrow> None
          | c2 # t2 \<Rightarrow>
              let l = takeWhile is_digit t2 in
              case dropWhile is_digit t2 of
                [] \<Rightarrow> None
              | c3 # p \<Rightarrow>
                  if c = CHR '']'' \<and> c2 = CHR ''-'' \<and> c3 = CHR ''['' \<and> r \<noteq> [] \<and> l \<noteq> [] \<and> p \<noteq> [] \<and>
                     (\<forall>x \<in> set p. \<not> regex_space x)
                  then Some (rev p, rev l, rev r) else None)"

text \<open>A right bound of \<^verbatim>\<open>MaxInt64\<close> makes the loop over the names endless.\<close>

definition m_realDatabase :: "string \<Rightarrow> string list res" where
  "m_realDatabase db =
     (case rangeDatabaseRegex db of
        None \<Rightarrow> Ok [db]
      | Some (dbPrefix, l, r) \<Rightarrow>
          (case atoi l of
             Ok leftBound \<Rightarrow>
               (case atoi r of
                  Ok rightBound \<Rightarrow>
                    if rightBound \<le> leftBound then Err (ErrMsg ''invalid bound value of database list'')
                    else if rightBound = MaxInt64 then Panic (PMsg ''out of memory'')
                    else Ok (map (\<lambda>i. dbPrefix @ itoa i) [leftBound..rightBound])
                | _ \<Rightarrow> Err (ErrMsg ''invalid right bound value of database list''))
           | _ \<Rightarrow> Err (ErrMsg ''invalid left bound value of database list'')))"

fun m_getRealDatabases :: "string list \<Rightarrow> string list res" where
  "m_getRealDatabases [] = Ok []"
| "m_getRealDatabases (db # dbs) =
     andThen (m_realDatabase db) (\<lambda>names.
     andThen (m_getRealDatabases dbs) (\<lambda>rest. Ok (names @ rest)))"

section \<open>Ranges (models/numkey.go)\<close>

definition m_ParseNumSharding :: "int list \<Rightarrow> int \<Rightarrow> NumKeyRange list res" where
  "m_ParseNumSharding locs limit =
     (let tableCount = foldl (\<lambda>acc l. i64 (acc + l)) 0 locs
      in if tableCount < 0 then Panic (PMsg ''makeslice: len out of range'')
         else Ok (map (\<lambda>i. \<lparr>Start = i64 (i * limit), End = i64 ((i + 1) * limit)\<rparr>) [0..tableCount - 1]))"

definition illegal_if_err :: "'a res \<Rightarrow> unit res" where
  "illegal_if_err r = (case r of Ok _ \<Rightarrow> Ok () | _ \<Rightarrow> Err ErrDateRangeIllegal)"

definition m_ParseDayRange :: "string \<Rightarrow> int list res" where
  "m_ParseDayRange dateRange =
     (case splitN2 (CHR ''-'') dateRange of
        [s] \<Rightarrow>
          if length s \<noteq> 8 then Err ErrDateRangeIllegal
          else andThen (illegal_if_err (timeParse_ymd s)) (\<lambda>_.
               andThen (atoi s) (\<lambda>dateNum. Ok [dateNum]))
      | [s0, s1] \<Rightarrow>
          if length s0 \<noteq> 8 \<or> length s1 \<noteq> 8 then Err ErrDateRangeIllegal
          else let (lo, hi) = (if s1 < s0 then (s1, s0) else (s0, s1))
               in andThen (timeParse_ymd lo) (\<lambda>begin.
                  andThen (timeParse_ymd hi) (\<lambda>end.
                    day_loop begin (nat (days_sub end begin + 1))))
      | _ \<Rightarrow> Err ErrDateRangeIllegal)"

definition m_ParseMonthRange :: "string \<Rightarrow> int list res" where
  "m_ParseMonthRange dateRange =
     (case splitN2 (CHR ''-'') dateRange of
        [s] \<Rightarrow>
          if length s \<noteq> 6 then Err ErrDateRangeIllegal
          else andThen (illegal_if_err (timeParse_ym s)) (\<lambda>_.
               andThen (atoi s) (\<lambda>dateNum. Ok [dateNum]))
      | [s0, s1] \<Rightarrow>
          if length s0 \<noteq> 6 \<or> length s1 \<noteq> 6 then Err ErrDateRangeIllegal
          else let (lo, hi) = (if s1 < s0 then (s1, s0) else (s0, s1))
               in andThen (illegal_if_err (timeParse_ym lo)) (\<lambda>_.
                  andThen (atoi (take 4 lo)) (\<lambda>beginYear.
                  andThen (atoi (drop 4 lo)) (\<lambda>beginMonth.
                  andThen (illegal_if_err (timeParse_ym hi)) (\<lambda>_.
                  andThen (atoi (take 4 hi)) (\<lambda>endYear.
                  andThen (atoi (drop 4 hi)) (\<lambda>endMonth.
                    Ok (month_loop beginYear beginMonth
                          (nat ((endYear - beginYear) * 12 + endMonth - beginMonth + 1)))))))))
      | _ \<Rightarrow> Err ErrDateRangeIllegal)"

definition m_ParseYearRange :: "string \<Rightarrow> int list res" where
  "m_ParseYearRange dateRange =
     (case splitN2 (CHR ''-'') dateRange of
        [s] \<Rightarrow>
          if length s \<noteq> 4 then Err ErrDateRangeIllegal
          else andThen (illegal_if_err (timeParse_y s)) (\<lambda>_.
               andThen (atoi s) (\<lambda>dateNum. Ok [dateNum]))
      | [s0, s1] \<Rightarrow>
          let (lo, hi) = (if s1 < s0 then (s1, s0) else (s0, s1))
          in andThen (illegal_if_err (timeParse_y lo)) (\<lambda>_.
             andThen (atoi lo) (\<lambda>beginYear.
             andThen (illegal_if_err (timeParse_y hi)) (\<lambda>_.
             andThen (atoi hi) (\<lambda>endYear. Ok [beginYear..endYear]))))
      | _ \<Rightarrow> Err ErrDateRangeIllegal)"

section \<open>Rule verification (models/shard_rule.go)\<close>

text \<open>One slice's tables, and all of them: the loops of \<^verbatim>\<open>verifyHashRuleSliceInfos\<close>.\<close>

definition slice_tables :: "int \<Rightarrow> int \<Rightarrow> int \<Rightarrow> (int \<times> int) list \<Rightarrow> (int \<times> int) list" where
  "slice_tables i sumTables loc m = foldl (\<lambda>m j. AList.update (i64 (j + sumTables)) i m) m [0..loc - 1]"

fun m_hash_loop :: "int \<Rightarrow> int \<Rightarrow> int list \<Rightarrow> (int \<times> int) list \<Rightarrow> (int \<times> int) list" where
  "m_hash_loop i sumTables [] m = m"
| "m_hash_loop i sumTables (loc # locs) m =
     m_hash_loop (i + 1) (i64 (sumTables + loc)) locs (slice_tables i sumTables loc m)"

definition verifyHashRuleSliceInfos :: "int list \<Rightarrow> string list \<Rightarrow> (int \<times> int) list res" where
  "verifyHashRuleSliceInfos locations slices =
     (if length locations \<noteq> length slices then Err ErrLocationsCount else Ok (m_hash_loop 0 0 locations []))"

definition verifyMycatHashRuleSliceInfos ::
  "int list \<Rightarrow> string list \<Rightarrow> string list \<Rightarrow> (int \<times> int) list res" where
  "verifyMycatHashRuleSliceInfos locations slices databases =
     andThen (verifyHashRuleSliceInfos locations slices) (\<lambda>tableToSlice.
     andThen (m_getRealDatabases databases) (\<lambda>realDatabaseList.
       if length tableToSlice \<noteq> length realDatabaseList then Err ErrLocationsCount else Ok tableToSlice))"

text \<open>
  The loop that the three date verifiers share, with the range parser as its argument: an empty
  range after a non-empty one makes \<^verbatim>\<open>numbers[0]\<close> panic.
\<close>

fun m_date_loop :: "(string \<Rightarrow> int list res) \<Rightarrow> string list \<Rightarrow> int list \<Rightarrow> unit res" where
  "m_date_loop parse [] sub = Ok ()"
| "m_date_loop parse (r # rs) sub =
     andThen (parse r) (\<lambda>numbers.
     andThen (if sub = [] then Ok False else andThen (at numbers 0) (\<lambda>n. Ok (n \<le> last sub))) (\<lambda>overlap.
       if overlap then Err ErrDateRangeOverlap else m_date_loop parse rs (sub @ numbers)))"

definition verifyDateDayRuleSliceInfos :: "string list \<Rightarrow> string list \<Rightarrow> unit res" where
  "verifyDateDayRuleSliceInfos dateRange slices =
     (if length dateRange \<noteq> length slices then Err ErrDateRangeCount
      else m_date_loop m_ParseDayRange dateRange [])"

definition verifyDateMonthRuleSliceInfos :: "string list \<Rightarrow> string list \<Rightarrow> unit res" where
  "verifyDateMonthRuleSliceInfos dateRange slices =
     (if length dateRange \<noteq> length slices then Err ErrDateRangeCount
      else m_date_loop m_ParseMonthRange dateRange [])"

definition verifyDateYearRuleSliceInfos :: "string list \<Rightarrow> string list \<Rightarrow> unit res" where
  "verifyDateYearRuleSliceInfos dateRange slices =
     (if length dateRange \<noteq> length slices then Err ErrDateRangeCount
      else m_date_loop m_ParseYearRange dateRange [])"

definition verifyGlobalTableRuleSliceInfos :: "int list \<Rightarrow> string list \<Rightarrow> string list \<Rightarrow> unit res" where
  "verifyGlobalTableRuleSliceInfos locations slices databases =
     andThen (verifyHashRuleSliceInfos locations slices) (\<lambda>tableToSlice.
       if databases = [] then Ok ()
       else andThen (m_getRealDatabases databases) (\<lambda>realDatabaseList.
         if length tableToSlice \<noteq> length realDatabaseList then Err ErrLocationsCount else Ok ()))"

definition m_toIntArray :: "string \<Rightarrow> int list res" where
  "m_toIntArray str = atoi_list (split_on (CHR '','') (filter (\<lambda>c. c \<noteq> CHR '' '') str))"

definition verifyMycatPatitionLongShard :: "int \<Rightarrow> string \<Rightarrow> string \<Rightarrow> unit res" where
  "verifyMycatPatitionLongShard shardNum partitionCount partitionLength =
     andThen (m_toIntArray partitionCount) (\<lambda>countList.
     andThen (m_toIntArray partitionLength) (\<lambda>lengthList.
     if length countList \<noteq> length lengthList
     then Err (ErrMsg ''error, check your scope & scopeLength definition'')
     else let segmentLength = foldl (\<lambda>s c. i64 (s + c)) 0 countList in
     if segmentLength \<noteq> shardNum then Err (ErrMsg ''segmentLength is not equal to shardNum'')
     else andThen (make_ints (i64 (segmentLength + 1))) (\<lambda>ai.
     andThen (ai_outer (zip countList lengthList) 0 ai) (\<lambda>ai.
     andThen (at ai (int (length ai) - 1)) (\<lambda>lst.
     if lst \<noteq> 1024 then Err (ErrMsg ''error, check your partitionScope definition'') else Ok ())))))"

definition verifyHashSliceValue :: "string \<Rightarrow> unit res" where
  "verifyHashSliceValue str = (if str = [] then Ok () else andThen (atoi str) (\<lambda>_. Ok ()))"

definition verifyHashSliceStartEnd :: "string \<Rightarrow> unit res" where
  "verifyHashSliceStartEnd hashSliceStr =
     (case split_on (CHR '':'') (trimSpace hashSliceStr) of
        [s] \<Rightarrow> andThen (atoi s) (\<lambda>_. Ok ())
      | [s, t] \<Rightarrow>
          (case verifyHashSliceValue s of
             Ok _ \<Rightarrow>
               (case verifyHashSliceValue t of
                  Ok _ \<Rightarrow> Ok ()
                | _ \<Rightarrow> Err (ErrMsg ''parse hash slice end error''))
           | _ \<Rightarrow> Err (ErrMsg ''parse hash slice start error''))
      | _ \<Rightarrow> Err (ErrMsg ''invalid hash slice str''))"

definition verifyMycatPartitionStringShard :: "int \<Rightarrow> string \<Rightarrow> string \<Rightarrow> string \<Rightarrow> unit res" where
  "verifyMycatPartitionStringShard shardNum partitionCount partitionLength hashSliceStr =
     andThen (verifyMycatPatitionLongShard shardNum partitionCount partitionLength) (\<lambda>_.
       verifyHashSliceStartEnd hashSliceStr)"

definition verifyMycatPartitionMurmurHashShard :: "string \<Rightarrow> string \<Rightarrow> int \<Rightarrow> unit res" where
  "verifyMycatPartitionMurmurHashShard seedStr vbtStr count =
     andThen (atoi seedStr) (\<lambda>_.
     andThen (atoi (if vbtStr = [] then ''160'' else vbtStr)) (\<lambda>_. Ok ()))"

definition verifyMycatPartitionPaddingModShard ::
  "string \<Rightarrow> string \<Rightarrow> string \<Rightarrow> string \<Rightarrow> int \<Rightarrow> unit res" where
  "verifyMycatPartitionPaddingModShard padFromStr padLengthStr modBeginStr modEndStr md =
     andThen (atoi padFromStr) (\<lambda>padFrom.
     andThen (atoi padLengthStr) (\<lambda>padLength.
     andThen (atoi modBeginStr) (\<lambda>modBegin.
     andThen (atoi modEndStr) (\<lambda>modEnd.
       if padFrom \<noteq> 0 \<and> padFrom \<noteq> 1 then Err (ErrMsg ''invalid padding mod mode'')
       else if md < 2 then Err (ErrMsg ''invalid padding mod number'')
       else if modBegin < 0 \<or> modBegin \<ge> modEnd then Err (ErrMsg ''invalid padding modBegin or modEnd'')
       else if padLength \<le> 0 then Err (ErrMsg ''invalid padding mod padLength'')
       else if padLength < i64 (modEnd - modBegin)
         then Err (ErrMsg ''invalid padding mod, padLength is less than modBegin - modEnd'')
       else Ok ()))))"

definition verifyHashRule :: "ShardCfg \<Rightarrow> unit res" where
  "verifyHashRule s = andThen (verifyHashRuleSliceInfos (cfg_Locations s) (cfg_Slices s)) (\<lambda>_. Ok ())"

definition verifyModRule :: "ShardCfg \<Rightarrow> unit res" where
  "verifyModRule s = andThen (verifyHashRuleSliceInfos (cfg_Locations s) (cfg_Slices s)) (\<lambda>_. Ok ())"

definition verifyRangeRule :: "ShardCfg \<Rightarrow> unit res" where
  "verifyRangeRule s =
     andThen (verifyHashRuleSliceInfos (cfg_Locations s) (cfg_Slices s)) (\<lambda>tableToSlice.
     andThen (m_ParseNumSharding (cfg_Locations s) (cfg_TableRowLimit s)) (\<lambda>tableCount.
       if length tableCount \<noteq> length tableToSlice then Err (ErrMsg ''range space not equal tables'') else Ok ()))"

definition verifyDayRule :: "ShardCfg \<Rightarrow> unit res" where
  "verifyDayRule s = verifyDateDayRuleSliceInfos (cfg_DateRange s) (cfg_Slices s)"

definition verifyMonthRule :: "ShardCfg \<Rightarrow> unit res" where
  "verifyMonthRule s = verifyDateMonthRuleSliceInfos (cfg_DateRange s) (cfg_Slices s)"

definition verifyYearRule :: "ShardCfg \<Rightarrow> unit res" where
  "verifyYearRule s = verifyDateYearRuleSliceInfos (cfg_DateRange s) (cfg_Slices s)"

definition verifyMycatModRule :: "ShardCfg \<Rightarrow> unit res" where
  "verifyMycatModRule s =
     andThen (verifyMycatHashRuleSliceInfos (cfg_Locations s) (cfg_Slices s) (cfg_Databases s)) (\<lambda>_. Ok ())"

definition verifyMycatLongRule :: "ShardCfg \<Rightarrow> unit res" where
  "verifyMycatLongRule s =
     andThen (verifyMycatHashRuleSliceInfos (cfg_Locations s) (cfg_Slices s) (cfg_Databases s)) (\<lambda>tableToSlice.
       verifyMycatPatitionLongShard (int (length tableToSlice)) (cfg_PartitionCount s) (cfg_PartitionLength s))"

definition verifyMycatStringRule :: "ShardCfg \<Rightarrow> unit res" where
  "verifyMycatStringRule s =
     andThen (verifyMycatHashRuleSliceInfos (cfg_Locations s) (cfg_Slices s) (cfg_Databases s)) (\<lambda>tableToSlice.
       verifyMycatPartitionStringShard (int (length tableToSlice)) (cfg_PartitionCount s)
         (cfg_PartitionLength s) (cfg_HashSlice s))"

definition verifyMycatMURMURRule :: "ShardCfg \<Rightarrow> unit res" where
  "verifyMycatMURMURRule s =
     andThen (verifyMycatHashRuleSliceInfos (cfg_Locations s) (cfg_Slices s) (cfg_Databases s)) (\<lambda>tableToSlice.
       verifyMycatPartitionMurmurHashShard (cfg_Seed s) (cfg_VirtualBucketTimes s) (int (length tableToSlice)))"

definition verifyMycatPaddingRule :: "ShardCfg \<Rightarrow> unit res" where
  "verifyMycatPaddingRule s =
     andThen (verifyMycatHashRuleSliceInfos (cfg_Locations s) (cfg_Slices s) (cfg_Databases s)) (\<lambda>tableToSlice.
       verifyMycatPartitionPaddingModShard (cfg_PadFrom s) (cfg_PadLength s) (cfg_ModBegin s) (cfg_ModEnd s)
         (int (length tableToSlice)))"

definition verifyGlobalRule :: "ShardCfg \<Rightarrow> unit res" where
  "verifyGlobalRule s = verifyGlobalTableRuleSliceInfos (cfg_Locations s) (cfg_Slices s) (cfg_Databases s)"

definition ruleVerifyFuncMapping :: "string \<rightharpoonup> (ShardCfg \<Rightarrow> unit res)" where
  "ruleVerifyFuncMapping =
     [ShardHash \<mapsto> verifyHashRule,
      ShardMod \<mapsto> verifyModRule,
      ShardRange \<mapsto> verifyRangeRule,
      ShardDay \<mapsto> verifyDayRule,
      ShardMonth \<mapsto> verifyMonthRule,
      ShardYear \<mapsto> verifyYearRule,
      ShardMycatMod \<mapsto> verifyMycatModRule,
      ShardMycatLong \<mapsto> verifyMycatLongRule,
      ShardMycatString \<mapsto> verifyMycatStringRule,
      ShardMycatMURMUR \<mapsto> verifyMycatMURMURRule,
      ShardMycatPaddingMod \<mapsto> verifyMycatPaddingRule,
      ShardGlobal \<mapsto> verifyGlobalRule]"

definition Shard_verify :: "ShardCfg \<Rightarrow> unit res" where
  "Shard_verify s =
     (case ruleVerifyFuncMapping (cfg_Type s) of None \<Rightarrow> Err ErrUnknownRuleType | Some f \<Rightarrow> f s)"

section \<open>Slices and users\<close>

record SliceCfg =
  sl_Name :: string
  sl_UserName :: string
  sl_Password :: string
  sl_Master :: string
  sl_Slaves :: "string list"
  sl_StatisticSlaves :: "string list"
  sl_SlaveDCMaster :: string
  sl_SlaveDCSlaves :: "string list"
  sl_Capacity :: int
  sl_MaxCapacity :: int
  sl_IdleTimeout :: int

definition Slice_verify :: "SliceCfg \<Rightarrow> unit res" where
  "Slice_verify s =
     (if sl_Name s = [] then Err (ErrMsg ''must specify slice name'')
      else if sl_UserName s = [] then Err (ErrMsg ''missing user'')
      else if sl_Master s = [] \<and> sl_Slaves s = [] then Err (ErrMsg ''both master and slaves empty'')
      else if [] \<in> set (sl_Slaves s) then Err (ErrMsg ''illegal slave addr'')
      else if [] \<in> set (sl_SlaveDCSlaves s) then Err (ErrMsg ''illegal slave dc slave addr'')
      else if sl_Capacity s \<le> 0 then Err (ErrMsg ''connection pool capacity should be > 0'')
      else if sl_MaxCapacity s \<le> 0 then Err (ErrMsg ''max connection pool capactiy should be > 0'')
      else Ok ())"

record UserCfg =
  us_UserName :: string
  us_Password :: string
  us_Namespace :: string
  us_RWFlag :: int
  us_RWSplit :: int
  us_OtherProperty :: int

text \<open>\<^verbatim>\<open>verify\<close> trims the fields of the user in place: it returns the user it leaves.\<close>

definition User_verify :: "UserCfg \<Rightarrow> UserCfg res" where
  "User_verify p =
     (if us_UserName p = [] then Err (ErrMsg ''missing user name'')
      else let p = p\<lparr>us_UserName := trimSpace (us_UserName p)\<rparr> in
      if us_Namespace p = [] then Err (ErrMsg ''missing namespace name'')
      else let p = p\<lparr>us_Namespace := trimSpace (us_Namespace p)\<rparr> in
      if us_Password p = [] then Err (ErrMsg ''missing password'')
      else let p = p\<lparr>us_Password := trimSpace (us_Password p)\<rparr> in
      if us_RWFlag p \<noteq> 1 \<and> us_RWFlag p \<noteq> 2 then Err (ErrMsg ''invalid RWFlag'')
      else if us_RWSplit p \<noteq> 0 \<and> us_RWSplit p \<noteq> 1 then Err (ErrMsg ''invalid RWSplit'')
      else if us_OtherProperty p \<noteq> 1 \<and> us_OtherProperty p \<noteq> 0 then Err (ErrMsg ''invalid other property'')
      else Ok p)"

section \<open>Namespaces\<close>

record Namespace =
  ns_Name :: string
  ns_AllowedDBS :: "(string \<times> bool) list"
  ns_DefaultPhyDBS :: "(string \<times> string) list"
  ns_SlowSQLTime :: string
  ns_Slices :: "SliceCfg list"
  ns_ShardRules :: "ShardCfg list"
  ns_Users :: "UserCfg list"
  ns_DefaultSlice :: string

definition verifyName :: "Namespace \<Rightarrow> unit res" where
  "verifyName n = (if ns_Name n = [] then Err (ErrMsg ''must specify namespace name'') else Ok ())"

definition verifyAllowDBS :: "Namespace \<Rightarrow> unit res" where
  "verifyAllowDBS n = (if ns_AllowedDBS n = [] then Err (ErrMsg ''must specify usable dbs'') else Ok ())"

fun users_loop :: "string \<Rightarrow> UserCfg list \<Rightarrow> UserCfg list \<Rightarrow> UserCfg list res" where
  "users_loop nsName seen [] = Ok seen"
| "users_loop nsName seen (u # us) =
     (let u = (if us_Namespace u = [] then u\<lparr>us_Namespace := nsName\<rparr> else u)
      in if us_Namespace u \<noteq> nsName then Err (ErrMsg ''user's namespace name mismatch'')
         else case User_verify u of
           Ok u \<Rightarrow>
             if us_UserName u \<in> us_UserName ` set seen then Err (ErrMsg ''user duped'')
             else users_loop nsName (seen @ [u]) us
         | Err _ \<Rightarrow> Err (ErrMsg ''user config error'')
         | Panic p \<Rightarrow> Panic p)"

definition verifyUsers :: "Namespace \<Rightarrow> Namespace res" where
  "verifyUsers n =
     (if ns_Users n = [] then Err (ErrMsg ''must specify proxy access users'')
      else andThen (users_loop (ns_Name n) [] (ns_Users n)) (\<lambda>us. Ok (n\<lparr>ns_Users := us\<rparr>)))"

definition verifySlowSQLTime :: "Namespace \<Rightarrow> unit res" where
  "verifySlowSQLTime n =
     (if ns_SlowSQLTime n = [] then Ok ()
      else case parseInt10 (ns_SlowSQLTime n) of
        (v, None) \<Rightarrow> if v < 0 then Err (ErrMsg ''invalid slow sql time'') else Ok ()
      | (_, Some _) \<Rightarrow> Err (ErrMsg ''invalid slow sql time''))"

definition verifyDBs :: "Namespace \<Rightarrow> unit res" where
  "verifyDBs n =
     (if ns_DefaultPhyDBS n = [] then Ok ()
      else if (\<forall>db \<in> set (map fst (ns_AllowedDBS n)). map_of (ns_DefaultPhyDBS n) db \<noteq> None) then Ok ()
      else Err (ErrMsg ''db have no phy db''))"

fun slices_loop :: "SliceCfg list \<Rightarrow> SliceCfg list \<Rightarrow> unit res" where
  "slices_loop seen [] = Ok ()"
| "slices_loop seen (s # ss) =
     (case Slice_verify s of
        Ok _ \<Rightarrow>
          if sl_Name s \<in> sl_Name ` set seen then Err (ErrMsg ''slice name duped'')
          else slices_loop (seen @ [s]) ss
      | _ \<Rightarrow> Err (ErrMsg ''slice cfg error''))"

definition verifySlices :: "Namespace \<Rightarrow> unit res" where
  "verifySlices n =
     (if ns_Slices n = [] then Err (ErrMsg ''empty slices'') else slices_loop [] (ns_Slices n))"

definition verifyDefaultSlice :: "Namespace \<Rightarrow> unit res" where
  "verifyDefaultSlice n =
     (if ns_DefaultSlice n \<noteq> [] \<and> ns_DefaultSlice n \<notin> set (map sl_Name (ns_Slices n))
      then Err (ErrMsg ''invalid default slice'') else Ok ())"

text \<open>\<^verbatim>\<open>rules[db][table] = type\<close>, keyed by the pair; a database is present when a table of it is.\<close>

fun shard_rules_loop ::
  "string list \<Rightarrow> ShardCfg list \<Rightarrow> ((string \<times> string) \<times> string) list \<Rightarrow> ShardCfg list \<Rightarrow>
   (((string \<times> string) \<times> string) list \<times> ShardCfg list) res" where
  "shard_rules_loop sliceNames [] rules linked = Ok (rules, linked)"
| "shard_rules_loop sliceNames (s # ss) rules linked =
     (if \<not> set (cfg_Slices s) \<subseteq> set sliceNames then Err (ErrMsg ''shard table slice not in the namespace.slices list'')
      else if cfg_Type s = ShardDefault then Err (ErrMsg ''[default-rule] duplicate, must only one'')
      else andThen (if cfg_Type s = ShardLinked then Ok (linked @ [s]) else andThen (Shard_verify s) (\<lambda>_. Ok linked)) (\<lambda>linked.
        if map_of rules (cfg_DB s, cfg_Table s) \<noteq> None then Err (ErrMsg ''table rule duplicate'')
        else shard_rules_loop sliceNames ss (AList.update (cfg_DB s, cfg_Table s) (cfg_Type s) rules) linked))"

fun linked_rules_loop :: "((string \<times> string) \<times> string) list \<Rightarrow> ShardCfg list \<Rightarrow> unit res" where
  "linked_rules_loop rules [] = Ok ()"
| "linked_rules_loop rules (s # ss) =
     (if cfg_DB s \<notin> (fst \<circ> fst) ` set rules then Err (ErrMsg ''db of LinkedRule is not found in parent rules'')
      else case map_of rules (cfg_DB s, cfg_ParentTable s) of
        None \<Rightarrow> Err (ErrMsg ''parent table of LinkedRule is not found in parent rules'')
      | Some t \<Rightarrow>
          if t = ShardLinked then Err (ErrMsg ''LinkedRule cannot link to another LinkedRule'')
          else linked_rules_loop rules ss)"

definition verifyShardRules :: "Namespace \<Rightarrow> unit res" where
  "verifyShardRules n =
     andThen (shard_rules_loop (map sl_Name (ns_Slices n)) (ns_ShardRules n) [] []) (\<lambda>(rules, linked).
       linked_rules_loop rules linked)"

end
