(* ===== verification/Rules.thy ===== *)
theory Rules
  imports Models
begin

text \<open>
  \<^verbatim>\<open>src/proxy/router/rule.go\<close> and \<^verbatim>\<open>src/proxy/router/router.go\<close>: sharding rules, their
  construction from the configuration, and the router that maps a table to its rule.

  A rule is a value; a linked rule holds its parent. The only rule the program changes after
  construction is the router's default rule, whose database \<^verbatim>\<open>GetRule\<close> overwrites: \<open>GetRule\<close>
  returns the router it leaves beside the rule.
\<close>

section \<open>Rules\<close>

record BaseRule =
  br_db :: string
  br_table :: string
  br_shardingColumn :: string
  br_ruleType :: string
  br_slices :: "string list"
  br_subTableIndexes :: "int list"
  br_tableToSlice :: "(int \<times> int) list"
  br_shard :: Shard
  br_mycatDatabases :: "string list"
  br_mycatDatabaseToTableIndexMap :: "(string \<times> int) list"

record LinkedRule =
  lr_db :: string
  lr_table :: string
  lr_shardingColumn :: string
  lr_linkToRule :: BaseRule

datatype Rule = RBase BaseRule | RLinked LinkedRule

definition NewDefaultRule :: "string \<Rightarrow> BaseRule" where
  "NewDefaultRule sl =
     \<lparr>br_db = [], br_table = [], br_shardingColumn = [], br_ruleType = ShardDefault, br_slices = [sl],
      br_subTableIndexes = [], br_tableToSlice = [], br_shard = DefaultShard,
      br_mycatDatabases = [], br_mycatDatabaseToTableIndexMap = []\<rparr>"

definition IsMycatShardingRule :: "string \<Rightarrow> bool" where
  "IsMycatShardingRule t \<longleftrightarrow>
     t = ShardMycatMod \<or> t = ShardMycatLong \<or> t = ShardMycatMURMUR \<or> t = ShardMycatPaddingMod \<or> t = ShardMycatString"

definition br_GetSlice :: "BaseRule \<Rightarrow> int \<Rightarrow> string res" where
  "br_GetSlice r i = at (br_slices r) i"

definition br_GetSliceIndexFromTableIndex :: "BaseRule \<Rightarrow> int \<Rightarrow> int" where
  "br_GetSliceIndexFromTableIndex r i =
     (case map_of (br_tableToSlice r) i of None \<Rightarrow> - 1 | Some sliceIndex \<Rightarrow> sliceIndex)"

definition br_GetFirstTableIndex :: "BaseRule \<Rightarrow> int res" where
  "br_GetFirstTableIndex r = at (br_subTableIndexes r) 0"

definition br_GetLastTableIndex :: "BaseRule \<Rightarrow> int res" where
  "br_GetLastTableIndex r = at (br_subTableIndexes r) (int (length (br_subTableIndexes r)) - 1)"

definition br_GetDatabaseNameByTableIndex :: "BaseRule \<Rightarrow> int \<Rightarrow> string res" where
  "br_GetDatabaseNameByTableIndex r index =
     (if IsMycatShardingRule (br_ruleType r) \<or> br_ruleType r = ShardGlobal
      then if index > int (length (br_subTableIndexes r)) then Err ErrInvalidArgument
           else at (br_mycatDatabases r) index
      else Ok (br_db r))"

definition br_GetTableIndexByDatabaseName :: "BaseRule \<Rightarrow> string \<Rightarrow> int option" where
  "br_GetTableIndexByDatabaseName r phyDB = map_of (br_mycatDatabaseToTableIndexMap r) phyDB"

text \<open>The interface methods: a linked rule answers everything but its names from its parent.\<close>

fun base_of :: "Rule \<Rightarrow> BaseRule" where
  "base_of (RBase r) = r"
| "base_of (RLinked l) = lr_linkToRule l"

fun GetDB :: "Rule \<Rightarrow> string" where
  "GetDB (RBase r) = br_db r"
| "GetDB (RLinked l) = lr_db l"

fun GetTable :: "Rule \<Rightarrow> string" where
  "GetTable (RBase r) = br_table r"
| "GetTable (RLinked l) = lr_table l"

fun GetShardingColumn :: "Rule \<Rightarrow> string" where
  "GetShardingColumn (RBase r) = br_shardingColumn r"
| "GetShardingColumn (RLinked l) = lr_shardingColumn l"

fun IsLinkedRule :: "Rule \<Rightarrow> bool" where
  "IsLinkedRule (RBase r) = False"
| "IsLinkedRule (RLinked l) = True"

definition GetShard :: "Rule \<Rightarrow> Shard" where "GetShard r = br_shard (base_of r)"
definition GetType :: "Rule \<Rightarrow> string" where "GetType r = br_ruleType (base_of r)"
definition GetSlices :: "Rule \<Rightarrow> string list" where "GetSlices r = br_slices (base_of r)"
definition GetSubTableIndexes :: "Rule \<Rightarrow> int list" where "GetSubTableIndexes r = br_subTableIndexes (base_of r)"
definition GetSlice :: "Rule \<Rightarrow> int \<Rightarrow> string res" where "GetSlice r = br_GetSlice (base_of r)"
definition GetSliceIndexFromTableIndex :: "Rule \<Rightarrow> int \<Rightarrow> int" where
  "GetSliceIndexFromTableIndex r = br_GetSliceIndexFromTableIndex (base_of r)"
definition GetFirstTableIndex :: "Rule \<Rightarrow> int res" where "GetFirstTableIndex r = br_GetFirstTableIndex (base_of r)"
definition GetLastTableIndex :: "Rule \<Rightarrow> int res" where "GetLastTableIndex r = br_GetLastTableIndex (base_of r)"
definition GetDatabaseNameByTableIndex :: "Rule \<Rightarrow> int \<Rightarrow> string res" where
  "GetDatabaseNameByTableIndex r = br_GetDatabaseNameByTableIndex (base_of r)"
definition GetDatabases :: "Rule \<Rightarrow> string list" where "GetDatabases r = br_mycatDatabases (base_of r)"
definition GetTableIndexByDatabaseName :: "Rule \<Rightarrow> string \<Rightarrow> int option" where
  "GetTableIndexByDatabaseName r = br_GetTableIndexByDatabaseName (base_of r)"
definition FindTableIndex :: "Env \<Rightarrow> Rule \<Rightarrow> key \<Rightarrow> int res" where
  "FindTableIndex env r key = FindForKey env (GetShard r) key"

lemmas rule_methods =
  GetShard_def GetType_def GetSlices_def GetSubTableIndexes_def GetSlice_def GetSliceIndexFromTableIndex_def
  GetFirstTableIndex_def GetLastTableIndex_def GetDatabaseNameByTableIndex_def GetDatabases_def
  GetTableIndexByDatabaseName_def FindTableIndex_def

section \<open>Parsing slice infos\<close>

definition realDatabase :: "string \<Rightarrow> string list res" where
  "realDatabase db =
     (case rangeDatabaseRegex db of
        None \<Rightarrow> Ok [db]
      | Some (dbPrefix, l, r) \<Rightarrow>
          (case atoi l of
             Ok leftBound \<Rightarrow>
               (case atoi r of
                  Ok rightBound \<Rightarrow>
                    if rightBound \<le> leftBound then Err (ErrMsg ''invalid bound value of database list'')
                    else if rightBound = MaxInt64 then Panic (PMsg ''out of memory'')
                    else Ok (map (\<lambda>i. dbPrefix @ itoa i) [leftBound..rightBound])
                | _ \<Rightarrow> Err (ErrMsg ''invalid right bound value of database list''))
           | _ \<Rightarrow> Err (ErrMsg ''invalid left bound value of database list'')))"

fun getRealDatabases :: "string list \<Rightarrow> string list res" where
  "getRealDatabases [] = Ok []"
| "getRealDatabases (db # dbs) =
     andThen (realDatabase db) (\<lambda>names.
     andThen (getRealDatabases dbs) (\<lambda>rest. Ok (names @ rest)))"

fun hash_loop :: "int \<Rightarrow> int \<Rightarrow> int list \<Rightarrow> int list \<Rightarrow> (int \<times> int) list \<Rightarrow> int list \<times> (int \<times> int) list" where
  "hash_loop i sumTables [] sub m = (sub, m)"
| "hash_loop i sumTables (loc # locs) sub m =
     hash_loop (i + 1) (i64 (sumTables + loc)) locs
       (sub @ map (\<lambda>j. i64 (j + sumTables)) [0..loc - 1]) (slice_tables i sumTables loc m)"

definition parseHashRuleSliceInfos :: "int list \<Rightarrow> string list \<Rightarrow> (int list \<times> (int \<times> int) list) res" where
  "parseHashRuleSliceInfos locations slices =
     (if length locations \<noteq> length slices then Err ErrLocationsCount else Ok (hash_loop 0 0 locations [] []))"

definition parseMycatHashRuleSliceInfos ::
  "int list \<Rightarrow> string list \<Rightarrow> string list \<Rightarrow> (int list \<times> (int \<times> int) list) res" where
  "parseMycatHashRuleSliceInfos locations slices databases =
     andThen (parseHashRuleSliceInfos locations slices) (\<lambda>(subTableIndexs, tableToSlice).
     andThen (getRealDatabases databases) (\<lambda>realDatabaseList.
       if length tableToSlice \<noteq> length realDatabaseList then Err ErrLocationsCount
       else Ok (subTableIndexs, tableToSlice)))"

fun date_loop ::
  "(string \<Rightarrow> int list res) \<Rightarrow> int \<Rightarrow> string list \<Rightarrow> int list \<Rightarrow> (int \<times> int) list \<Rightarrow> (int list \<times> (int \<times> int) list) res" where
  "date_loop parse i [] sub m = Ok (sub, m)"
| "date_loop parse i (r # rs) sub m =
     andThen (parse r) (\<lambda>numbers.
     andThen (if sub = [] then Ok False else andThen (at numbers 0) (\<lambda>n. Ok (n \<le> last sub))) (\<lambda>overlap.
       if overlap then Err ErrDateRangeOverlap
       else date_loop parse (i + 1) rs (sub @ numbers) (foldl (\<lambda>m v. AList.update v i m) m numbers)))"

definition parseDateDayRuleSliceInfos :: "string list \<Rightarrow> string list \<Rightarrow> (int list \<times> (int \<times> int) list) res" where
  "parseDateDayRuleSliceInfos dateRange slices =
     (if length dateRange \<noteq> length slices then Err ErrDateRangeCount
      else date_loop ParseDayRange 0 dateRange [] [])"

definition parseDateMonthRuleSliceInfos :: "string list \<Rightarrow> string list \<Rightarrow> (int list \<times> (int \<times> int) list) res" where
  "parseDateMonthRuleSliceInfos dateRange slices =
     (if length dateRange \<noteq> length slices then Err ErrDateRangeCount
      else date_loop ParseMonthRange 0 dateRange [] [])"

definition parseDateYearRuleSliceInfos :: "string list \<Rightarrow> string list \<Rightarrow> (int list \<times> (int \<times> int) list) res" where
  "parseDateYearRuleSliceInfos dateRange slices =
     (if length dateRange \<noteq> length slices then Err ErrDateRangeCount
      else date_loop ParseYearRange 0 dateRange [] [])"

definition parseGlobalTableRuleSliceInfos ::
  "int list \<Rightarrow> string list \<Rightarrow> string list \<Rightarrow> (int list \<times> (int \<times> int) list) res" where
  "parseGlobalTableRuleSliceInfos locations slices databases =
     andThen (parseHashRuleSliceInfos locations slices) (\<lambda>(subTableIndexs, tableToSlice).
       if databases = [] then Ok (subTableIndexs, tableToSlice)
       else andThen (getRealDatabases databases) (\<lambda>realDatabaseList.
         if length tableToSlice \<noteq> length realDatabaseList then Err ErrLocationsCount
         else Ok (subTableIndexs, tableToSlice)))"

section \<open>Parsing rules\<close>

definition parseRuleSliceInfos :: "ShardCfg \<Rightarrow> (int list \<times> (int \<times> int) list \<times> Shard) res" where
  "parseRuleSliceInfos cfg =
     (let t = cfg_Type cfg;
          hash = parseHashRuleSliceInfos (cfg_Locations cfg) (cfg_Slices cfg);
          mycat = parseMycatHashRuleSliceInfos (cfg_Locations cfg) (cfg_Slices cfg) (cfg_Databases cfg)
      in if t = ShardHash then
        andThen hash (\<lambda>(sub, m). Ok (sub, m, HashShard (int (length m))))
      else if t = ShardMod then
        andThen hash (\<lambda>(sub, m). Ok (sub, m, ModShard (int (length m))))
      else if t = ShardRange then
        andThen hash (\<lambda>(sub, m).
        andThen (ParseNumSharding (cfg_Locations cfg) (cfg_TableRowLimit cfg)) (\<lambda>rs.
          if length rs \<noteq> length m then Err (ErrMsg ''range space not equal tables'')
          else Ok (sub, m, NumRangeShard rs)))
      else if t = ShardDay then
        andThen (parseDateDayRuleSliceInfos (cfg_DateRange cfg) (cfg_Slices cfg)) (\<lambda>(sub, m). Ok (sub, m, DateDayShard))
      else if t = ShardMonth then
        andThen (parseDateMonthRuleSliceInfos (cfg_DateRange cfg) (cfg_Slices cfg)) (\<lambda>(sub, m). Ok (sub, m, DateMonthShard))
      else if t = ShardYear then
        andThen (parseDateYearRuleSliceInfos (cfg_DateRange cfg) (cfg_Slices cfg)) (\<lambda>(sub, m). Ok (sub, m, DateYearShard))
      else if t = ShardMycatMod then
        andThen mycat (\<lambda>(sub, m). Ok (sub, m, MycatModShard (int (length m))))
      else if t = ShardMycatLong then
        andThen mycat (\<lambda>(sub, m).
        andThen (LongShard_Init (NewMycatPartitionLongShard (int (length m)) (cfg_PartitionCount cfg) (cfg_PartitionLength cfg)))
          (\<lambda>shard. Ok (sub, m, MycatLongShard shard)))
      else if t = ShardMycatString then
        andThen mycat (\<lambda>(sub, m).
        andThen (StringShard_Init (NewMycatPartitionStringShard (int (length m)) (cfg_PartitionCount cfg)
                   (cfg_PartitionLength cfg) (cfg_HashSlice cfg)))
          (\<lambda>shard. Ok (sub, m, MycatStringShard shard)))
      else if t = ShardMycatMURMUR then
        andThen mycat (\<lambda>(sub, m).
        andThen (NewMycatPartitionMurmurHashShard (cfg_Seed cfg) (cfg_VirtualBucketTimes cfg) (int (length m))) (\<lambda>shard.
          Ok (sub, m, MycatMurmurShard (MurmurShard_Init shard))))
      else if t = ShardMycatPaddingMod then
        andThen mycat (\<lambda>(sub, m).
        andThen (GetMycatPartitionPaddingModShard (cfg_PadFrom cfg) (cfg_PadLength cfg) (cfg_ModBegin cfg)
                   (cfg_ModEnd cfg) (int (length m))) (\<lambda>shard.
        andThen (PaddingMod_checkParam shard) (\<lambda>_. Ok (sub, m, MycatPaddingModShard shard))))
      else if t = ShardGlobal then
        andThen (parseGlobalTableRuleSliceInfos (cfg_Locations cfg) (cfg_Slices cfg) (cfg_Databases cfg)) (\<lambda>(sub, m).
          Ok (sub, m, GlobalTableShard))
      else Err ErrUnknownRuleType)"

definition index_databases :: "string list \<Rightarrow> (string \<times> int) list" where
  "index_databases dbs = foldl (\<lambda>m (i, db). AList.update db (int i) m) [] (enumerate 0 dbs)"

definition parseRule :: "ShardCfg \<Rightarrow> BaseRule res" where
  "parseRule cfg =
     andThen (parseRuleSliceInfos cfg) (\<lambda>(sub, m, shard).
     let r = \<lparr>br_db = cfg_DB cfg, br_table = toLower (cfg_Table cfg), br_shardingColumn = toLower (cfg_Key cfg),
              br_ruleType = cfg_Type cfg, br_slices = cfg_Slices cfg, br_subTableIndexes = sub,
              br_tableToSlice = m, br_shard = shard, br_mycatDatabases = [],
              br_mycatDatabaseToTableIndexMap = []\<rparr>;
         named = (\<lambda>dbs. r\<lparr>br_mycatDatabases := dbs, br_mycatDatabaseToTableIndexMap := index_databases dbs\<rparr>)
     in if IsMycatShardingRule (cfg_Type cfg) then andThen (getRealDatabases (cfg_Databases cfg)) (\<lambda>dbs. Ok (named dbs))
        else if cfg_Type cfg = ShardGlobal then
          (if cfg_Databases cfg \<noteq> [] then andThen (getRealDatabases (cfg_Databases cfg)) (\<lambda>dbs. Ok (named dbs))
           else Ok (named (replicate (length sub) (cfg_DB cfg))))
        else Ok r)"

definition createLinkedRule :: "(string \<rightharpoonup> (string \<rightharpoonup> Rule)) \<Rightarrow> ShardCfg \<Rightarrow> LinkedRule res" where
  "createLinkedRule rules shard =
     (if cfg_Type shard \<noteq> ShardLinked then Err (ErrMsg ''LinkedRule type is not linked'')
      else case rules (cfg_DB shard) of
        None \<Rightarrow> Err (ErrMsg ''db of LinkedRule is not found in parent rules'')
      | Some tableRules \<Rightarrow>
          (case tableRules (toLower (cfg_ParentTable shard)) of
             None \<Rightarrow> Err (ErrMsg ''parent table of LinkedRule is not found in parent rules'')
           | Some dbRule \<Rightarrow>
               if GetType dbRule = ShardLinked then Err (ErrMsg ''LinkedRule cannot link to another LinkedRule'')
               else case dbRule of
                 RLinked _ \<Rightarrow> Err (ErrMsg ''LinkedRule must link to a BaseRule'')
               | RBase linkToRule \<Rightarrow>
                   Ok \<lparr>lr_db = cfg_DB shard, lr_table = toLower (cfg_Table shard),
                       lr_shardingColumn = toLower (cfg_Key shard), lr_linkToRule = linkToRule\<rparr>))"

section \<open>The router\<close>

record Router =
  rt_rules :: "string \<rightharpoonup> (string \<rightharpoonup> Rule)"
  rt_defaultRule :: BaseRule

definition includeSlice :: "string list \<Rightarrow> string \<Rightarrow> bool" where
  "includeSlice slices sliceName \<longleftrightarrow> sliceName \<in> set slices"

definition set_rule :: "(string \<rightharpoonup> (string \<rightharpoonup> Rule)) \<Rightarrow> string \<Rightarrow> string \<Rightarrow> Rule \<Rightarrow> (string \<rightharpoonup> (string \<rightharpoonup> Rule))" where
  "set_rule rules db table r =
     rules(db \<mapsto> (case rules db of None \<Rightarrow> Map.empty | Some m \<Rightarrow> m)(table \<mapsto> r))"

text \<open>A global table rule takes the slice names of the namespace.\<close>

definition with_ns_slices :: "string list \<Rightarrow> BaseRule \<Rightarrow> BaseRule" where
  "with_ns_slices sliceNames rule =
     (if br_ruleType rule = ShardGlobal then rule\<lparr>br_slices := sliceNames\<rparr> else rule)"

fun router_loop ::
  "string list \<Rightarrow> ShardCfg list \<Rightarrow> (string \<rightharpoonup> (string \<rightharpoonup> Rule)) \<Rightarrow> ShardCfg list \<Rightarrow>
   ((string \<rightharpoonup> (string \<rightharpoonup> Rule)) \<times> ShardCfg list) res" where
  "router_loop sliceNames [] rules linked = Ok (rules, linked)"
| "router_loop sliceNames (shard # shards) rules linked =
     (if \<not> list_all (includeSlice sliceNames) (cfg_Slices shard)
      then Err (ErrMsg ''shard table slice not in the namespace.slices list'')
      else if cfg_Type shard = ShardLinked then router_loop sliceNames shards rules (linked @ [shard])
      else andThen (parseRule shard) (\<lambda>rule.
        let rule = with_ns_slices sliceNames rule
        in if br_ruleType rule = ShardDefault then Err (ErrMsg ''[default-rule] duplicate, must only one'')
           else case rules (br_db rule) of
             Some m \<Rightarrow>
               (case m (br_table rule) of
                  Some _ \<Rightarrow> Err (ErrMsg ''table rule duplicate'')
                | None \<Rightarrow> router_loop sliceNames shards (set_rule rules (br_db rule) (br_table rule) (RBase rule)) linked)
           | None \<Rightarrow> router_loop sliceNames shards (set_rule rules (br_db rule) (br_table rule) (RBase rule)) linked))"

lemma with_ns_slices_simps [simp]:
  "br_db (with_ns_slices names r) = br_db r" "br_table (with_ns_slices names r) = br_table r"
  "br_ruleType (with_ns_slices names r) = br_ruleType r"
  by (simp_all add: with_ns_slices_def)

fun link_loop ::
  "ShardCfg list \<Rightarrow> (string \<rightharpoonup> (string \<rightharpoonup> Rule)) \<Rightarrow> (string \<rightharpoonup> (string \<rightharpoonup> Rule)) res" where
  "link_loop [] rules = Ok rules"
| "link_loop (shard # shards) rules =
     (case createLinkedRule rules shard of
        Ok rule \<Rightarrow> link_loop shards (set_rule rules (lr_db rule) (lr_table rule) (RLinked rule))
      | Err _ \<Rightarrow> Err (ErrMsg ''create linked rule error'')
      | Panic p \<Rightarrow> Panic p)"

definition NewRouter :: "Namespace \<Rightarrow> Router res" where
  "NewRouter n =
     (let sliceNames = map sl_Name (ns_Slices n)
      in if \<not> includeSlice sliceNames (ns_DefaultSlice n) then Err (ErrMsg ''default slice not in the slice list'')
         else andThen (router_loop sliceNames (ns_ShardRules n) Map.empty []) (\<lambda>(rules, linked).
              andThen (link_loop linked rules) (\<lambda>rules.
                Ok \<lparr>rt_rules = rules, rt_defaultRule = NewDefaultRule (ns_DefaultSlice n)\<rparr>)))"

definition qualify :: "string \<Rightarrow> string \<Rightarrow> string \<times> string" where
  "qualify db table =
     (case split_on (CHR ''.'') table of
        [d, t] \<Rightarrow> (trim_by (\<lambda>c. c = CHR ''`'') d, trim_by (\<lambda>c. c = CHR ''`'') t)
      | _ \<Rightarrow> (db, table))"

definition lookup_rule :: "Router \<Rightarrow> string \<Rightarrow> string \<Rightarrow> Rule option" where
  "lookup_rule r db table = (case rt_rules r db of None \<Rightarrow> None | Some m \<Rightarrow> m table)"

definition GetShardRule :: "Router \<Rightarrow> string \<Rightarrow> string \<Rightarrow> Rule option" where
  "GetShardRule r db table = (case qualify db table of (db, table) \<Rightarrow> lookup_rule r db table)"

definition GetRule :: "Router \<Rightarrow> string \<Rightarrow> string \<Rightarrow> Rule \<times> Router" where
  "GetRule r db table =
     (case qualify db table of (db, table) \<Rightarrow>
        case lookup_rule r db table of
          Some rule \<Rightarrow> (rule, r)
        | None \<Rightarrow>
            let d = (rt_defaultRule r)\<lparr>br_db := db\<rparr> in (RBase d, r\<lparr>rt_defaultRule := d\<rparr>))"

end
