(* ===== verification/Shard_Props.thy ===== *)
theory Shard_Props
  imports Shards
begin

text \<open>
  What the shard functions of \<^verbatim>\<open>Shards\<close> promise: which keys have an index, which index it is and
  that it names a table of the rule.
\<close>

unbundle bit_operations_syntax

section \<open>Index ranges of hash and mod shards\<close>

lemma go_mod_pos: "0 < n \<Longrightarrow> 0 \<le> a \<Longrightarrow> go_mod a n = Ok (a mod n)"
  by (cases "a = 0") (simp_all add: go_mod_def smod_int_alt_def)

lemma go_mod_neg: "0 < n \<Longrightarrow> a < 0 \<Longrightarrow> go_mod a n = Ok (- (\<bar>a\<bar> mod n))"
  by (simp add: go_mod_def smod_int_alt_def)

lemma NumValue_range:
  assumes "wf_key k" "NumValue k = Ok v"
  shows "in_i64 v"
proof -
  have "in_i64 v" if "num_of_string s = Ok v" for s
  proof (cases "parseInt10 s")
    case (Pair w e)
    with that have "w = v" "e = None" by (cases e; auto simp: num_of_string_def)+
    with Pair parseInt10_range [of s] show ?thesis by simp
  qed
  then show ?thesis using assms by (cases k) auto
qed

lemma HashValue_range:
  assumes "wf_key k" "HashValue k = Ok h"
  shows "0 \<le> h \<and> h < 2 ^ 64"
proof -
  have crc: "uint (ChecksumIEEE s) < 2 ^ 64" for s
    using uint_lt2p [of "ChecksumIEEE s"] by simp
  have "0 \<le> fst (parseUint_loop n s) \<and> fst (parseUint_loop n s) < 2 ^ 64" if "0 \<le> n" "n < 2 ^ 64" for n s
    using that
  proof (induction n s rule: parseUint_loop.induct)
    case (2 n c cs)
    then show ?case using digit_val_bounds [of c] by (cases "is_digit c") auto
  qed simp
  from this [of 0] have pu: "0 \<le> fst (parseUint10 s) \<and> fst (parseUint10 s) < 2 ^ 64" for s
    by (simp add: parseUint10_def)
  have "0 \<le> h \<and> h < 2 ^ 64" if "HashValue (KString s) = Ok h" for s
  proof (cases "parseUint10 s")
    case (Pair v e)
    then show ?thesis using that pu [of s] crc [of s] by (cases e) auto
  qed
  then show ?thesis using assms crc u64_bounds by (cases k) auto
qed

text \<open>
  C30: a hash shard with \<^verbatim>\<open>n > 0\<close> tables maps every key that has a hash value to an index below
  \<^verbatim>\<open>n\<close>, the hash value modulo \<^verbatim>\<open>n\<close>, and it panics on no such key.
\<close>

theorem hash_shard_index:
  assumes "wf_key k" "0 < n" "n \<le> MaxInt64" "HashValue k = Ok h"
  shows "FindForKey env (HashShard n) k = Ok (h mod n) \<and> 0 \<le> h mod n \<and> h mod n < n"
proof -
  have "u64 n = n" using assms(2,3) by (intro u64_id) (auto simp: MaxInt64_def)
  moreover have "i64 (h mod n) = h mod n"
    using assms(2,3) pos_mod_bound [OF assms(2), of h] pos_mod_sign [OF assms(2), of h]
    unfolding in_i64_def MinInt64_def MaxInt64_def by (intro i64_id) (unfold in_i64_bounds, linarith)
  ultimately show ?thesis using assms(2,4) by (simp add: HashShard_FindForKey_def)
qed

theorem hash_shard_index_witness:
  "FindForKey \<lparr>zone = \<lambda>_. 0, tm_Ceiling = \<lambda>_ _. None, tm_Min = \<lambda>_. None\<rparr> (HashShard 8) (KInt64 (- 1)) = Ok 7"
proof -
  have "u64 (- 1) = 18446744073709551615" by code_simp
  then show ?thesis
    using hash_shard_index [of "KInt64 (- 1)" 8 18446744073709551615]
    by (simp add: in_i64_def MinInt64_def MaxInt64_def)
qed

text \<open>
  C29: a mod shard with \<^verbatim>\<open>n > 0\<close> tables maps every numeric key but the smallest 64-bit integer to its
  absolute value modulo \<^verbatim>\<open>n\<close>, an index from 0 to \<^verbatim>\<open>n - 1\<close>. The \<^verbatim>\<open>hack.Abs\<close> of the smallest 64-bit integer
  is itself: its index is minus the remainder of \<^verbatim>\<open>2^63\<close>, which is negative unless \<^verbatim>\<open>n\<close> divides \<^verbatim>\<open>2^63\<close>. Both
  kinds of mod shard agree.
\<close>

theorem mod_shard_index:
  assumes "wf_key k" "0 < n" "NumValue k = Ok v"
  shows "FindForKey env (ModShard n) k = Ok (if v = MinInt64 then - (2 ^ 63 mod n) else \<bar>v\<bar> mod n) \<and>
         FindForKey env (MycatModShard n) k = FindForKey env (ModShard n) k \<and>
         \<bar>v\<bar> mod n \<in> {0..n - 1} \<and> (- (2 ^ 63 mod n) < 0 \<longleftrightarrow> \<not> n dvd 2 ^ 63)"
proof -
  have "Abs v = (if v = MinInt64 then MinInt64 else \<bar>v\<bar>)"
    using NumValue_range [OF assms(1,3)] by (rule Abs_eq)
  moreover have "0 \<le> 2 ^ 63 mod n" using assms(2) by simp
  then have "- (2 ^ 63 mod n) < 0 \<longleftrightarrow> \<not> n dvd 2 ^ 63" unfolding dvd_eq_mod_eq_0 by linarith
  ultimately show ?thesis using assms(2,3) go_mod_pos [of n "\<bar>v\<bar>"] go_mod_neg [of n MinInt64]
    by (simp add: ModShard_FindForKey_def MinInt64_def zle_diff1_eq)
qed

theorem mod_shard_index_witness:
  "FindForKey \<lparr>zone = \<lambda>_. 0, tm_Ceiling = \<lambda>_ _. None, tm_Min = \<lambda>_. None\<rparr> (ModShard 7) (KInt64 MinInt64) = Ok (- 1) \<and>
   FindForKey \<lparr>zone = \<lambda>_. 0, tm_Ceiling = \<lambda>_ _. None, tm_Min = \<lambda>_. None\<rparr> (ModShard 4) (KInt64 (- 7)) = Ok 3"
  using mod_shard_index [of "KInt64 MinInt64" 7 MinInt64] mod_shard_index [of "KInt64 (- 7)" 4 "- 7"]
  by (simp add: in_i64_def MinInt64_def MaxInt64_def)

section \<open>Numeric ranges\<close>

definition limit_ranges :: "int \<Rightarrow> int \<Rightarrow> NumKeyRange list" where
  "limit_ranges limit n = map (\<lambda>i. \<lparr>Start = i * limit, End = (i + 1) * limit\<rparr>) [0..n - 1]"

lemma range_index_limit:
  assumes "0 < limit" "n * limit < MaxInt64" "a \<le> n"
  shows "range_index a (map (\<lambda>i. \<lparr>Start = i * limit, End = (i + 1) * limit\<rparr>) [a..n - 1]) v =
     (if a * limit \<le> v \<and> v < n * limit then Some (v div limit) else None)"
  using assms
proof (induction "nat (n - a)" arbitrary: a)
  case (Suc m)
  then have lt: "a < n" by simp
  have split: "[a..n - 1] = a # [a + 1..n - 1]" using lt by (simp add: upto_rec1)
  have "(a + 1) * limit \<le> n * limit" using lt assms(1) by (intro mult_right_mono) auto
  then have c: "nkr_Contains \<lparr>Start = a * limit, End = (a + 1) * limit\<rparr> v \<longleftrightarrow> a * limit \<le> v \<and> v < (a + 1) * limit"
    using Suc.prems(2) by (simp add: nkr_Contains_def MaxNumKey_def)
  show ?case
  proof (cases "a * limit \<le> v \<and> v < (a + 1) * limit")
    case True
    then have "v div limit = a"
      by (intro int_div_pos_eq [where r = "v - a * limit"]) (auto simp: algebra_simps)
    then show ?thesis using True c split \<open>(a + 1) * limit \<le> n * limit\<close> by auto
  next
    case False
    have "a * limit \<le> (a + 1) * limit" using assms(1) by (simp add: distrib_right)
    then have e: "a * limit \<le> v \<longleftrightarrow> (a + 1) * limit \<le> v" using False by (meson linorder_not_less order_trans)
    have "m = nat (n - (a + 1))" "a + 1 \<le> n" using Suc.hyps(2) lt by auto
    from Suc.hyps(1) [OF this(1) assms(1,2) this(2)] show ?thesis
      using False c unfolding e split by simp
  qed
qed (auto simp: upto_empty)

lemma limit_ranges_index:
  assumes "0 < limit" "n * limit < MaxInt64" "0 \<le> n"
  shows "range_index 0 (limit_ranges limit n) v =
     (if 0 \<le> v \<and> v < n * limit then Some (v div limit) else None)"
  using range_index_limit [OF assms, of v] by (simp add: limit_ranges_def)

text \<open>
  C27: a range rule with non-negative locations and a positive row limit puts key \<^verbatim>\<open>v\<close> in table
  \<^verbatim>\<open>v / TableRowLimit\<close> when it lies below the capacity of the configured tables, and reports
  \<^verbatim>\<open>ErrKeyOutOfRange\<close> for every other number: the ranges that \<^verbatim>\<open>ParseNumSharding\<close> builds leave no
  gap and do not overlap.
\<close>

theorem num_range_index:
  assumes "\<forall>l \<in> set locs. 0 \<le> l" "0 < limit" "sum_list locs * limit < MaxInt64" "NumValue k = Ok v"
  shows "\<exists>rs. ParseNumSharding locs limit = Ok rs \<and> int (length rs) = sum_list locs \<and>
     FindForKey env (NumRangeShard rs) k =
       (if 0 \<le> v \<and> v < sum_list locs * limit then Ok (v div limit) else Err ErrKeyOutOfRange)"
proof -
  have nn: "0 \<le> sum_list locs" using assms(1) by (simp add: sum_list_nonneg)
  have "ParseNumSharding locs limit = Ok (limit_ranges limit (sum_list locs))"
    using ParseNumSharding_ranges [OF assms(1,2)] assms(3) by (simp add: limit_ranges_def)
  moreover have "int (length (limit_ranges limit (sum_list locs))) = sum_list locs"
    using nn by (simp add: limit_ranges_def)
  ultimately show ?thesis using limit_ranges_index [OF assms(2,3) nn] assms(4)
    by (simp add: NumRangeShard_FindForKey_def)
qed

theorem num_range_index_witness:
  "\<exists>rs. ParseNumSharding [2, 3] 100 = Ok rs \<and> int (length rs) = 5 \<and>
     FindForKey \<lparr>zone = \<lambda>_. 0, tm_Ceiling = \<lambda>_ _. None, tm_Min = \<lambda>_. None\<rparr> (NumRangeShard rs) (KInt64 299) = Ok 2"
  using num_range_index [of "[2, 3]" 100 "KInt64 299" 299] by (simp add: MaxInt64_def)

section \<open>Mycat long shards\<close>

lemma set_at_props:
  assumes "set_at xs i v = Ok ys"
  shows "length ys = length xs" "set ys \<subseteq> insert v (set xs)"
  using assms set_update_subset_insert [of xs "nat i" v] by (auto simp: set_at_def split: if_splits)

lemma seg_inner_props:
  "seg_inner n j v xs = Ok ys \<Longrightarrow> length ys = length xs \<and> set ys \<subseteq> insert v (set xs)"
proof (induction n arbitrary: j xs)
  case (Suc n)
  then obtain zs where z: "set_at xs j v = Ok zs" "seg_inner n (j + 1) v zs = Ok ys" by auto
  from Suc.IH [OF z(2)] set_at_props [OF z(1)] show ?case by auto
qed auto

lemma seg_outer_props:
  "seg_outer i ai xs = Ok ys \<Longrightarrow> 1 \<le> i \<Longrightarrow>
     length ys = length xs \<and> set ys \<subseteq> set xs \<union> {i - 1..<i + int (length ai) - 2}"
proof (induction i ai xs arbitrary: ys rule: seg_outer.induct)
  case (1 i a b rest xs)
  then obtain zs where z: "seg_inner (nat (b - a)) a (i - 1) xs = Ok zs" "seg_outer (i + 1) (b # rest) zs = Ok ys"
    by auto
  from "1.IH" [OF z(2)] "1.prems" seg_inner_props [OF z(1)] show ?case by force
qed auto

lemma ai_inner_props:
  "ai_inner n len index ai = Ok (bi, j) \<Longrightarrow> 0 \<le> index \<Longrightarrow> length bi = length ai \<and> bi ! 0 = ai ! 0 \<and> 0 \<le> j"
proof (induction n arbitrary: index ai)
  case (Suc n)
  then obtain v ci where z: "at ai index = Ok v" "set_at ai (index + 1) (i64 (v + len)) = Ok ci"
    "ai_inner n len (index + 1) ci = Ok (bi, j)" by auto
  have "ci ! 0 = ai ! 0" using z(2) Suc.prems(2) by (auto simp: set_at_def split: if_splits)
  with Suc.IH [OF z(3)] set_at_props(1) [OF z(2)] Suc.prems(2) show ?case by simp
qed simp

lemma ai_outer_props:
  "ai_outer cl index ai = Ok bi \<Longrightarrow> 0 \<le> index \<Longrightarrow> length bi = length ai \<and> bi ! 0 = ai ! 0"
proof (induction cl index ai arbitrary: bi rule: ai_outer.induct)
  case (2 c len rest index ai)
  then obtain ci j where z: "ai_inner (nat c) len index ai = Ok (ci, j)" "ai_outer rest j ci = Ok bi" by auto
  from ai_inner_props [OF z(1) "2.prems"(2)] "2.IH" [OF z(2)] show ?case by simp
qed simp

lemma LongShard_Init_segment:
  assumes "LongShard_Init m = Ok m'" "0 \<le> pl_shardNum m" "pl_shardNum m < MaxInt64"
  shows "length (pl_segment m') = 1024 \<and> (\<forall>i \<in> set (pl_segment m'). 0 \<le> i \<and> i < pl_shardNum m)"
proof -
  obtain cl ai bi segment where z: "make_ints (i64 (pl_shardNum m + 1)) = Ok ai"
    "ai_outer cl 0 ai = Ok bi" "at bi (int (length bi) - 1) = Ok 1024"
    "seg_outer 1 bi (replicate 1024 0) = Ok segment" "pl_segment m' = segment"
    using assms(1) by (auto simp: LongShard_Init_def Let_def split: if_splits)
  have "i64 (pl_shardNum m + 1) = pl_shardNum m + 1"
    using assms(2,3) by (intro i64_id) (simp add: in_i64_def MinInt64_def)
  then have ai: "ai = replicate (nat (pl_shardNum m + 1)) 0" using z(1) assms(2) by (simp add: make_ints_def)
  note o = ai_outer_props [OF z(2)]
  have len: "int (length bi) = pl_shardNum m + 1" using o ai assms(2) by simp
  have "pl_shardNum m \<noteq> 0"
  proof
    assume "pl_shardNum m = 0"
    then have "bi ! 0 = 0" "length bi = 1" using o ai by simp_all
    then show False using z(3) by (simp add: at_def)
  qed
  then show ?thesis using seg_outer_props [OF z(4)] len assms(2) z(5) by force
qed

lemma and_1023: "h AND (1023::int) = h mod 1024"
  using take_bit_eq_mask [of 10 h] by (simp add: take_bit_eq_mod mask_eq_exp_minus_1)

lemma long_shard_index':
  assumes "LongShard_Init (NewMycatPartitionLongShard n cs ls) = Ok m" "0 \<le> n" "n < MaxInt64" "NumValue k = Ok h"
  shows "\<exists>i. FindForKey env (MycatLongShard m) k = Ok i \<and> i = pl_segment m ! nat (h mod 1024) \<and> 0 \<le> i \<and> i < n"
proof -
  have seg: "length (pl_segment m) = 1024" "\<forall>i \<in> set (pl_segment m). 0 \<le> i \<and> i < n"
    using LongShard_Init_segment [OF assms(1)] assms(2,3) by (simp_all add: NewMycatPartitionLongShard_def)
  have "at (pl_segment m) (h AND 1023) = Ok (pl_segment m ! nat (h mod 1024))"
    unfolding and_1023 using seg(1) by simp
  moreover have "pl_segment m ! nat (h mod 1024) \<in> set (pl_segment m)" using seg(1) by (intro nth_mem) simp
  ultimately show ?thesis using assms(4) seg(2) by (simp add: LongShard_FindForKey_def)
qed

text \<open>
  C26: when \<^verbatim>\<open>Init\<close> of a Mycat long shard succeeds, every numeric key has a table: the low ten bits
  of the key select an entry of the 1024-entry segment table, and the entry is an index below the
  number of tables.
\<close>

theorem long_shard_index:
  assumes "LongShard_Init (NewMycatPartitionLongShard n cs ls) = Ok m" "0 \<le> n" "n < MaxInt64" "NumValue k = Ok h"
  shows "\<exists>i. FindForKey env (MycatLongShard m) k = Ok i \<and> i = pl_segment m ! nat (h mod 1024) \<and> 0 \<le> i \<and> i < n"
  by (rule long_shard_index' [OF assms])

lemma seg_inner_fill:
  assumes "j + n \<le> length xs"
  shows "seg_inner n (int j) v xs = Ok (take j xs @ replicate n v @ drop (j + n) xs)"
  using assms
proof (induction n arbitrary: j xs)
  case (Suc n)
  have s: "set_at xs (int j) v = Ok (xs[j := v])" using Suc.prems by (simp add: set_at_def)
  have "seg_inner n (int j + 1) v (xs[j := v]) = Ok (take (Suc j) (xs[j := v]) @ replicate n v @ drop (Suc j + n) (xs[j := v]))"
    using Suc.IH [of "Suc j" "xs[j := v]"] Suc.prems by (simp add: add.commute)
  moreover have "take (Suc j) (xs[j := v]) = take j xs @ [v]"
    using Suc.prems by (simp add: take_Suc_conv_app_nth)
  ultimately show ?case using s by simp
qed simp

lemma LongShard_Init_example:
  "LongShard_Init (NewMycatPartitionLongShard 2 ''2'' ''512'') =
     Ok \<lparr>pl_shardNum = 2, pl_countStr = ''2'', pl_lengthStr = ''512'', pl_count = [2], pl_length = [512],
         pl_segment = replicate 512 0 @ replicate 512 1\<rparr>"
proof -
  have t: "toIntArray ''2'' = Ok [2]" "toIntArray ''512'' = Ok [512]" by code_simp+
  have "make_ints (i64 3) = Ok [0, 0, 0]" "i64 2 = 2" "ai_outer [(2, 512)] 0 [0, 0, 0] = Ok [0, 512, 1024]"
    by code_simp+
  moreover have "seg_outer 1 [0, 512, 1024] (replicate 1024 0) = Ok (replicate 512 0 @ replicate 512 1)"
    using seg_inner_fill [of 0 512 "replicate 1024 0" 0]
      seg_inner_fill [of 512 512 "replicate 512 0 @ replicate 512 0" 1]
    by (simp flip: replicate_add)
  ultimately show ?thesis using t
    by (simp add: LongShard_Init_def NewMycatPartitionLongShard_def at_def
        del: ai_outer.simps seg_outer.simps andThen_eq_Ok)
qed

theorem long_shard_index_witness:
  "\<exists>m. LongShard_Init (NewMycatPartitionLongShard 2 ''2'' ''512'') = Ok m \<and>
       FindForKey \<lparr>zone = \<lambda>_. 0, tm_Ceiling = \<lambda>_ _. None, tm_Min = \<lambda>_. None\<rparr> (MycatLongShard m) (KInt64 (- 1)) = Ok 1"
  using long_shard_index [OF LongShard_Init_example, of "KInt64 (- 1)" "- 1"] LongShard_Init_example
  by (simp add: MaxInt64_def nth_append)

text \<open>
  \<^verbatim>\<open>Init\<close> of a Mycat long shard does not reject negative lengths: the configuration
  \<^verbatim>\<open>partition_count 1,1\<close> with \<^verbatim>\<open>partition_length -1,1025\<close> passes all its checks and then writes
  before the start of the segment table.
\<close>

lemma long_shard_negative_length:
  "LongShard_Init (NewMycatPartitionLongShard 2 ''1,1'' ''-1,1025'') = Panic PIndex"
  by code_simp

section \<open>Mycat string shards\<close>

text \<open>The polynomial hash with base 31, without wrap-around, and the slice of the key it reads.\<close>

definition poly_hash :: "int list \<Rightarrow> int" where
  "poly_hash rs = foldl (\<lambda>h r. 31 * h + r) 0 rs"

definition hash_slice :: "int \<Rightarrow> int \<Rightarrow> string \<Rightarrow> int list" where
  "hash_slice start end s =
     (let len = int (length s);
          lo = max 0 (if start \<ge> 0 then start else len + start);
          hi = min (int (length (runes s))) (if end > 0 then end else len + end)
      in take (nat (hi - lo)) (drop (nat lo) (runes s)))"

lemma hash_step: "i64 (i64 (i64 (i64 x * 32) - i64 x) + r) = i64 (31 * x + r)"
proof -
  have "(i64 x * 32 - i64 x + r) = i64 x * 31 + r" by simp
  then have "i64 (i64 (i64 (i64 x * 32) - i64 x) + r) = i64 (i64 x * 31 + r)"
    by (simp only: i64_add_left i64_diff_left)
  also have "\<dots> = i64 (i64 (i64 x * 31) + r)" by (simp only: i64_add_left)
  finally show ?thesis by (simp only: i64_mult_left i64_add_left mult.commute)
qed

lemma foldl_hash:
  "foldl (\<lambda>h r. i64 (i64 (i64 (h * 32) - h) + r)) (i64 x) rs = i64 (foldl (\<lambda>h r. 31 * h + r) x rs)"
  by (induction rs arbitrary: x) (simp_all add: hash_step)

lemma stringHash_poly:
  "stringHash s (if start \<ge> 0 then start else int (length s) + start)
     (if end > 0 then end else int (length s) + end) = i64 (poly_hash (hash_slice start end s))"
proof -
  have "i64 0 = 0" by code_simp
  then show ?thesis using foldl_hash [of 0]
    by (simp add: stringHash_def poly_hash_def hash_slice_def Let_def max_def min_def not_less)
qed

lemma string_shard_index':
  assumes "StringShard_Init (NewMycatPartitionStringShard n cs ls hs) = Ok m" "0 \<le> n" "n < MaxInt64"
    "GetString k = Ok s"
  shows "\<exists>i. FindForKey env (MycatStringShard m) k = Ok i \<and> 0 \<le> i \<and> i < n \<and>
     i = pl_segment (ps_long m) !
           nat (poly_hash (hash_slice (ps_hashSliceStart m) (ps_hashSliceEnd m) s) mod 1024)"
proof -
  let ?p = "poly_hash (hash_slice (ps_hashSliceStart m) (ps_hashSliceEnd m) s)"
  have "LongShard_Init (NewMycatPartitionLongShard n cs ls) = Ok (ps_long m)"
    using assms(1) by (auto simp: StringShard_Init_def NewMycatPartitionStringShard_def)
  from LongShard_Init_segment [OF this]
  have seg: "length (pl_segment (ps_long m)) = 1024" "\<forall>i \<in> set (pl_segment (ps_long m)). 0 \<le> i \<and> i < n"
    using assms(2,3) by (simp_all add: NewMycatPartitionLongShard_def)
  have "i64 ?p AND 1023 = ?p mod 1024" unfolding and_1023 using i64_mod_pow [of 10 ?p] by simp
  then have "FindForKey env (MycatStringShard m) k = Ok (pl_segment (ps_long m) ! nat (?p mod 1024))"
    using assms(4) seg(1) by (simp add: StringShard_FindForKey_def Let_def stringHash_poly)
  moreover have "pl_segment (ps_long m) ! nat (?p mod 1024) \<in> set (pl_segment (ps_long m))"
    using seg(1) by (intro nth_mem) simp
  ultimately show ?thesis using seg(2) by simp
qed

text \<open>
  C25: when \<^verbatim>\<open>Init\<close> of a Mycat string shard succeeds, every key has a table below the table count:
  the entry of the segment table at the base-31 polynomial hash, modulo 1024, of the configured
  slice of the key's runes. The 64-bit wrap-around of the hash loop never shows.
\<close>

theorem string_shard_index:
  assumes "StringShard_Init (NewMycatPartitionStringShard n cs ls hs) = Ok m" "0 \<le> n" "n < MaxInt64"
    "GetString k = Ok s"
  shows "\<exists>i. FindForKey env (MycatStringShard m) k = Ok i \<and> 0 \<le> i \<and> i < n \<and>
     i = pl_segment (ps_long m) !
           nat (poly_hash (hash_slice (ps_hashSliceStart m) (ps_hashSliceEnd m) s) mod 1024)"
  by (rule string_shard_index' [OF assms])

theorem string_shard_index_witness:
  "\<exists>m. StringShard_Init (NewMycatPartitionStringShard 2 ''2'' ''512'' '':3'') = Ok m \<and>
       FindForKey \<lparr>zone = \<lambda>_. 0, tm_Ceiling = \<lambda>_ _. None, tm_Min = \<lambda>_. None\<rparr> (MycatStringShard m) (KString ''abcdef'') = Ok 0"
proof -
  have p: "parseHashSliceStartEnd '':3'' = Ok (0, 3)" by code_simp
  have h: "poly_hash (hash_slice 0 3 ''abcdef'') mod 1024 = 98" by code_simp
  have i: "StringShard_Init (NewMycatPartitionStringShard 2 ''2'' ''512'' '':3'') =
    Ok \<lparr>ps_long = \<lparr>pl_shardNum = 2, pl_countStr = ''2'', pl_lengthStr = ''512'', pl_count = [2], pl_length = [512],
         pl_segment = replicate 512 0 @ replicate 512 1\<rparr>, ps_hashSliceStr = '':3'', ps_hashSliceStart = 0, ps_hashSliceEnd = 3\<rparr>"
    using LongShard_Init_example p by (simp add: StringShard_Init_def NewMycatPartitionStringShard_def)
  show ?thesis using string_shard_index [OF i, of "KString ''abcdef''" "''abcdef''"] i h
    by (simp add: MaxInt64_def nth_append)
qed

section \<open>Mycat murmur shards\<close>

text \<open>What the documentation of the tree map promises of \<^verbatim>\<open>Ceiling\<close> and \<^verbatim>\<open>Min\<close>.\<close>

definition treemap_laws :: "Env \<Rightarrow> bool" where
  "treemap_laws env \<longleftrightarrow>
     (\<forall>ps k. case tm_Ceiling env ps k of
        None \<Rightarrow> \<forall>k' \<in> fst ` set ps. k' < k
      | Some (k', v) \<Rightarrow> k \<le> k' \<and> map_of (rev ps) k' = Some v \<and> (\<forall>j \<in> fst ` set ps. k \<le> j \<longrightarrow> k' \<le> j)) \<and>
     (\<forall>ps. case tm_Min env ps of
        None \<Rightarrow> ps = []
      | Some (k', v) \<Rightarrow> map_of (rev ps) k' = Some v \<and> (\<forall>j \<in> fst ` set ps. k' \<le> j))"

lemma bucket_nodes_props:
  "length (bucket_nodes seed i buf n k) = k" "x \<in> set (bucket_nodes seed i buf n k) \<Longrightarrow> snd x = i"
  by (induction k arbitrary: buf n) (auto simp: Let_def)

lemma murmur_buckets:
  assumes "NewMycatPartitionMurmurHashShard ss vs n = Ok m" "0 < n" "0 < pm_virtualBucketTimes m"
  shows "pm_bucketMap (MurmurShard_Init m) \<noteq> []" "x \<in> set (pm_bucketMap (MurmurShard_Init m)) \<Longrightarrow> 0 \<le> snd x \<and> snd x < n"
    "pm_seed (MurmurShard_Init m) = pm_seed m"
proof -
  have m: "pm_weightMap m = []" "pm_count m = n" and v: "in_i64 (pm_virtualBucketTimes m)"
    using assms(1) atoi_range by (auto simp: NewMycatPartitionMurmurHashShard_def)
  let ?b = "\<lambda>i. bucket_nodes (pm_seed m) i (''SHARD-'' @ itoa i) 0 (nat (pm_virtualBucketTimes m))"
  have bm: "pm_bucketMap (MurmurShard_Init m) = concat (map ?b [0..n - 1])"
    using m v by (simp add: MurmurShard_Init_def generateBucketMap_def getWeight_def i64_id)
  have "length (?b 0) = nat (pm_virtualBucketTimes m)" by (rule bucket_nodes_props(1))
  then have "?b 0 \<noteq> []" using assms(3) by (metis length_greater_0_conv zero_less_nat_eq)
  then show "pm_bucketMap (MurmurShard_Init m) \<noteq> []" using bm assms(2) by auto
  show "x \<in> set (pm_bucketMap (MurmurShard_Init m)) \<Longrightarrow> 0 \<le> snd x \<and> snd x < n"
    using bm bucket_nodes_props(2) by fastforce
  show "pm_seed (MurmurShard_Init m) = pm_seed m" by (simp add: MurmurShard_Init_def generateBucketMap_def)
qed

text \<open>The point of the ring that serves hash \<^verbatim>\<open>h\<close>: the next one clockwise.\<close>

definition ring_next :: "(int \<times> int) list \<Rightarrow> int \<Rightarrow> int \<Rightarrow> bool" where
  "ring_next ps h b \<longleftrightarrow>
     (if \<exists>j \<in> fst ` set ps. h \<le> j then h \<le> b \<and> (\<forall>j \<in> fst ` set ps. h \<le> j \<longrightarrow> b \<le> j)
      else \<forall>j \<in> fst ` set ps. b \<le> j)"

lemma Ceiling_Some:
  assumes "treemap_laws env" "tm_Ceiling env ps h = Some (c, v)"
  shows "map_of (rev ps) c = Some v" "ring_next ps h c"
proof -
  have q: "h \<le> c" "map_of (rev ps) c = Some v" "\<forall>j \<in> fst ` set ps. h \<le> j \<longrightarrow> c \<le> j"
    using assms(1) [unfolded treemap_laws_def, THEN conjunct1, rule_format, of ps h] assms(2) by simp_all
  have "c \<in> fst ` set ps" using map_of_SomeD [OF q(2)] by force
  with q show "map_of (rev ps) c = Some v" "ring_next ps h c" by (auto simp: ring_next_def)
qed

lemma Ceiling_None:
  assumes "treemap_laws env" "tm_Ceiling env ps h = None" "ps \<noteq> []"
  shows "\<exists>c v. tm_Min env ps = Some (c, v) \<and> map_of (rev ps) c = Some v \<and> ring_next ps h c"
proof -
  have lt: "\<forall>j \<in> fst ` set ps. j < h"
    using assms(1) [unfolded treemap_laws_def, THEN conjunct1, rule_format, of ps h] assms(2) by simp
  note M = assms(1) [unfolded treemap_laws_def, THEN conjunct2, rule_format, of ps]
  obtain c v where p: "tm_Min env ps = Some (c, v)" using M assms(3) by (cases "tm_Min env ps") auto
  have q: "map_of (rev ps) c = Some v" "\<forall>j \<in> fst ` set ps. c \<le> j" using M p by simp_all
  have "\<not> (\<exists>j \<in> fst ` set ps. h \<le> j)" using lt by (meson linorder_not_less)
  with q have "ring_next ps h c" by (simp add: ring_next_def)
  with p q show ?thesis by blast
qed

lemma treemap_values:
  assumes "treemap_laws env" "\<And>x. x \<in> set ps \<Longrightarrow> snd x < n"
  shows "tm_Ceiling env ps h = Some (c, v) \<Longrightarrow> v < n" "tm_Min env ps = Some (c, v) \<Longrightarrow> v < n"
proof -
  have *: "v < n" if "map_of (rev ps) c = Some v" for c v
    using assms(2) [of "(c, v)"] map_of_SomeD [OF that] by simp
  show "tm_Ceiling env ps h = Some (c, v) \<Longrightarrow> v < n"
    using Ceiling_Some(1) [OF assms(1)] * by blast
  assume "tm_Min env ps = Some (c, v)"
  then have "map_of (rev ps) c = Some v"
    using assms(1) [unfolded treemap_laws_def, THEN conjunct2, rule_format, of ps] by simp
  then show "v < n" by (rule *)
qed

lemma murmur_bucket_values:
  assumes "NewMycatPartitionMurmurHashShard ss vs n = Ok m" "x \<in> set (pm_bucketMap (MurmurShard_Init m))"
  shows "snd x < n"
proof -
  have "pm_count m = n" using assms(1) by (auto simp: NewMycatPartitionMurmurHashShard_def)
  then show ?thesis using assms(2) bucket_nodes_props(2)
    by (fastforce simp: MurmurShard_Init_def generateBucketMap_def)
qed

lemma murmur_shard_less:
  assumes "treemap_laws env" "NewMycatPartitionMurmurHashShard ss vs n = Ok m"
    "FindForKey env (MycatMurmurShard (MurmurShard_Init m)) k = Ok i"
  shows "i < n"
  using treemap_values [OF assms(1) murmur_bucket_values [OF assms(2)]] assms(3)
  by (auto simp: MurmurShard_FindForKey_def split: option.splits)

text \<open>
  C24: a Mycat murmur shard with at least one table and one virtual bucket per table maps every key
  with a string form to a table below the table count: the table whose virtual bucket is the first
  on the ring at or after the hash of the key, and the first of all when none is after it.
\<close>

theorem murmur_shard_index:
  assumes "treemap_laws env" "NewMycatPartitionMurmurHashShard ss vs n = Ok m" "0 < n" "0 < pm_virtualBucketTimes m"
    "GetString k = Ok s"
  shows "\<exists>i b. FindForKey env (MycatMurmurShard (MurmurShard_Init m)) k = Ok i \<and> 0 \<le> i \<and> i < n \<and>
     map_of (rev (pm_bucketMap (MurmurShard_Init m))) b = Some i \<and>
     ring_next (pm_bucketMap (MurmurShard_Init m)) (HashUnencodedChars (pm_seed m) s) b"
proof -
  define h where "h = HashUnencodedChars (pm_seed m) s"
  obtain ps where ps: "pm_bucketMap (MurmurShard_Init m) = ps" by blast
  note b = murmur_buckets [OF assms(2-4), unfolded ps]
  have rng: "0 \<le> v \<and> v < n" if "map_of (rev ps) j = Some v" for j v
    using b(2) [of "(j, v)"] map_of_SomeD [OF that] by simp
  have f: "FindForKey env (MycatMurmurShard (MurmurShard_Init m)) k =
    (case tm_Ceiling env ps h of Some (_, ret) \<Rightarrow> Ok ret
     | None \<Rightarrow> (case tm_Min env ps of None \<Rightarrow> Err (ErrMsg ''bucket map is empty'') | Some (_, v) \<Rightarrow> Ok v))"
    unfolding FindForKey.simps MurmurShard_FindForKey_def b(3) ps h_def assms(5) andThen.simps ..
  show ?thesis
  proof (cases "tm_Ceiling env ps h")
    case (Some p)
    obtain c v where p: "p = (c, v)" by (cases p)
    show ?thesis unfolding f ps h_def [symmetric]
      using Some p Ceiling_Some [OF assms(1), of ps h c v] rng by auto
  next
    case None
    from Ceiling_None [OF assms(1) None b(1)] show ?thesis
      unfolding f ps h_def [symmetric] using None rng by auto
  qed
qed

text \<open>A concrete tree map: the least key by comparison, the last value put under it.\<close>

definition list_pick :: "(int \<times> int) list \<Rightarrow> int list \<Rightarrow> (int \<times> int) option" where
  "list_pick ps ks = (if ks = [] then None else map_option (Pair (Min (set ks))) (map_of (rev ps) (Min (set ks))))"

definition list_treemap :: Env where
  "list_treemap =
     \<lparr>zone = \<lambda>_. 0,
      tm_Ceiling = \<lambda>ps k. list_pick ps (filter (\<lambda>j. k \<le> j) (map fst ps)),
      tm_Min = \<lambda>ps. list_pick ps (map fst ps)\<rparr>"

lemma list_pick_cases:
  assumes "set ks \<subseteq> fst ` set ps"
  shows "(list_pick ps ks = None \<and> ks = []) \<or>
     (\<exists>c v. list_pick ps ks = Some (c, v) \<and> c \<in> set ks \<and> map_of (rev ps) c = Some v \<and> (\<forall>j \<in> set ks. c \<le> j))"
proof (cases "ks = []")
  case False
  then have m: "Min (set ks) \<in> set ks" by (intro Min_in) auto
  then have "map_of (rev ps) (Min (set ks)) \<noteq> None"
    using assms unfolding map_of_eq_None_iff by auto
  then obtain v where "map_of (rev ps) (Min (set ks)) = Some v" by blast
  with False m have "list_pick ps ks = Some (Min (set ks), v)" by (simp add: list_pick_def)
  with m \<open>map_of (rev ps) (Min (set ks)) = Some v\<close> show ?thesis using Min_le [of "set ks"] by blast
qed (simp add: list_pick_def)

lemma list_treemap_laws: "treemap_laws list_treemap"
  unfolding treemap_laws_def
proof (intro conjI allI)
  fix ps :: "(int \<times> int) list" and k :: int
  let ?ks = "filter (\<lambda>j. k \<le> j) (map fst ps)"
  have mem: "j \<in> set ?ks \<longleftrightarrow> j \<in> fst ` set ps \<and> k \<le> j" for j by auto
  then have "set ?ks \<subseteq> fst ` set ps" by blast
  from list_pick_cases [OF this]
  show "case tm_Ceiling list_treemap ps k of
        None \<Rightarrow> \<forall>k' \<in> fst ` set ps. k' < k
      | Some (k', v) \<Rightarrow> k \<le> k' \<and> map_of (rev ps) k' = Some v \<and> (\<forall>j \<in> fst ` set ps. k \<le> j \<longrightarrow> k' \<le> j)"
  proof
    assume a: "list_pick ps ?ks = None \<and> ?ks = []"
    then have "set ?ks = {}" by (metis set_empty)
    then have "\<not> k \<le> j" if "j \<in> fst ` set ps" for j using mem [of j] that by (simp only:) simp
    then have "\<forall>j \<in> fst ` set ps. j < k" by (simp add: not_le)
    then show ?thesis by (simp add: list_treemap_def a [THEN conjunct2] list_pick_def)
  next
    assume "\<exists>c v. list_pick ps ?ks = Some (c, v) \<and> c \<in> set ?ks \<and> map_of (rev ps) c = Some v \<and> (\<forall>j \<in> set ?ks. c \<le> j)"
    then show ?thesis using mem by (auto simp: list_treemap_def)
  qed
next
  fix ps :: "(int \<times> int) list"
  from list_pick_cases [of "map fst ps" ps]
  show "case tm_Min list_treemap ps of None \<Rightarrow> ps = []
      | Some (k', v) \<Rightarrow> map_of (rev ps) k' = Some v \<and> (\<forall>j \<in> fst ` set ps. k' \<le> j)"
    by (auto simp: list_treemap_def)
qed

theorem murmur_shard_index_witness:
  "\<exists>m i. NewMycatPartitionMurmurHashShard ''0'' ''3'' 2 = Ok m \<and>
     FindForKey list_treemap (MycatMurmurShard (MurmurShard_Init m)) (KInt64 5) = Ok i \<and> 0 \<le> i \<and> i < 2"
proof -
  have m: "NewMycatPartitionMurmurHashShard ''0'' ''3'' 2 =
    Ok \<lparr>pm_seed = 0, pm_count = 2, pm_virtualBucketTimes = 3, pm_weightMap = [], pm_bucketMap = []\<rparr>" by code_simp
  from murmur_shard_index [OF list_treemap_laws m, of "KInt64 5" "itoa 5"]
  have "\<exists>i. FindForKey list_treemap (MycatMurmurShard (MurmurShard_Init
      \<lparr>pm_seed = 0, pm_count = 2, pm_virtualBucketTimes = 3, pm_weightMap = [], pm_bucketMap = []\<rparr>)) (KInt64 5) = Ok i \<and>
      0 \<le> i \<and> i < 2"
    by (simp del: FindForKey.simps) blast
  with m show ?thesis by blast
qed

section \<open>Mycat padding mod shards\<close>

lemma times_str_0: "times_str ''0'' n = replicate n (CHR ''0'')"
  by (induction n) (simp_all add: replicate_append_same)

lemma all_digits_itoa: "0 \<le> h \<Longrightarrow> all_digits (itoa h)"
  using nat_str_digits [of h] by (simp add: itoa_def all_digits_def list_all_iff)

lemma all_digits_zeros: "all_digits (replicate n (CHR ''0''))"
  by (simp add: all_digits_def list_all_iff is_digit_def)

text \<open>The padded key of a non-negative number.\<close>

definition padded :: "MycatPartitionPaddingModShard \<Rightarrow> int \<Rightarrow> string" where
  "padded m h =
     (let s = itoa h; zeros = replicate (nat (pp_padLength m - int (length s))) (CHR ''0'')
      in if int (length s) > pp_padLength m then take (nat (pp_padLength m)) s
         else if pp_padFrom m = 0 then zeros @ s else s @ zeros)"

lemma padded_props:
  assumes "0 \<le> h" "0 < pp_padLength m"
  shows "int (length (padded m h)) = pp_padLength m" "all_digits (padded m h)"
proof -
  show "int (length (padded m h)) = pp_padLength m" using assms(2) by (simp add: padded_def Let_def)
  have "all_digits (take n (itoa h))" for n
    using all_digits_itoa [OF assms(1)] by (auto simp: all_digits_def list_all_iff dest: in_set_takeD)
  then show "all_digits (padded m h)" using all_digits_itoa [OF assms(1)] all_digits_zeros
    by (simp add: padded_def Let_def)
qed

text \<open>
  C28: a padding mod shard that passed \<^verbatim>\<open>checkParam\<close> and whose segment has at most 18 digits and lies
  inside the padded length maps every non-negative key to the decimal segment of the padded key modulo the table
  count, an index from 0 to \<^verbatim>\<open>mod - 1\<close>.
\<close>

theorem padding_mod_index:
  assumes "PaddingMod_checkParam m = Ok ()" "pp_modEnd m \<le> pp_padLength m" "pp_modEnd m - pp_modBegin m \<le> 18"
    "NumValue k = Ok h" "0 \<le> h"
  shows "FindForKey env (MycatPaddingModShard m) k =
       Ok (digits_val (take (nat (pp_modEnd m - pp_modBegin m)) (drop (nat (pp_modBegin m)) (padded m h))) mod pp_mod m) \<and>
     0 \<le> digits_val (take (nat (pp_modEnd m - pp_modBegin m)) (drop (nat (pp_modBegin m)) (padded m h))) mod pp_mod m \<and>
     digits_val (take (nat (pp_modEnd m - pp_modBegin m)) (drop (nat (pp_modBegin m)) (padded m h))) mod pp_mod m < pp_mod m"
proof -
  let ?seg = "take (nat (pp_modEnd m - pp_modBegin m)) (drop (nat (pp_modBegin m)) (padded m h))"
  have c: "2 \<le> pp_mod m" "0 \<le> pp_modBegin m" "pp_modBegin m < pp_modEnd m" "0 < pp_padLength m"
    using assms(1) by (auto simp: PaddingMod_checkParam_def split: if_splits)
  note pp = padded_props [OF assms(5) c(4)]
  have sl: "slice_of (padded m h) (pp_modBegin m) (pp_modEnd m) = Ok ?seg"
    using c pp(1) assms(2) by (simp add: slice_of_def)
  have len: "int (length ?seg) = pp_modEnd m - pp_modBegin m" using c pp(1) assms(2) by simp
  have dig: "all_digits ?seg"
    using pp(2) by (auto simp: all_digits_def list_all_iff dest: in_set_takeD in_set_dropD)
  have "atoi ?seg = Ok (digits_val ?seg)" using dig len c(3) assms(3) by (intro atoi_digits) auto
  then have p: "val_or_err (parseInt10 ?seg) = Ok (digits_val ?seg)" by (simp add: atoi_def)
  have nn: "0 \<le> digits_val ?seg" using digits_val_bounds [OF dig] by simp
  have rng: "in_i64 (digits_val ?seg)" using p atoi_range [of ?seg] by (simp add: atoi_def)
  then have "Abs (digits_val ?seg) = digits_val ?seg" using nn Abs_eq [OF rng] by (auto simp: MinInt64_def)
  then have g: "go_mod (Abs (digits_val ?seg)) (pp_mod m) = Ok (digits_val ?seg mod pp_mod m)"
    using go_mod_pos [of "pp_mod m"] c(1) nn by simp
  have "(if int (length (itoa h)) > pp_padLength m then slice_of (itoa h) 0 (pp_padLength m)
      else if pp_padFrom m = 0 then (if h < 0 then Err (ErrMsg ''padding left to a negative is not allowed'')
        else Ok (Left (itoa h) (pp_padLength m) ''0'')) else Ok (Right (itoa h) (pp_padLength m) ''0'')) = Ok (padded m h)"
    using assms(5) c(4) by (simp add: padded_def Let_def slice_of_def Left_def Right_def times_str_0)
  then have "FindForKey env (MycatPaddingModShard m) k = Ok (digits_val ?seg mod pp_mod m)"
    using assms(4) sl p g by (simp add: PaddingMod_FindForKey_def Let_def)
  then show ?thesis using c(1) by simp
qed

theorem padding_mod_index_witness:
  "PaddingMod_checkParam \<lparr>pp_padFrom = 0, pp_padLength = 6, pp_modBegin = 2, pp_modEnd = 5, pp_mod = 4\<rparr> = Ok () \<and>
   FindForKey list_treemap (MycatPaddingModShard
     \<lparr>pp_padFrom = 0, pp_padLength = 6, pp_modBegin = 2, pp_modEnd = 5, pp_mod = 4\<rparr>) (KInt64 1234) = Ok 3"
proof -
  let ?m = "\<lparr>pp_padFrom = 0, pp_padLength = 6, pp_modBegin = 2, pp_modEnd = 5, pp_mod = 4\<rparr>"
  have c: "PaddingMod_checkParam ?m = Ok ()" by code_simp
  have "digits_val (take (nat (pp_modEnd ?m - pp_modBegin ?m)) (drop (nat (pp_modBegin ?m)) (padded ?m 1234))) = 123"
    by code_simp
  with c padding_mod_index [OF c, of "KInt64 1234" 1234] show ?thesis by simp
qed

text \<open>
  C38: \<^verbatim>\<open>checkParam\<close> compares only the length of the segment with \<^verbatim>\<open>padLength\<close>. Under every shard that it
  accepts although the segment ends past the padded key, no numeric key has an index: the lookup
  panics, or reports the error for a negative key that would have to be padded on the left.
\<close>

theorem padding_mod_segment_panic:
  assumes "PaddingMod_checkParam m = Ok ()" "pp_padLength m < pp_modEnd m" "NumValue k = Ok h"
  shows "FindForKey env (MycatPaddingModShard m) k =
     (if pp_padFrom m = 0 \<and> h < 0 \<and> int (length (itoa h)) \<le> pp_padLength m
      then Err (ErrMsg ''padding left to a negative is not allowed'') else Panic PIndex)"
proof -
  have c: "0 < pp_padLength m" using assms(1) by (auto simp: PaddingMod_checkParam_def split: if_splits)
  have "slice_of s (pp_modBegin m) (pp_modEnd m) = Panic PIndex" if "int (length s) = pp_padLength m" for s :: string
    using that assms(2) by (simp add: slice_of_def)
  then show ?thesis using assms(3) c
    by (simp add: PaddingMod_FindForKey_def Let_def Left_def Right_def slice_of_def)
qed

theorem padding_mod_segment_panic_witness:
  "PaddingMod_checkParam \<lparr>pp_padFrom = 1, pp_padLength = 5, pp_modBegin = 3, pp_modEnd = 8, pp_mod = 4\<rparr> = Ok () \<and>
   FindForKey list_treemap (MycatPaddingModShard
     \<lparr>pp_padFrom = 1, pp_padLength = 5, pp_modBegin = 3, pp_modEnd = 8, pp_mod = 4\<rparr>) (KInt64 1234) = Panic PIndex"
proof -
  let ?m = "\<lparr>pp_padFrom = 1, pp_padLength = 5, pp_modBegin = 3, pp_modEnd = 8, pp_mod = 4\<rparr>"
  have c: "PaddingMod_checkParam ?m = Ok ()" by code_simp
  with padding_mod_segment_panic [OF c, of "KInt64 1234" 1234 list_treemap] show ?thesis by simp
qed

section \<open>Date shards\<close>

lemma dashed_parts:
  assumes "valid_date (y, m, d)" "0 \<le> y" "y < 10000"
  shows "zpad 4 y @ zpad 2 m @ zpad 2 d = format_ymd (y, m, d)"
    "length (zpad 4 y) = 4" "length (zpad 2 m) = 2" "length (zpad 2 d) = 2"
    "atoi (zpad 4 y) = Ok y" "atoi (zpad 4 y @ zpad 2 m) = Ok (y * 100 + m)"
proof -
  have b: "0 \<le> m" "m < 10 ^ 2" "0 \<le> d" "d < 10 ^ 2" "y < 10 ^ 4"
    using assms daysIn_bounds [of m y] by auto
  note p = zpad_props [OF b(1,2)] zpad_props [OF b(3,4)] zpad_props [OF assms(2) b(5)]
  show "zpad 4 y @ zpad 2 m @ zpad 2 d = format_ymd (y, m, d)" by simp
  show "length (zpad 4 y) = 4" "length (zpad 2 m) = 2" "length (zpad 2 d) = 2" using p by blast+
  show "atoi (zpad 4 y) = Ok y" using atoi_digits [of "zpad 4 y"] p by force
  have "digits_val (zpad 4 y @ zpad 2 m) = y * 100 + m" using p by (simp add: digits_val_app)
  then show "atoi (zpad 4 y @ zpad 2 m) = Ok (y * 100 + m)"
    using atoi_digits [of "zpad 4 y @ zpad 2 m"] p by force
qed

text \<open>
  C31: a date key written \<^verbatim>\<open>YYYY-MM-DD\<close>, with any time of day after it, has the year, the month
  number \<^verbatim>\<open>YYYYMM\<close> and the day number \<^verbatim>\<open>YYYYMMDD\<close> as its year, month and day table index, the
  same numbers that the configured date ranges expand to.
\<close>

theorem date_shard_index:
  assumes "valid_date (y, m, d)" "0 \<le> y" "y < 10000"
  shows "FindForKey env DateYearShard (KString (format_dashed (y, m, d) @ rest)) = Ok y \<and>
     FindForKey env DateMonthShard (KString (format_dashed (y, m, d) @ rest)) = Ok (y * 100 + m) \<and>
     FindForKey env DateDayShard (KString (format_dashed (y, m, d) @ rest)) = Ok (date_num (y, m, d))"
proof -
  note p = dashed_parts [OF assms]
  let ?s = "format_dashed (y, m, d) @ rest"
  obtain Y M D where Y: "zpad 4 y = Y" "zpad 2 m = M" "zpad 2 d = D" by blast
  have s: "?s = Y @ CHR ''-'' # M @ CHR ''-'' # D @ rest" using Y by simp
  have len: "length Y = 4" "length M = 2" "length D = 2" using p(2-4) Y by simp_all
  have a: "slice_of ?s 0 4 = Ok Y" "slice_of ?s 5 7 = Ok M" "slice_of ?s 8 10 = Ok D" "\<not> length ?s < 10"
    unfolding s using len by (simp_all add: slice_of_def)
  have n: "atoi Y = Ok y" "atoi (Y @ M) = Ok (y * 100 + m)" "atoi (Y @ M @ D) = Ok (date_num (y, m, d))"
    using p(5,6) atoi_format_ymd [OF assms] Y by simp_all
  show ?thesis
    using a n by (simp add: getNumYear_def getNumYearMonth_def getNumYearMonthDay_def day_digits_def
        month_digits_def atoi_date_def Let_def del: format_dashed.simps date_num.simps)
qed

theorem date_shard_index_witness:
  "FindForKey list_treemap DateDayShard (KString ''2016-02-29 23:59:59'') = Ok 20160229"
proof -
  have "valid_date (2016, 2, 29)" by code_simp
  from date_shard_index [OF this, of list_treemap "'' 23:59:59''"]
  have "FindForKey list_treemap DateDayShard (KString (format_dashed (2016, 2, 29) @ '' 23:59:59'')) = Ok 20160229" by simp
  moreover have "format_dashed (2016, 2, 29) @ '' 23:59:59'' = ''2016-02-29 23:59:59''" by code_simp
  ultimately show ?thesis by (simp only:)
qed

end
