(* ===== verification/Rule_Props.thy ===== *)
theory Rule_Props
  imports Rules Shard_Props
begin

text \<open>
  What a parsed rule promises: the tables it numbers, the slice of each table, the database of each
  table, and that the index found for a key names one of these tables. And what the router
  promises: a rule is stored under its own database and table.
\<close>

section \<open>Association lists\<close>

lemma foldl_update_map_of:
  "map_of (foldl (\<lambda>m j. AList.update (f j) i m) m js) k = (if k \<in> f ` set js then Some i else map_of m k)"
  by (induction js arbitrary: m) (auto simp: update_conv')

lemma foldl_update_distinct:
  "distinct (map fst m) \<Longrightarrow> distinct (map fst (foldl (\<lambda>m j. AList.update (f j) i m) m js))"
  by (induction js arbitrary: m) (auto simp: distinct_update)

lemma length_alist: "distinct (map fst m) \<Longrightarrow> length m = card (dom (map_of m))"
  by (metis distinct_card dom_map_of_conv_image_fst length_map list.set_map)

section \<open>The tables of a hash-like rule\<close>

lemma i64_shift_image:
  assumes "0 \<le> s" "0 \<le> loc" "s + loc \<le> MaxInt64"
  shows "map (\<lambda>j. i64 (j + s)) [0..loc - 1] = [s..s + loc - 1]"
proof -
  have "i64 (j + s) = j + s" if "j \<in> {0..loc - 1}" for j
    using that assms by (intro i64_id) (auto simp: in_i64_def MinInt64_def)
  then have "map (\<lambda>j. i64 (j + s)) [0..loc - 1] = map (\<lambda>j. j + s) [0..loc - 1]" by simp
  also have "\<dots> = [s..s + loc - 1]"
    by (rule nth_equalityI) (simp_all add: nth_upto)
  finally show ?thesis .
qed

lemma map_of_slice_tables:
  assumes "0 \<le> s" "0 \<le> loc" "s + loc \<le> MaxInt64"
  shows "map_of (slice_tables i s loc m) k = (if s \<le> k \<and> k < s + loc then Some i else map_of m k)"
proof -
  have "(\<lambda>j. i64 (j + s)) ` set [0..loc - 1] = {s..s + loc - 1}"
    using i64_shift_image [OF assms] by (metis set_map set_upto)
  then show ?thesis by (simp only: slice_tables_def foldl_update_map_of) auto
qed

lemma hash_loop_props:
  assumes "hash_loop i s locs sub m = (sub', m')" "\<forall>l \<in> set locs. 0 \<le> l" "0 \<le> s" "s + sum_list locs \<le> MaxInt64"
    "distinct (map fst m)"
  shows "sub' = sub @ [s..s + sum_list locs - 1] \<and> distinct (map fst m') \<and>
     (\<forall>k. map_of m' k = map_of m k \<and> \<not> (s \<le> k \<and> k < s + sum_list locs) \<or>
          s \<le> k \<and> k < s + sum_list locs \<and> (\<exists>n < length locs. map_of m' k = Some (i + int n)))"
  using assms
proof (induction locs arbitrary: i s sub m)
  case (Cons l locs)
  have nn: "0 \<le> l" "0 \<le> sum_list locs" "s + l + sum_list locs \<le> MaxInt64"
    using Cons.prems by (auto intro: sum_list_nonneg)
  have "i64 (s + l) = s + l" using Cons.prems nn by (intro i64_id) (auto simp: in_i64_def MinInt64_def)
  moreover have "map (\<lambda>j. i64 (j + s)) [0..l - 1] = [s..s + l - 1]"
    using nn Cons.prems by (intro i64_shift_image) auto
  ultimately have eq: "hash_loop (i + 1) (s + l) locs (sub @ [s..s + l - 1]) (slice_tables i s l m) = (sub', m')"
    using Cons.prems(1) by simp
  have "distinct (map fst (slice_tables i s l m))"
    using Cons.prems(5) by (simp add: slice_tables_def foldl_update_distinct)
  with Cons.IH [OF eq] Cons.prems nn
  have IH: "sub' = (sub @ [s..s + l - 1]) @ [s + l..s + l + sum_list locs - 1]" "distinct (map fst m')"
    "\<And>k. map_of m' k = map_of (slice_tables i s l m) k \<and> \<not> (s + l \<le> k \<and> k < s + l + sum_list locs) \<or>
          s + l \<le> k \<and> k < s + l + sum_list locs \<and> (\<exists>n < length locs. map_of m' k = Some (i + 1 + int n))"
    by auto
  have st: "map_of (slice_tables i s l m) k = (if s \<le> k \<and> k < s + l then Some i else map_of m k)" for k
    using nn Cons.prems by (intro map_of_slice_tables) auto
  have "[s..s + l - 1] @ [s + l..s + l + sum_list locs - 1] = [s..s + sum_list (l # locs) - 1]"
    using upto_split2 [of s "s + l - 1" "s + l + sum_list locs - 1"] nn by (cases "l = 0") (simp_all add: add.assoc)
  moreover have "map_of m' k = map_of m k \<and> \<not> (s \<le> k \<and> k < s + sum_list (l # locs)) \<or>
          s \<le> k \<and> k < s + sum_list (l # locs) \<and> (\<exists>n < length (l # locs). map_of m' k = Some (i + int n))" for k
  proof (cases "s + l \<le> k \<and> k < s + l + sum_list locs")
    case True
    then obtain n where "n < length locs" "map_of m' k = Some (i + 1 + int n)" using IH(3) [of k] by auto
    then show ?thesis using True nn by (intro disjI2 conjI exI [of _ "Suc n"]) auto
  next
    case False
    then have "map_of m' k = (if s \<le> k \<and> k < s + l then Some i else map_of m k)" using IH(3) [of k] st by auto
    then show ?thesis using False nn by (cases "s \<le> k \<and> k < s + l") auto
  qed
  ultimately show ?case using IH(1,2) by simp
qed auto

lemma parseHash_tables:
  assumes "parseHashRuleSliceInfos locs slices = Ok (sub, m)" "\<forall>l \<in> set locs. 0 \<le> l" "sum_list locs \<le> MaxInt64"
  shows "sub = [0..sum_list locs - 1]" "int (length m) = sum_list locs"
    "i \<in> set sub \<Longrightarrow> \<exists>n < length slices. map_of m i = Some (int n)"
proof -
  have h: "hash_loop 0 0 locs [] [] = (sub, m)" "length locs = length slices"
    using assms(1) by (auto simp: parseHashRuleSliceInfos_def split: if_splits)
  note p = hash_loop_props [OF h(1) assms(2)]
  show s: "sub = [0..sum_list locs - 1]" using p assms(3) by simp
  have nn: "0 \<le> sum_list locs" using assms(2) by (simp add: sum_list_nonneg)
  have pk: "map_of m k = None \<and> \<not> (0 \<le> k \<and> k < sum_list locs) \<or>
      0 \<le> k \<and> k < sum_list locs \<and> (\<exists>n < length slices. map_of m k = Some (int n))" for k
    using p assms(3) h(2) by (simp del: map_of_eq_Some_iff)
  have "k \<in> dom (map_of m) \<longleftrightarrow> k \<in> {0..<sum_list locs}" for k using pk [of k] by auto
  then have "dom (map_of m) = {0..<sum_list locs}" by (rule set_eqI)
  moreover have "distinct (map fst m)" using p assms(3) by simp
  ultimately show "int (length m) = sum_list locs" using length_alist [of m] nn by simp
  show "\<exists>n < length slices. map_of m i = Some (int n)" if "i \<in> set sub"
    using pk [of i] that s by auto
qed

text \<open>
  A rule of hash, mod or range type with non-negative locations numbers its tables 0, 1, up to
  the sum of the locations, and every table belongs to a configured slice.
\<close>

lemma hash_rule_tables:
  assumes "parseHashRuleSliceInfos locs slices = Ok (sub, m)" "\<forall>l \<in> set locs. 0 \<le> l" "sum_list locs \<le> MaxInt64"
  shows "sub = [0..sum_list locs - 1] \<and> int (length m) = sum_list locs \<and>
     (\<forall>i \<in> set sub. \<exists>n < length slices. map_of m i = Some (int n))"
  using parseHash_tables [OF assms] by blast

theorem hash_rule_tables_witness:
  "\<exists>sub m. parseHashRuleSliceInfos [2, 1] [''s0'', ''s1''] = Ok (sub, m) \<and> sub = [0..2] \<and> int (length m) = 3"
proof -
  have "parseHashRuleSliceInfos [2, 1] [''s0'', ''s1''] = Ok ([0, 1, 2], [(0, 0), (1, 0), (2, 1)])" by code_simp
  from this hash_rule_tables [OF this] show ?thesis by (simp add: MaxInt64_def)
qed

section \<open>Keys are routed to configured tables\<close>

lemma go_mod_less:
  assumes "0 < n" "go_mod a n = Ok i"
  shows "i < n"
proof (cases "0 \<le> a")
  case True
  then show ?thesis using assms go_mod_pos [of n a] by auto
next
  case False
  then have "i = - (\<bar>a\<bar> mod n)" using assms go_mod_neg [of n a] by simp
  moreover have "0 \<le> \<bar>a\<bar> mod n" using assms(1) by simp
  ultimately show ?thesis using assms(1) by linarith
qed

lemma go_mod_zero: "go_mod a 0 \<noteq> Ok i"
  by (simp add: go_mod_def)

lemma mod_shard_less:
  assumes "ModShard_FindForKey n k = Ok i" "0 \<le> n"
  shows "i < n"
  using assms go_mod_less go_mod_zero by (cases "n = 0") (auto simp: ModShard_FindForKey_def)

lemma hash_shard_less:
  assumes "HashShard_FindForKey n k = Ok i" "0 \<le> n" "n \<le> MaxInt64"
  shows "i < n"
proof -
  have u: "u64 n = n" using assms(2,3) by (intro u64_id) (auto simp: MaxInt64_def)
  obtain h where h: "n \<noteq> 0" "i = i64 (h mod n)"
    using assms(1) u by (auto simp: HashShard_FindForKey_def split: if_splits)
  then have "0 < n" using assms(2) by simp
  then have "0 \<le> h mod n" "h mod n < n" by simp_all
  then have "i64 (h mod n) = h mod n" using assms(3) by (intro i64_id) (simp add: in_i64_def MinInt64_def)
  then show ?thesis using h \<open>h mod n < n\<close> by simp
qed

lemma range_index_bounds: "range_index j rs v = Some i \<Longrightarrow> j \<le> i \<and> i < j + int (length rs)"
proof (induction rs arbitrary: j)
  case (Cons r rs)
  show ?case
  proof (cases "nkr_Contains r v")
    case False
    then have "range_index (j + 1) rs v = Some i" using Cons.prems by simp
    from Cons.IH [OF this] show ?thesis by simp
  qed (use Cons.prems in simp)
qed simp

text \<open>The rule types whose tables are numbered from zero.\<close>

definition numbered_type :: "string \<Rightarrow> bool" where
  "numbered_type t \<longleftrightarrow> t \<in> {ShardHash, ShardMod, ShardRange} \<or> IsMycatShardingRule t"

lemma parseMycat_hash:
  assumes "parseMycatHashRuleSliceInfos locs slices dbs = Ok (sub, m)"
  shows "parseHashRuleSliceInfos locs slices = Ok (sub, m)"
    "\<exists>real. getRealDatabases dbs = Ok real \<and> length real = length m"
  using assms by (auto simp: parseMycatHashRuleSliceInfos_def split: if_splits)

lemma numbered_slice_infos:
  assumes "parseRuleSliceInfos cfg = Ok (sub, m, shard)" "numbered_type (cfg_Type cfg)"
  shows "parseHashRuleSliceInfos (cfg_Locations cfg) (cfg_Slices cfg) = Ok (sub, m)"
  using assms parseMycat_hash(1)
  by (auto simp: parseRuleSliceInfos_def numbered_type_def IsMycatShardingRule_def Let_def shard_types
      split: if_splits)

lemma numbered_shard_less:
  assumes "parseRuleSliceInfos cfg = Ok (sub, m, shard)" "numbered_type (cfg_Type cfg)"
    "int (length m) < MaxInt64" "FindForKey env shard k = Ok i"
    "cfg_Type cfg = ShardMycatMURMUR \<longrightarrow> treemap_laws env"
  shows "i < int (length m)"
proof -
  let ?n = "int (length m)"
  have n: "0 \<le> ?n" "?n \<le> MaxInt64" using assms(3) by simp_all
  consider "shard = HashShard ?n" | "shard = ModShard ?n" | "shard = MycatModShard ?n"
    | rs where "shard = NumRangeShard rs" "length rs = length m"
    | l cs ls where "LongShard_Init (NewMycatPartitionLongShard ?n cs ls) = Ok l" "shard = MycatLongShard l"
    | l cs ls hs where "StringShard_Init (NewMycatPartitionStringShard ?n cs ls hs) = Ok l" "shard = MycatStringShard l"
    | mm ss vs where "NewMycatPartitionMurmurHashShard ss vs ?n = Ok mm" "shard = MycatMurmurShard (MurmurShard_Init mm)"
        "cfg_Type cfg = ShardMycatMURMUR"
    | pm a b c d where "GetMycatPartitionPaddingModShard a b c d ?n = Ok pm" "shard = MycatPaddingModShard pm"
    using assms(1,2)
    by (auto simp: parseRuleSliceInfos_def numbered_type_def IsMycatShardingRule_def Let_def shard_types split: if_splits)
  then show ?thesis
  proof cases
    case 1
    then show ?thesis using assms(4) hash_shard_less [OF _ n] by simp
  next
    case 2
    then show ?thesis using assms(4) mod_shard_less [OF _ n(1)] by simp
  next
    case 3
    then show ?thesis using assms(4) mod_shard_less [OF _ n(1)] by simp
  next
    case (4 rs)
    then show ?thesis using assms(4) range_index_bounds [of 0 rs _ i]
      by (auto simp: NumRangeShard_FindForKey_def split: option.splits)
  next
    case (5 l)
    then obtain h where "NumValue k = Ok h" using assms(4) by (auto simp: LongShard_FindForKey_def)
    from long_shard_index' [OF 5(1) n(1) assms(3) this, of env] show ?thesis using 5 assms(4) by simp
  next
    case (6 l)
    then obtain s where "GetString k = Ok s" using assms(4) by (auto simp: StringShard_FindForKey_def)
    from string_shard_index' [OF 6(1) n(1) assms(3) this, of env] show ?thesis using 6 assms(4) by simp
  next
    case (7 mm)
    show ?thesis using murmur_shard_less [OF _ 7(1)] 7 assms(4,5) by simp
  next
    case (8 pm)
    then have "pp_mod pm = ?n" by (auto simp: GetMycatPartitionPaddingModShard_def)
    then show ?thesis using 8 assms(4) go_mod_less [of ?n _ i] go_mod_zero n(1)
      by (cases "?n = 0") (auto simp: PaddingMod_FindForKey_def Let_def)
  qed
qed

text \<open>What \<^verbatim>\<open>parseRule\<close> takes over from the slice infos.\<close>

lemma parseRule_fields:
  assumes "parseRule cfg = Ok r"
  shows "parseRuleSliceInfos cfg = Ok (br_subTableIndexes r, br_tableToSlice r, br_shard r)"
    "br_db r = cfg_DB cfg" "br_table r = toLower (cfg_Table cfg)" "br_slices r = cfg_Slices cfg"
    "br_ruleType r = cfg_Type cfg"
proof -
  obtain sub m shard where i: "parseRuleSliceInfos cfg = Ok (sub, m, shard)"
    using assms by (auto simp: parseRule_def)
  have f: "br_subTableIndexes r = sub \<and> br_tableToSlice r = m \<and> br_shard r = shard \<and> br_db r = cfg_DB cfg \<and>
      br_table r = toLower (cfg_Table cfg) \<and> br_slices r = cfg_Slices cfg \<and> br_ruleType r = cfg_Type cfg"
    using assms i by (auto simp: parseRule_def Let_def split: if_splits)
  then show "parseRuleSliceInfos cfg = Ok (br_subTableIndexes r, br_tableToSlice r, br_shard r)" using i by simp
  from f show "br_db r = cfg_DB cfg" "br_table r = toLower (cfg_Table cfg)" "br_slices r = cfg_Slices cfg"
    "br_ruleType r = cfg_Type cfg" by blast+
qed

text \<open>
  C19: under a rule of type hash, mod, range or one of the Mycat types, with non-negative locations,
  every key that has a non-negative table index is routed to a table of the rule, and that table
  lies on one of the configured slices. No such lookup falls outside the tables the rule numbers.
\<close>

theorem numbered_rule_routes:
  assumes "parseRule cfg = Ok r" "numbered_type (cfg_Type cfg)" "\<forall>l \<in> set (cfg_Locations cfg). 0 \<le> l"
    "sum_list (cfg_Locations cfg) < MaxInt64" "cfg_Type cfg = ShardMycatMURMUR \<longrightarrow> treemap_laws env"
    "FindTableIndex env (RBase r) k = Ok i" "0 \<le> i"
  shows "i \<in> set (GetSubTableIndexes (RBase r)) \<and>
     (\<exists>s \<in> set (cfg_Slices cfg). GetSlice (RBase r) (GetSliceIndexFromTableIndex (RBase r) i) = Ok s)"
proof -
  note f = parseRule_fields [OF assms(1)]
  have h: "parseHashRuleSliceInfos (cfg_Locations cfg) (cfg_Slices cfg) = Ok (br_subTableIndexes r, br_tableToSlice r)"
    by (rule numbered_slice_infos [OF f(1) assms(2)])
  note t = parseHash_tables [OF h assms(3)]
  have len: "int (length (br_tableToSlice r)) = sum_list (cfg_Locations cfg)" using t(2) assms(4) by simp
  have "i < int (length (br_tableToSlice r))"
    using numbered_shard_less [OF f(1) assms(2) _ _ assms(5)] assms(4,6) len
    by (simp add: FindTableIndex_def GetShard_def)
  then have i: "i \<in> set (br_subTableIndexes r)" using t(1) assms(4,7) len by simp
  with t(3) assms(4) obtain n where n: "n < length (cfg_Slices cfg)" "map_of (br_tableToSlice r) i = Some (int n)" by auto
  show ?thesis using i n f(4)
    by (auto simp: rule_methods br_GetSlice_def br_GetSliceIndexFromTableIndex_def intro!: bexI [of _ "cfg_Slices cfg ! n"])
qed

definition example_cfg :: ShardCfg where
  "example_cfg =
     \<lparr>cfg_DB = ''db'', cfg_Table = ''Tbl'', cfg_ParentTable = [], cfg_Type = ShardMycatMod, cfg_Key = ''ID'',
      cfg_Locations = [2, 2], cfg_Slices = [''slice-0'', ''slice-1''], cfg_DateRange = [], cfg_TableRowLimit = 0,
      cfg_Databases = [''db_[0-3]''], cfg_PartitionCount = [], cfg_PartitionLength = [], cfg_HashSlice = [],
      cfg_Seed = [], cfg_VirtualBucketTimes = [], cfg_PadFrom = [], cfg_PadLength = [], cfg_ModBegin = [],
      cfg_ModEnd = []\<rparr>"

lemma example_rule:
  "parseRule example_cfg =
     Ok \<lparr>br_db = ''db'', br_table = ''tbl'', br_shardingColumn = ''id'', br_ruleType = ShardMycatMod,
         br_slices = [''slice-0'', ''slice-1''], br_subTableIndexes = [0, 1, 2, 3],
         br_tableToSlice = [(0, 0), (1, 0), (2, 1), (3, 1)], br_shard = MycatModShard 4,
         br_mycatDatabases = [''db_0'', ''db_1'', ''db_2'', ''db_3''],
         br_mycatDatabaseToTableIndexMap = [(''db_0'', 0), (''db_1'', 1), (''db_2'', 2), (''db_3'', 3)]\<rparr>"
  by code_simp

theorem numbered_rule_routes_witness:
  "\<exists>r. parseRule example_cfg = Ok r \<and> FindTableIndex list_treemap (RBase r) (KInt64 7) = Ok 3 \<and>
       3 \<in> set (GetSubTableIndexes (RBase r))"
proof -
  obtain r where r: "parseRule example_cfg = Ok r" "br_shard r = MycatModShard 4" using example_rule by simp
  have "ModShard_FindForKey 4 (KInt64 7) = Ok 3" by code_simp
  then have f: "FindTableIndex list_treemap (RBase r) (KInt64 7) = Ok 3"
    using r(2) by (simp add: FindTableIndex_def GetShard_def)
  have t: "numbered_type (cfg_Type example_cfg)" "cfg_Locations example_cfg = [2, 2]" "cfg_Type example_cfg \<noteq> ShardMycatMURMUR"
    by code_simp+
  from numbered_rule_routes [OF r(1) t(1) _ _ _ f] t r(1) f show ?thesis by (auto simp: MaxInt64_def)
qed

section \<open>Databases of Mycat rules\<close>

lemma index_databases_snoc:
  "index_databases (dbs @ [db]) = AList.update db (int (length dbs)) (index_databases dbs)"
  by (simp add: index_databases_def enumerate_append_eq)

lemma map_of_index_databases:
  "distinct dbs \<Longrightarrow> i < length dbs \<Longrightarrow> map_of (index_databases dbs) (dbs ! i) = Some (int i)"
proof (induction dbs rule: rev_induct)
  case (snoc db dbs)
  then show ?case
    by (cases "i < length dbs") (auto simp: index_databases_snoc update_conv' nth_append less_Suc_eq)
qed simp

text \<open>
  C33: every table of a Mycat rule has a physical database, distinct databases lead back to their
  tables. The table index just past the last one passes the range guard, and the lookup panics.
\<close>

theorem mycat_rule_databases:
  assumes "parseRule cfg = Ok r" "IsMycatShardingRule (cfg_Type cfg)" "\<forall>l \<in> set (cfg_Locations cfg). 0 \<le> l"
    "sum_list (cfg_Locations cfg) < MaxInt64"
  shows "(\<forall>i \<in> set (br_subTableIndexes r). \<exists>db. br_GetDatabaseNameByTableIndex r i = Ok db \<and>
            (distinct (br_mycatDatabases r) \<longrightarrow> br_GetTableIndexByDatabaseName r db = Some i)) \<and>
         br_GetDatabaseNameByTableIndex r (int (length (br_subTableIndexes r))) = Panic PIndex"
proof -
  note f = parseRule_fields [OF assms(1)]
  have num: "numbered_type (cfg_Type cfg)" using assms(2) by (simp add: numbered_type_def)
  note t = parseHash_tables [OF numbered_slice_infos [OF f(1) num] assms(3)]
  obtain real where real: "getRealDatabases (cfg_Databases cfg) = Ok real" "length real = length (br_tableToSlice r)"
    using f(1) assms(2) parseMycat_hash(2)
    by (fastforce simp: parseRuleSliceInfos_def IsMycatShardingRule_def Let_def shard_types split: if_splits)
  have db: "br_mycatDatabases r = real" "br_mycatDatabaseToTableIndexMap r = index_databases real"
    using assms(1,2) real(1) by (auto simp: parseRule_def Let_def)
  have len: "int (length real) = sum_list (cfg_Locations cfg)" "int (length (br_subTableIndexes r)) = int (length real)"
    using real(2) t(1,2) assms(4) by simp_all
  have my: "IsMycatShardingRule (br_ruleType r)" using assms(2) f(5) by simp
  have "\<exists>d. br_GetDatabaseNameByTableIndex r i = Ok d \<and> (distinct real \<longrightarrow> br_GetTableIndexByDatabaseName r d = Some i)"
    if "i \<in> set (br_subTableIndexes r)" for i
  proof -
    have "0 \<le> i" "i < int (length real)" using that t(1) assms(4) len(1) by simp_all
    moreover from this have "map_of (index_databases real) (real ! nat i) = Some i" if "distinct real"
      using map_of_index_databases [OF that, of "nat i"] by simp
    ultimately show ?thesis using my db len(2)
      by (simp add: br_GetDatabaseNameByTableIndex_def br_GetTableIndexByDatabaseName_def)
  qed
  moreover have "br_GetDatabaseNameByTableIndex r (int (length (br_subTableIndexes r))) = Panic PIndex"
    using my db len(2) by (simp add: br_GetDatabaseNameByTableIndex_def at_def)
  ultimately show ?thesis using db(1) by simp
qed

theorem mycat_rule_databases_witness:
  "\<exists>r. parseRule example_cfg = Ok r \<and> br_GetDatabaseNameByTableIndex r 2 = Ok ''db_2'' \<and>
       br_GetDatabaseNameByTableIndex r 4 = Panic PIndex"
proof -
  obtain r where r: "parseRule example_cfg = Ok r" "br_subTableIndexes r = [0, 1, 2, 3]" "br_ruleType r = ShardMycatMod"
    "br_mycatDatabases r = [''db_0'', ''db_1'', ''db_2'', ''db_3'']"
    using example_rule by simp
  have t: "IsMycatShardingRule (cfg_Type example_cfg)" "cfg_Locations example_cfg = [2, 2]" by code_simp+
  from mycat_rule_databases [OF r(1) t(1)] t(2) r
  have "br_GetDatabaseNameByTableIndex r 4 = Panic PIndex" by (simp add: MaxInt64_def)
  moreover have "br_GetDatabaseNameByTableIndex r 2 = Ok ''db_2''"
    using r by (simp add: br_GetDatabaseNameByTableIndex_def IsMycatShardingRule_def)
  ultimately show ?thesis using r(1) by blast
qed

section \<open>Date rules\<close>

lemma sorted_wrt_append_last:
  assumes "sorted_wrt (<) (xs :: int list)" "sorted_wrt (<) ys" "xs \<noteq> [] \<Longrightarrow> ys \<noteq> [] \<and> last xs < hd ys"
  shows "sorted_wrt (<) (xs @ ys)"
proof (cases "xs = []")
  case False
  have "x \<le> last xs" if "x \<in> set xs" for x
    using that assms(1) False by (metis append_butlast_last_id less_imp_le order_refl set_ConsD sorted_wrt_append rotate1.simps(2) set_rotate1 list.set_intros(1))
  moreover have "hd ys \<le> y" if "y \<in> set ys" for y
    using that assms(2) by (cases ys) auto
  ultimately show ?thesis using assms False by (fastforce simp: sorted_wrt_append)
qed (use assms in simp)

lemma date_loop_props:
  assumes "date_loop parse i rs sub m = Ok (sub', m')" "sorted_wrt (<) sub"
    "\<And>r l. parse r = Ok l \<Longrightarrow> sorted_wrt (<) l"
    "\<And>v. v \<in> set sub \<Longrightarrow> \<exists>n. 0 \<le> n \<and> n < i \<and> map_of m v = Some n" "0 \<le> i"
  shows "sorted_wrt (<) sub' \<and> (\<forall>v \<in> set sub'. \<exists>n. 0 \<le> n \<and> n < i + int (length rs) \<and> map_of m' v = Some n)"
  using assms
proof (induction rs arbitrary: i sub m)
  case (Cons r rs)
  obtain numbers where n: "parse r = Ok numbers" "sub \<noteq> [] \<Longrightarrow> numbers \<noteq> [] \<and> last sub < hd numbers"
    "date_loop parse (i + 1) rs (sub @ numbers) (foldl (\<lambda>m v. AList.update v i m) m numbers) = Ok (sub', m')"
    using Cons.prems(1) by (auto simp: at_def hd_conv_nth split: if_splits)
  have s: "sorted_wrt (<) (sub @ numbers)"
    using sorted_wrt_append_last [OF Cons.prems(2) Cons.prems(3) [OF n(1)] n(2)] .
  have m: "map_of (foldl (\<lambda>m v. AList.update v i m) m numbers) v = (if v \<in> set numbers then Some i else map_of m v)" for v
    using foldl_update_map_of [where f = "\<lambda>v. v" and i = i and m = m and js = numbers and k = v] by simp
  have "\<exists>n. 0 \<le> n \<and> n < i + 1 \<and> map_of (foldl (\<lambda>m v. AList.update v i m) m numbers) v = Some n"
    if "v \<in> set (sub @ numbers)" for v
    using that Cons.prems(4) [of v] Cons.prems(5) unfolding m by (cases "v \<in> set numbers") force+
  from Cons.IH [OF n(3) s Cons.prems(3) this] Cons.prems(5) show ?case by (simp add: add.assoc)
qed auto

lemma date_rule_sorted:
  assumes "parseRule cfg = Ok r" "cfg_Type cfg \<in> {ShardDay, ShardMonth, ShardYear}"
  shows "sorted_wrt (<) (br_subTableIndexes r)" "br_shard r \<in> {DateYearShard, DateMonthShard, DateDayShard}"
    "\<forall>v \<in> set (br_subTableIndexes r). \<exists>n. 0 \<le> n \<and> n < int (length (cfg_Slices cfg)) \<and> map_of (br_tableToSlice r) v = Some n"
proof -
  note f = parseRule_fields [OF assms(1)]
  obtain parse where p: "parse \<in> {ParseDayRange, ParseMonthRange, ParseYearRange}"
    "date_loop parse 0 (cfg_DateRange cfg) [] [] = Ok (br_subTableIndexes r, br_tableToSlice r)"
    "length (cfg_DateRange cfg) = length (cfg_Slices cfg)" "br_shard r \<in> {DateYearShard, DateMonthShard, DateDayShard}"
    using f(1) assms(2)
    by (auto simp: parseRuleSliceInfos_def Let_def shard_types parseDateDayRuleSliceInfos_def
        parseDateMonthRuleSliceInfos_def parseDateYearRuleSliceInfos_def split: if_splits)
  have "sorted_wrt (<) l" if "parse x = Ok l" for x l
    using that p(1) ParseDayRange_sorted ParseMonthRange_sorted ParseYearRange_sorted by auto
  from date_loop_props [OF p(2) _ this] p(3)
  show "sorted_wrt (<) (br_subTableIndexes r)"
    "\<forall>v \<in> set (br_subTableIndexes r). \<exists>n. 0 \<le> n \<and> n < int (length (cfg_Slices cfg)) \<and> map_of (br_tableToSlice r) v = Some n"
    by simp_all
  show "br_shard r \<in> {DateYearShard, DateMonthShard, DateDayShard}" by (rule p(4))
qed

text \<open>
  C23: a day, month or year rule numbers its tables in strictly ascending order over all its ranges,
  which the overlap check guarantees, and every table belongs to a configured slice.
\<close>

theorem date_rule_tables:
  assumes "parseRule cfg = Ok r" "cfg_Type cfg \<in> {ShardDay, ShardMonth, ShardYear}"
  shows "sorted_wrt (<) (br_subTableIndexes r) \<and>
     (\<forall>i \<in> set (br_subTableIndexes r). \<exists>s \<in> set (cfg_Slices cfg).
        br_GetSlice r (br_GetSliceIndexFromTableIndex r i) = Ok s)"
proof -
  note f = parseRule_fields [OF assms(1)]
  note d = date_rule_sorted(1,3) [OF assms]
  have "\<exists>s \<in> set (cfg_Slices cfg). br_GetSlice r (br_GetSliceIndexFromTableIndex r i) = Ok s"
    if i: "i \<in> set (br_subTableIndexes r)" for i
  proof -
    obtain n where "0 \<le> n" "n < int (length (cfg_Slices cfg))" "map_of (br_tableToSlice r) i = Some n" using d(2) i by blast
    then show ?thesis using f(4)
      by (intro bexI [of _ "cfg_Slices cfg ! nat n"]) (simp_all add: br_GetSlice_def br_GetSliceIndexFromTableIndex_def)
  qed
  with d(1) show ?thesis by blast
qed

definition example_date_cfg :: ShardCfg where
  "example_date_cfg = example_cfg\<lparr>cfg_Type := ShardMonth, cfg_DateRange := [''201511-201601'', ''201602''], cfg_Databases := []\<rparr>"

theorem date_rule_tables_witness:
  "\<exists>r. parseRule example_date_cfg = Ok r \<and> br_subTableIndexes r = [201511, 201512, 201601, 201602] \<and>
       sorted_wrt (<) (br_subTableIndexes r)"
proof -
  have e: "parseRule example_date_cfg = Ok \<lparr>br_db = ''db'', br_table = ''tbl'', br_shardingColumn = ''id'', br_ruleType = ShardMonth,
         br_slices = [''slice-0'', ''slice-1''], br_subTableIndexes = [201511, 201512, 201601, 201602],
         br_tableToSlice = [(201511, 0), (201512, 0), (201601, 0), (201602, 1)], br_shard = DateMonthShard,
         br_mycatDatabases = [], br_mycatDatabaseToTableIndexMap = []\<rparr>"
    by code_simp
  have "cfg_Type example_date_cfg \<in> {ShardDay, ShardMonth, ShardYear}" by code_simp
  from date_rule_tables [OF e this] e show ?thesis by simp
qed

section \<open>The router\<close>

text \<open>A rule is filed under its own database and table, and a linked rule under a parent of its database.\<close>

definition rules_wf :: "(string \<rightharpoonup> (string \<rightharpoonup> Rule)) \<Rightarrow> bool" where
  "rules_wf rules \<longleftrightarrow>
     (\<forall>db m t r. rules db = Some m \<longrightarrow> m t = Some r \<longrightarrow>
        GetDB r = db \<and> GetTable r = t \<and> toLower t = t \<and> br_db (base_of r) = db \<and> GetType r \<noteq> ShardLinked)"

lemma rules_wf_set:
  assumes "rules_wf rules" "GetDB r = db" "GetTable r = t" "toLower t = t" "br_db (base_of r) = db" "GetType r \<noteq> ShardLinked"
  shows "rules_wf (set_rule rules db t r)"
  using assms unfolding rules_wf_def set_rule_def by (auto split: option.splits if_splits)

lemma router_loop_base:
  assumes "router_loop names (shard # shards) rules linked = Ok res" "cfg_Type shard \<noteq> ShardLinked"
  shows "\<exists>r. parseRule shard = Ok r \<and>
     router_loop names shards (set_rule rules (br_db r) (br_table r) (RBase (with_ns_slices names r))) linked = Ok res"
proof -
  obtain r where r: "parseRule shard = Ok r" using assms by (auto split: if_splits)
  have "router_loop names shards (set_rule rules (br_db r) (br_table r) (RBase (with_ns_slices names r))) linked = Ok res"
    using assms r by (auto simp: Let_def split: if_splits option.splits)
  with r show ?thesis by blast
qed

lemma router_loop_wf:
  "router_loop names shards rules linked = Ok (rules', linked') \<Longrightarrow> rules_wf rules \<Longrightarrow> rules_wf rules'"
proof (induction shards arbitrary: rules linked)
  case (Cons shard shards)
  show ?case
  proof (cases "cfg_Type shard = ShardLinked")
    case True
    then show ?thesis using Cons by (auto split: if_splits)
  next
    case False
    obtain r where r: "parseRule shard = Ok r"
      "router_loop names shards (set_rule rules (br_db r) (br_table r) (RBase (with_ns_slices names r))) linked = Ok (rules', linked')"
      using router_loop_base [OF Cons.prems(1) False] by blast
    note f = parseRule_fields [OF r(1)]
    have "rules_wf (set_rule rules (br_db r) (br_table r) (RBase (with_ns_slices names r)))"
      using Cons.prems(2) f False by (intro rules_wf_set) (auto simp: GetType_def toLower_idem)
    with Cons.IH [OF r(2)] show ?thesis .
  qed
qed auto

lemma createLinkedRule_props:
  assumes "createLinkedRule rules shard = Ok l" "rules_wf rules"
  shows "lr_table l = toLower (cfg_Table shard)" "br_db (lr_linkToRule l) = lr_db l" "br_ruleType (lr_linkToRule l) \<noteq> ShardLinked"
    "\<exists>m. rules (lr_db l) = Some m \<and> m (br_table (lr_linkToRule l)) = Some (RBase (lr_linkToRule l))"
proof -
  obtain m r where q: "rules (cfg_DB shard) = Some m" "m (toLower (cfg_ParentTable shard)) = Some (RBase r)"
    "l = \<lparr>lr_db = cfg_DB shard, lr_table = toLower (cfg_Table shard), lr_shardingColumn = toLower (cfg_Key shard), lr_linkToRule = r\<rparr>"
    using assms(1) by (auto simp: createLinkedRule_def split: if_splits option.splits Rule.splits)
  have "br_table r = toLower (cfg_ParentTable shard)" "br_db r = cfg_DB shard" "br_ruleType r \<noteq> ShardLinked"
    using assms(2) [unfolded rules_wf_def, rule_format, OF q(1,2)] by (auto simp: GetType_def)
  with q show "lr_table l = toLower (cfg_Table shard)" "br_db (lr_linkToRule l) = lr_db l" "br_ruleType (lr_linkToRule l) \<noteq> ShardLinked"
    "\<exists>m. rules (lr_db l) = Some m \<and> m (br_table (lr_linkToRule l)) = Some (RBase (lr_linkToRule l))" by simp_all
qed

lemma link_loop_wf: "link_loop shards rules = Ok rules' \<Longrightarrow> rules_wf rules \<Longrightarrow> rules_wf rules'"
proof (induction shards arbitrary: rules)
  case (Cons shard shards)
  then obtain l where l: "createLinkedRule rules shard = Ok l"
    "link_loop shards (set_rule rules (lr_db l) (lr_table l) (RLinked l)) = Ok rules'"
    by (auto split: res.splits)
  note c = createLinkedRule_props [OF l(1) Cons.prems(2)]
  have "rules_wf (set_rule rules (lr_db l) (lr_table l) (RLinked l))"
    using Cons.prems(2) c by (intro rules_wf_set) (auto simp: GetType_def toLower_idem)
  with Cons.IH [OF l(2)] show ?case .
qed simp

text \<open>
  C22: in a router that \<^verbatim>\<open>NewRouter\<close> built, the rule found for a database and table is the rule of
  that database and table, with the table name in lower case, and a linked rule shares its parent's
  database; an unknown table gets the default rule, which routes every key to index 0 on the default
  slice, under the database asked for.
\<close>

theorem router_rules:
  assumes "NewRouter n = Ok rt"
  shows "(case lookup_rule rt db t of
       Some r \<Rightarrow> GetDB r = db \<and> GetTable r = t \<and> toLower t = t \<and> br_db (base_of r) = db \<and> GetType r \<noteq> ShardLinked
     | None \<Rightarrow> qualify db t = (db, t) \<longrightarrow>
         (case GetRule rt db t of (r, _) \<Rightarrow>
            GetDB r = db \<and> FindTableIndex env r k = Ok 0 \<and> GetSlice r 0 = Ok (ns_DefaultSlice n)))"
proof -
  obtain rules linked rules' where q: "router_loop (map sl_Name (ns_Slices n)) (ns_ShardRules n) Map.empty [] = Ok (rules, linked)"
    "link_loop linked rules = Ok rules'" "rt = \<lparr>rt_rules = rules', rt_defaultRule = NewDefaultRule (ns_DefaultSlice n)\<rparr>"
    using assms by (auto simp: NewRouter_def Let_def split: if_splits)
  have "rules_wf Map.empty" by (simp add: rules_wf_def)
  from link_loop_wf [OF q(2) router_loop_wf [OF q(1) this]] have wf: "rules_wf rules'" .
  show ?thesis
  proof (cases "lookup_rule rt db t")
    case (Some r)
    then obtain m where m: "rules' db = Some m" "m t = Some r" using q(3) by (auto simp: lookup_rule_def split: option.splits)
    show ?thesis using Some wf [unfolded rules_wf_def, rule_format, OF m] by simp
  next
    case None
    then show ?thesis using q(3)
      by (simp add: GetRule_def Let_def NewDefaultRule_def rule_methods br_GetSlice_def)
  qed
qed

definition example_ns :: Namespace where
  "example_ns =
     \<lparr>ns_Name = ''ns'', ns_AllowedDBS = [(''db'', True)], ns_DefaultPhyDBS = [], ns_SlowSQLTime = [],
      ns_Slices = map (\<lambda>s. \<lparr>sl_Name = s, sl_UserName = ''u'', sl_Password = ''p'', sl_Master = ''m'', sl_Slaves = [],
          sl_StatisticSlaves = [], sl_SlaveDCMaster = [], sl_SlaveDCSlaves = [], sl_Capacity = 1, sl_MaxCapacity = 1,
          sl_IdleTimeout = 1\<rparr>) [''slice-0'', ''slice-1''],
      ns_ShardRules = [example_cfg\<lparr>cfg_Table := ''tbl''\<rparr>,
         example_cfg\<lparr>cfg_Type := ShardLinked, cfg_Table := ''child'', cfg_ParentTable := ''tbl''\<rparr>],
      ns_Users = [], ns_DefaultSlice = ''slice-0''\<rparr>"

lemma example_router: "\<exists>rt. NewRouter example_ns = Ok rt"
proof -
  have "is_ok (NewRouter example_ns)" by code_simp
  then show ?thesis by (simp add: is_ok_iff)
qed

theorem router_rules_witness:
  "\<exists>rt r. NewRouter example_ns = Ok rt \<and> lookup_rule rt ''db'' ''child'' = Some r \<and>
     GetDB r = ''db'' \<and> GetTable r = ''child'' \<and> br_db (base_of r) = ''db''"
proof -
  obtain rt where rt: "NewRouter example_ns = Ok rt" using example_router by blast
  have "(case NewRouter example_ns of Ok rt \<Rightarrow> lookup_rule rt ''db'' ''child'' \<noteq> None | _ \<Rightarrow> False)" by code_simp
  then obtain r where r: "lookup_rule rt ''db'' ''child'' = Some r" using rt by auto
  from router_rules [OF rt, of "''db''" "''child''"] r rt show ?thesis by auto
qed

end
