(* ===== verification/Verify_Router.thy ===== *)
theory Verify_Router
  imports Rule_Props
begin

text \<open>
  The configuration check of \<^verbatim>\<open>src/models\<close> against the router construction of
  \<^verbatim>\<open>src/proxy/router\<close>: a configuration the check accepts is one the router can be built from,
  with the exceptions stated here as theorems.
\<close>

section \<open>The repeated parsing code\<close>

lemma m_realDatabase_eq: "m_realDatabase db = realDatabase db"
  by (simp add: m_realDatabase_def realDatabase_def)

lemma m_getRealDatabases_eq: "m_getRealDatabases dbs = getRealDatabases dbs"
  by (induction dbs) (simp_all add: m_realDatabase_eq)

lemma m_ParseNumSharding_eq: "m_ParseNumSharding locs limit = ParseNumSharding locs limit"
  by (simp add: m_ParseNumSharding_def ParseNumSharding_def sum_locations_def)

lemma m_toIntArray_eq: "m_toIntArray s = toIntArray s"
  by (simp add: m_toIntArray_def toIntArray_def)

lemma m_hash_loop_eq: "m_hash_loop i s locs m = snd (hash_loop i s locs sub m)"
  by (induction locs arbitrary: i s m sub) simp_all

lemma verifyHash_parse:
  "verifyHashRuleSliceInfos locs slices = Ok m \<longleftrightarrow> (\<exists>sub. parseHashRuleSliceInfos locs slices = Ok (sub, m))"
  using m_hash_loop_eq [of 0 0 locs "[]" "[]"]
  by (cases "hash_loop 0 0 locs [] []") (auto simp: verifyHashRuleSliceInfos_def parseHashRuleSliceInfos_def)

lemma illegal_if_err_Ok: "illegal_if_err r = Ok () \<longleftrightarrow> is_ok r"
  by (cases r) (simp_all add: illegal_if_err_def)

lemma m_ParseDayRange_Ok: "m_ParseDayRange r = Ok l \<Longrightarrow> ParseDayRange r = Ok l"
  by (auto simp: m_ParseDayRange_def ParseDayRange_def parse_single_date_def split: if_splits list.splits)

lemma m_ParseMonthRange_Ok: "m_ParseMonthRange r = Ok l \<Longrightarrow> ParseMonthRange r = Ok l"
  by (auto simp: m_ParseMonthRange_def ParseMonthRange_def parse_single_date_def split: if_splits list.splits)

lemma timeParse_y_bound:
  assumes "is_ok (timeParse_y s)" "atoi s = Ok v"
  shows "v < MaxInt64"
proof -
  have "length s = 4" "all_digits s" using assms(1) by (auto simp: timeParse_y_def split: if_splits)
  then show ?thesis using atoi_digits [of s] digits_val_bounds [of s] assms(2) by (force simp: MaxInt64_def)
qed

lemma m_ParseYearRange_Ok: "m_ParseYearRange r = Ok l \<Longrightarrow> ParseYearRange r = Ok l"
  using timeParse_y_bound
  by (fastforce simp: m_ParseYearRange_def ParseYearRange_def parse_single_date_def illegal_if_err_Ok
      split: if_splits list.splits)

lemma m_date_loop_Ok:
  assumes "m_date_loop mparse rs sub = Ok ()" "\<And>r l. mparse r = Ok l \<Longrightarrow> parse r = Ok l"
  shows "\<exists>res. date_loop parse i rs sub m = Ok res"
  using assms(1)
proof (induction rs arbitrary: i sub m)
  case (Cons r rs)
  obtain numbers where n: "mparse r = Ok numbers"
    "andThen (if sub = [] then Ok False else andThen (at numbers 0) (\<lambda>n. Ok (n \<le> last sub)))
       (\<lambda>overlap. if overlap then Err ErrDateRangeOverlap else m_date_loop mparse rs (sub @ numbers)) = Ok ()"
    using Cons.prems by auto
  then have "(if sub = [] then Ok False else andThen (at numbers 0) (\<lambda>n. Ok (n \<le> last sub))) = Ok False"
    "m_date_loop mparse rs (sub @ numbers) = Ok ()"
    by (auto split: if_splits)
  then show ?case using Cons.IH [of "sub @ numbers"] assms(2) [OF n(1)] by simp
qed simp

section \<open>Accepted rules can be parsed\<close>

lemma verifyMycat_parse:
  "verifyMycatHashRuleSliceInfos locs slices dbs = Ok m \<Longrightarrow>
     \<exists>sub real. parseMycatHashRuleSliceInfos locs slices dbs = Ok (sub, m) \<and> getRealDatabases dbs = Ok real"
  using verifyHash_parse [of locs slices]
  by (fastforce simp: verifyMycatHashRuleSliceInfos_def parseMycatHashRuleSliceInfos_def m_getRealDatabases_eq
      split: if_splits)

lemma set_at_panics: "set_at xs i v = Err e \<Longrightarrow> False" "set_at xs i v = Panic p \<Longrightarrow> p = PIndex"
  by (auto simp: set_at_def split: if_splits)

lemma seg_inner_panics: "\<not> is_ok (seg_inner n j v xs) \<Longrightarrow> seg_inner n j v xs = Panic PIndex"
proof (induction n arbitrary: j xs)
  case (Suc n)
  then show ?case using set_at_panics by (cases "set_at xs j v") auto
qed simp

lemma seg_outer_panics: "\<not> is_ok (seg_outer i ai xs) \<Longrightarrow> seg_outer i ai xs = Panic PIndex"
proof (induction i ai xs rule: seg_outer.induct)
  case (1 i a b rest xs)
  then show ?case using seg_inner_panics [of "nat (b - a)" a "i - 1" xs]
    by (cases "seg_inner (nat (b - a)) a (i - 1) xs") auto
qed simp_all

lemma verifyLong_Init:
  assumes "verifyMycatPatitionLongShard n cs ls = Ok ()"
  shows "(\<exists>l. LongShard_Init (NewMycatPartitionLongShard n cs ls) = Ok l) \<or>
         LongShard_Init (NewMycatPartitionLongShard n cs ls) = Panic PIndex"
proof -
  obtain counts lens ai bi where q: "toIntArray cs = Ok counts" "toIntArray ls = Ok lens" "length counts = length lens"
    "foldl (\<lambda>s c. i64 (s + c)) 0 counts = n" "make_ints (i64 (n + 1)) = Ok ai" "ai_outer (zip counts lens) 0 ai = Ok bi"
    "at bi (int (length bi) - 1) = Ok 1024"
    using assms by (auto simp: verifyMycatPatitionLongShard_def m_toIntArray_eq Let_def split: if_splits)
  then have e: "LongShard_Init (NewMycatPartitionLongShard n cs ls) =
      andThen (seg_outer 1 bi (replicate 1024 0)) (\<lambda>segment.
        Ok (NewMycatPartitionLongShard n cs ls\<lparr>pl_count := counts, pl_length := lens, pl_segment := segment\<rparr>))"
    by (simp add: LongShard_Init_def NewMycatPartitionLongShard_def Let_def)
  show ?thesis unfolding e using seg_outer_panics [of 1 bi "replicate 1024 0"]
    by (cases "seg_outer 1 bi (replicate 1024 0)") auto
qed

lemma verifyHashSlice_parse: "verifyHashSliceStartEnd hs = Ok () \<Longrightarrow> is_ok (parseHashSliceStartEnd hs)"
  by (auto simp: verifyHashSliceStartEnd_def parseHashSliceStartEnd_def verifyHashSliceValue_def parseHashSliceValue_def
      is_ok_andThen split: list.splits res.splits if_splits)

text \<open>The result a parsed rule can have: a rule, or the panic of a segment table with negative lengths.\<close>

definition ok_or_segment_panic :: "string \<Rightarrow> 'a res \<Rightarrow> bool" where
  "ok_or_segment_panic t r \<longleftrightarrow> is_ok r \<or> t \<in> {ShardMycatLong, ShardMycatString} \<and> r = Panic PIndex"

lemma verify_date_infos:
  "verifyDateDayRuleSliceInfos rs ss = Ok () \<Longrightarrow> \<exists>res. parseDateDayRuleSliceInfos rs ss = Ok res"
  "verifyDateMonthRuleSliceInfos rs ss = Ok () \<Longrightarrow> \<exists>res. parseDateMonthRuleSliceInfos rs ss = Ok res"
  "verifyDateYearRuleSliceInfos rs ss = Ok () \<Longrightarrow> \<exists>res. parseDateYearRuleSliceInfos rs ss = Ok res"
  using m_date_loop_Ok [of m_ParseDayRange rs "[]" ParseDayRange 0 "[]", OF _ m_ParseDayRange_Ok]
    m_date_loop_Ok [of m_ParseMonthRange rs "[]" ParseMonthRange 0 "[]", OF _ m_ParseMonthRange_Ok]
    m_date_loop_Ok [of m_ParseYearRange rs "[]" ParseYearRange 0 "[]", OF _ m_ParseYearRange_Ok]
  by (auto simp: verifyDateDayRuleSliceInfos_def parseDateDayRuleSliceInfos_def verifyDateMonthRuleSliceInfos_def
      parseDateMonthRuleSliceInfos_def verifyDateYearRuleSliceInfos_def parseDateYearRuleSliceInfos_def split: if_splits)

lemma verify_slice_infos_long:
  assumes "verifyMycatLongRule cfg = Ok ()" "cfg_Type cfg = ShardMycatLong"
  shows "ok_or_segment_panic (cfg_Type cfg) (parseRuleSliceInfos cfg)"
proof -
  obtain m where v: "verifyMycatHashRuleSliceInfos (cfg_Locations cfg) (cfg_Slices cfg) (cfg_Databases cfg) = Ok m"
    "verifyMycatPatitionLongShard (int (length m)) (cfg_PartitionCount cfg) (cfg_PartitionLength cfg) = Ok ()"
    using assms(1) by (auto simp: verifyMycatLongRule_def)
  obtain sub where "parseMycatHashRuleSliceInfos (cfg_Locations cfg) (cfg_Slices cfg) (cfg_Databases cfg) = Ok (sub, m)"
    using verifyMycat_parse [OF v(1)] by blast
  then show ?thesis using verifyLong_Init [OF v(2)] assms(2)
    by (auto simp: parseRuleSliceInfos_def Let_def shard_types ok_or_segment_panic_def)
qed

lemma verify_slice_infos_string:
  assumes "verifyMycatStringRule cfg = Ok ()" "cfg_Type cfg = ShardMycatString"
  shows "ok_or_segment_panic (cfg_Type cfg) (parseRuleSliceInfos cfg)"
proof -
  obtain m where v: "verifyMycatHashRuleSliceInfos (cfg_Locations cfg) (cfg_Slices cfg) (cfg_Databases cfg) = Ok m"
    "verifyMycatPatitionLongShard (int (length m)) (cfg_PartitionCount cfg) (cfg_PartitionLength cfg) = Ok ()"
    "verifyHashSliceStartEnd (cfg_HashSlice cfg) = Ok ()"
    using assms(1) by (auto simp: verifyMycatStringRule_def verifyMycatPartitionStringShard_def)
  obtain sub where p: "parseMycatHashRuleSliceInfos (cfg_Locations cfg) (cfg_Slices cfg) (cfg_Databases cfg) = Ok (sub, m)"
    using verifyMycat_parse [OF v(1)] by blast
  obtain a b where "parseHashSliceStartEnd (cfg_HashSlice cfg) = Ok (a, b)"
    using verifyHashSlice_parse [OF v(3)] by (auto simp: is_ok_iff)
  then have "(\<exists>l. StringShard_Init (NewMycatPartitionStringShard (int (length m)) (cfg_PartitionCount cfg)
        (cfg_PartitionLength cfg) (cfg_HashSlice cfg)) = Ok l) \<or>
      StringShard_Init (NewMycatPartitionStringShard (int (length m)) (cfg_PartitionCount cfg)
        (cfg_PartitionLength cfg) (cfg_HashSlice cfg)) = Panic PIndex"
    using verifyLong_Init [OF v(2)] by (auto simp: StringShard_Init_def NewMycatPartitionStringShard_def)
  then show ?thesis using p assms(2)
    by (auto simp: parseRuleSliceInfos_def Let_def shard_types ok_or_segment_panic_def)
qed

lemma verify_slice_infos_mycat:
  assumes "Shard_verify cfg = Ok ()" "cfg_Type cfg \<in> {ShardMycatMod, ShardMycatMURMUR, ShardMycatPaddingMod, ShardGlobal}"
  shows "is_ok (parseRuleSliceInfos cfg)"
proof -
  have v: "cfg_Type cfg = ShardMycatMod \<Longrightarrow> verifyMycatModRule cfg = Ok ()"
    "cfg_Type cfg = ShardMycatMURMUR \<Longrightarrow> verifyMycatMURMURRule cfg = Ok ()"
    "cfg_Type cfg = ShardMycatPaddingMod \<Longrightarrow> verifyMycatPaddingRule cfg = Ok ()"
    "cfg_Type cfg = ShardGlobal \<Longrightarrow> verifyGlobalRule cfg = Ok ()"
    using assms(1) by (simp_all add: Shard_verify_def ruleVerifyFuncMapping_def shard_types)
  show ?thesis using assms(2)
  proof (elim insertE emptyE)
    assume t: "cfg_Type cfg = ShardMycatMod"
    show ?thesis using v(1) [OF t] t verifyMycat_parse
      by (fastforce simp: verifyMycatModRule_def parseRuleSliceInfos_def Let_def shard_types)
  next
    assume t: "cfg_Type cfg = ShardMycatMURMUR"
    show ?thesis using v(2) [OF t] t verifyMycat_parse
      by (fastforce simp: verifyMycatMURMURRule_def verifyMycatPartitionMurmurHashShard_def
          NewMycatPartitionMurmurHashShard_def parseRuleSliceInfos_def Let_def shard_types)
  next
    assume t: "cfg_Type cfg = ShardMycatPaddingMod"
    show ?thesis using v(3) [OF t] t verifyMycat_parse
      by (fastforce simp: verifyMycatPaddingRule_def verifyMycatPartitionPaddingModShard_def
          GetMycatPartitionPaddingModShard_def PaddingMod_checkParam_def parseRuleSliceInfos_def Let_def shard_types
          split: if_splits)
  next
    assume t: "cfg_Type cfg = ShardGlobal"
    show ?thesis using v(4) [OF t] t verifyHash_parse
      by (fastforce simp: verifyGlobalRule_def verifyGlobalTableRuleSliceInfos_def parseGlobalTableRuleSliceInfos_def
          m_getRealDatabases_eq parseRuleSliceInfos_def Let_def shard_types split: if_splits)
  qed
qed

lemma verify_slice_infos_plain:
  assumes "Shard_verify cfg = Ok ()" "cfg_Type cfg \<in> {ShardHash, ShardMod, ShardRange, ShardDay, ShardMonth, ShardYear}"
  shows "is_ok (parseRuleSliceInfos cfg)"
proof -
  have v: "cfg_Type cfg = ShardHash \<Longrightarrow> verifyHashRule cfg = Ok ()" "cfg_Type cfg = ShardMod \<Longrightarrow> verifyModRule cfg = Ok ()"
    "cfg_Type cfg = ShardRange \<Longrightarrow> verifyRangeRule cfg = Ok ()" "cfg_Type cfg = ShardDay \<Longrightarrow> verifyDayRule cfg = Ok ()"
    "cfg_Type cfg = ShardMonth \<Longrightarrow> verifyMonthRule cfg = Ok ()" "cfg_Type cfg = ShardYear \<Longrightarrow> verifyYearRule cfg = Ok ()"
    using assms(1) by (simp_all add: Shard_verify_def ruleVerifyFuncMapping_def shard_types)
  have h: "verifyHashRuleSliceInfos (cfg_Locations cfg) (cfg_Slices cfg) = Ok m \<Longrightarrow>
     \<exists>sub. parseHashRuleSliceInfos (cfg_Locations cfg) (cfg_Slices cfg) = Ok (sub, m)" for m
    by (simp add: verifyHash_parse)
  show ?thesis using assms(2)
  proof (elim insertE emptyE)
    assume t: "cfg_Type cfg = ShardHash"
    show ?thesis using v(1) [OF t] t h by (fastforce simp: verifyHashRule_def parseRuleSliceInfos_def Let_def)
  next
    assume t: "cfg_Type cfg = ShardMod"
    show ?thesis using v(2) [OF t] t h by (fastforce simp: verifyModRule_def parseRuleSliceInfos_def Let_def shard_types)
  next
    assume t: "cfg_Type cfg = ShardRange"
    show ?thesis using v(3) [OF t] t h
      by (fastforce simp: verifyRangeRule_def m_ParseNumSharding_eq parseRuleSliceInfos_def Let_def shard_types split: if_splits)
  next
    assume t: "cfg_Type cfg = ShardDay"
    show ?thesis using v(4) [OF t] t verify_date_infos(1)
      by (fastforce simp: verifyDayRule_def parseRuleSliceInfos_def Let_def shard_types)
  next
    assume t: "cfg_Type cfg = ShardMonth"
    show ?thesis using v(5) [OF t] t verify_date_infos(2)
      by (fastforce simp: verifyMonthRule_def parseRuleSliceInfos_def Let_def shard_types)
  next
    assume t: "cfg_Type cfg = ShardYear"
    show ?thesis using v(6) [OF t] t verify_date_infos(3)
      by (fastforce simp: verifyYearRule_def parseRuleSliceInfos_def Let_def shard_types)
  qed
qed

lemma verify_slice_infos:
  assumes "Shard_verify cfg = Ok ()"
  shows "ok_or_segment_panic (cfg_Type cfg) (parseRuleSliceInfos cfg)"
proof -
  consider "cfg_Type cfg \<in> {ShardHash, ShardMod, ShardRange, ShardDay, ShardMonth, ShardYear}"
    | "cfg_Type cfg \<in> {ShardMycatMod, ShardMycatMURMUR, ShardMycatPaddingMod, ShardGlobal}"
    | "cfg_Type cfg = ShardMycatLong" "verifyMycatLongRule cfg = Ok ()"
    | "cfg_Type cfg = ShardMycatString" "verifyMycatStringRule cfg = Ok ()"
    using assms by (auto simp: Shard_verify_def ruleVerifyFuncMapping_def shard_types split: if_splits option.splits)
  then show ?thesis
    using verify_slice_infos_plain [OF assms] verify_slice_infos_mycat [OF assms]
      verify_slice_infos_long verify_slice_infos_string
    by cases (auto simp: ok_or_segment_panic_def)
qed

lemma slice_infos_databases:
  assumes "parseRuleSliceInfos cfg = Ok res"
    "IsMycatShardingRule (cfg_Type cfg) \<or> cfg_Type cfg = ShardGlobal \<and> cfg_Databases cfg \<noteq> []"
  shows "is_ok (getRealDatabases (cfg_Databases cfg))"
  using assms
  by (auto simp: parseRuleSliceInfos_def Let_def IsMycatShardingRule_def shard_types
      parseMycatHashRuleSliceInfos_def parseGlobalTableRuleSliceInfos_def split: if_splits)

lemma verify_parseRule:
  assumes "Shard_verify cfg = Ok ()"
  shows "ok_or_segment_panic (cfg_Type cfg) (parseRule cfg)"
proof (cases "parseRuleSliceInfos cfg")
  case (Ok res)
  obtain sub m shard where r: "res = (sub, m, shard)" by (cases res)
  have "is_ok (parseRule cfg)"
  proof (cases "IsMycatShardingRule (cfg_Type cfg) \<or> cfg_Type cfg = ShardGlobal \<and> cfg_Databases cfg \<noteq> []")
    case True
    from slice_infos_databases [OF Ok this] obtain dbs where "getRealDatabases (cfg_Databases cfg) = Ok dbs"
      by (auto simp: is_ok_iff)
    then show ?thesis using Ok r True by (auto simp: parseRule_def Let_def)
  next
    case False
    then show ?thesis using Ok r by (auto simp: parseRule_def Let_def)
  qed
  then show ?thesis by (simp add: ok_or_segment_panic_def)
next
  case (Err e)
  then show ?thesis using verify_slice_infos [OF assms] by (simp add: ok_or_segment_panic_def)
next
  case (Panic p)
  then show ?thesis using verify_slice_infos [OF assms] by (auto simp: ok_or_segment_panic_def parseRule_def)
qed

text \<open>
  C39: a shard rule that the configuration check accepts is never rejected with an error when the
  router parses it: it parses, except that a Mycat long or string rule may panic while its segment
  table is filled.
\<close>

theorem verified_rule_parses:
  assumes "Shard_verify cfg = Ok ()"
  shows "(\<exists>r. parseRule cfg = Ok r) \<or>
     (cfg_Type cfg = ShardMycatLong \<or> cfg_Type cfg = ShardMycatString) \<and> parseRule cfg = Panic PIndex"
  using verify_parseRule [OF assms] by (auto simp: ok_or_segment_panic_def is_ok_iff)

theorem verified_rule_parses_witness:
  "Shard_verify example_cfg = Ok () \<and> (\<exists>r. parseRule example_cfg = Ok r)"
proof -
  have v: "Shard_verify example_cfg = Ok ()" "cfg_Type example_cfg \<noteq> ShardMycatLong" "cfg_Type example_cfg \<noteq> ShardMycatString"
    by code_simp+
  from verified_rule_parses [OF v(1)] v show ?thesis by blast
qed

section \<open>Accepted namespaces have a router\<close>

definition lookup2 :: "(string \<rightharpoonup> (string \<rightharpoonup> Rule)) \<Rightarrow> string \<Rightarrow> string \<Rightarrow> Rule option" where
  "lookup2 rules db t = (case rules db of None \<Rightarrow> None | Some m \<Rightarrow> m t)"

lemma lookup2_set_rule:
  "lookup2 (set_rule rules db t r) db' t' = (if db' = db \<and> t' = t then Some r else lookup2 rules db' t')"
  by (auto simp: lookup2_def set_rule_def split: option.splits)

text \<open>
  The check's table of rules and the router's agree: every table that is not linked has a base rule,
  and no table has a rule the check does not know.
\<close>

definition rules_agree :: "((string \<times> string) \<times> string) list \<Rightarrow> (string \<rightharpoonup> (string \<rightharpoonup> Rule)) \<Rightarrow> bool" where
  "rules_agree al rules \<longleftrightarrow>
     (\<forall>db t ty. map_of al (db, t) = Some ty \<longrightarrow> ty \<noteq> ShardLinked \<longrightarrow>
        (\<exists>r. lookup2 rules db t = Some (RBase r) \<and> br_ruleType r \<noteq> ShardLinked))"

definition rules_within :: "((string \<times> string) \<times> string) list \<Rightarrow> (string \<rightharpoonup> (string \<rightharpoonup> Rule)) \<Rightarrow> bool" where
  "rules_within al rules \<longleftrightarrow> (\<forall>db t. map_of al (db, t) = None \<longrightarrow> lookup2 rules db t = None)"

definition linked_known :: "((string \<times> string) \<times> string) list \<Rightarrow> ShardCfg list \<Rightarrow> bool" where
  "linked_known al linked \<longleftrightarrow>
     (\<forall>s \<in> set linked. map_of al (cfg_DB s, cfg_Table s) = Some ShardLinked \<and> cfg_Type s = ShardLinked \<and>
        toLower (cfg_Table s) = cfg_Table s \<and> toLower (cfg_ParentTable s) = cfg_ParentTable s)"

text \<open>Rules whose names are in lower case and whose parsing cannot panic.\<close>

definition plain_rule :: "ShardCfg \<Rightarrow> bool" where
  "plain_rule s \<longleftrightarrow>
     toLower (cfg_Table s) = cfg_Table s \<and> toLower (cfg_ParentTable s) = cfg_ParentTable s \<and>
     cfg_Type s \<notin> {ShardMycatLong, ShardMycatString}"

lemma rules_step_linked:
  assumes "rules_agree al rules" "rules_within al rules" "linked_known al linked" "map_of al (db, t) = None"
  shows "rules_agree (AList.update (db, t) ShardLinked al) rules" "rules_within (AList.update (db, t) ShardLinked al) rules"
    "linked_known (AList.update (db, t) ty al) linked"
  using assms unfolding rules_agree_def rules_within_def linked_known_def by (auto simp: update_conv')

lemma rules_step_base:
  assumes "rules_agree al rules" "rules_within al rules" "map_of al (db, t) = None" "br_ruleType r \<noteq> ShardLinked"
  shows "rules_agree (AList.update (db, t) ty al) (set_rule rules db t (RBase r))"
    "rules_within (AList.update (db, t) ty al) (set_rule rules db t (RBase r))"
  using assms unfolding rules_agree_def rules_within_def by (auto simp: update_conv' lookup2_set_rule)

lemma router_loop_parsed:
  assumes "set (cfg_Slices s) \<subseteq> set names" "cfg_Type s \<noteq> ShardLinked" "cfg_Type s \<noteq> ShardDefault" "parseRule s = Ok r"
    "lookup2 rules (br_db r) (br_table r) = None"
  shows "router_loop names (s # ss) rules linked =
     router_loop names ss (set_rule rules (br_db r) (br_table r) (RBase (with_ns_slices names r))) linked"
  using assms parseRule_fields(5) [OF assms(4)]
  by (auto simp: list_all_iff includeSlice_def Let_def lookup2_def split: option.splits)

lemma router_loop_simulates:
  assumes "shard_rules_loop names ss al linked = Ok (al', linked')" "\<forall>s \<in> set ss. plain_rule s"
    "rules_agree al rules" "rules_within al rules" "linked_known al linked"
  shows "\<exists>rules'. router_loop names ss rules linked = Ok (rules', linked') \<and> rules_agree al' rules' \<and> linked_known al' linked'"
  using assms
proof (induction ss arbitrary: al linked rules)
  case (Cons s ss)
  have c: "set (cfg_Slices s) \<subseteq> set names" "cfg_Type s \<noteq> ShardDefault" "map_of al (cfg_DB s, cfg_Table s) = None"
    using Cons.prems(1) by (auto split: if_splits)
  have pl: "plain_rule s" "\<forall>s \<in> set ss. plain_rule s" using Cons.prems(2) by simp_all
  show ?case
  proof (cases "cfg_Type s = ShardLinked")
    case True
    have e: "shard_rules_loop names ss (AList.update (cfg_DB s, cfg_Table s) ShardLinked al) (linked @ [s]) = Ok (al', linked')"
      using Cons.prems(1) True c by (simp split: if_splits)
    note st = rules_step_linked [OF Cons.prems(3-5) c(3)]
    have k: "linked_known (AList.update (cfg_DB s, cfg_Table s) ShardLinked al) (linked @ [s])"
      using st(3) pl(1) True by (auto simp: linked_known_def plain_rule_def update_conv')
    from Cons.IH [OF e pl(2) st(1,2) k] show ?thesis using True c(1)
      by (simp add: list_all_iff includeSlice_def subset_iff)
  next
    case False
    have e: "Shard_verify s = Ok ()"
      "shard_rules_loop names ss (AList.update (cfg_DB s, cfg_Table s) (cfg_Type s) al) linked = Ok (al', linked')"
      using Cons.prems(1) False c by (auto split: if_splits)
    obtain r where r: "parseRule s = Ok r"
      using verify_parseRule [OF e(1)] pl(1) by (auto simp: ok_or_segment_panic_def plain_rule_def is_ok_iff)
    note f = parseRule_fields [OF r]
    have key: "br_db r = cfg_DB s" "br_table r = cfg_Table s" using f pl(1) by (simp_all add: plain_rule_def)
    have "lookup2 rules (br_db r) (br_table r) = None" using Cons.prems(4) c(3) key by (simp add: rules_within_def)
    note eq = router_loop_parsed [OF c(1) False c(2) r this]
    note st = rules_step_base [OF Cons.prems(3,4) c(3), of "with_ns_slices names r" "cfg_Type s"]
    have "linked_known (AList.update (cfg_DB s, cfg_Table s) (cfg_Type s) al) linked"
      by (rule rules_step_linked(3) [OF Cons.prems(3-5) c(3)])
    from Cons.IH [OF e(2) pl(2) st this] show ?thesis unfolding eq using f(5) False key by simp
  qed
qed auto

lemma link_loop_succeeds:
  assumes "linked_rules_loop al linked = Ok ()" "rules_agree al rules" "linked_known al linked"
  shows "\<exists>rules'. link_loop linked rules = Ok rules'"
  using assms
proof (induction linked arbitrary: rules)
  case (Cons s ss)
  obtain ty where ty: "map_of al (cfg_DB s, cfg_ParentTable s) = Some ty" "ty \<noteq> ShardLinked" "linked_rules_loop al ss = Ok ()"
    using Cons.prems(1) by (auto split: if_splits option.splits)
  obtain r where r: "lookup2 rules (cfg_DB s) (cfg_ParentTable s) = Some (RBase r)" "br_ruleType r \<noteq> ShardLinked"
    using Cons.prems(2) ty unfolding rules_agree_def by blast
  have k: "cfg_Type s = ShardLinked" "toLower (cfg_Table s) = cfg_Table s" "toLower (cfg_ParentTable s) = cfg_ParentTable s"
    "map_of al (cfg_DB s, cfg_Table s) = Some ShardLinked" "linked_known al ss"
    using Cons.prems(3) by (simp_all add: linked_known_def)
  let ?l = "\<lparr>lr_db = cfg_DB s, lr_table = cfg_Table s, lr_shardingColumn = toLower (cfg_Key s), lr_linkToRule = r\<rparr>"
  have "createLinkedRule rules s = Ok ?l"
    using r k by (auto simp: createLinkedRule_def lookup2_def GetType_def split: option.splits)
  moreover have "rules_agree al (set_rule rules (cfg_DB s) (cfg_Table s) (RLinked ?l))"
    using Cons.prems(2) k(4) unfolding rules_agree_def by (auto simp: lookup2_set_rule)
  ultimately show ?case using Cons.IH [OF ty(3) _ k(5)] by simp
qed simp

text \<open>
  C40: a namespace whose shard rules pass the check, whose default slice is one of its slices and
  whose rules name their tables in lower case and are not Mycat long or string rules, has a router.
\<close>

theorem verified_namespace_routes:
  assumes "verifyShardRules n = Ok ()" "ns_DefaultSlice n \<in> set (map sl_Name (ns_Slices n))"
    "\<forall>s \<in> set (ns_ShardRules n). plain_rule s"
  shows "\<exists>rt. NewRouter n = Ok rt"
proof -
  obtain al linked where v: "shard_rules_loop (map sl_Name (ns_Slices n)) (ns_ShardRules n) [] [] = Ok (al, linked)"
    "linked_rules_loop al linked = Ok ()"
    using assms(1) by (auto simp: verifyShardRules_def)
  have "rules_agree [] Map.empty" "rules_within [] Map.empty" "linked_known [] []"
    by (simp_all add: rules_agree_def rules_within_def linked_known_def lookup2_def)
  from router_loop_simulates [OF v(1) assms(3) this]
  obtain rules where r: "router_loop (map sl_Name (ns_Slices n)) (ns_ShardRules n) Map.empty [] = Ok (rules, linked)"
    "rules_agree al rules" "linked_known al linked" by blast
  from link_loop_succeeds [OF v(2) r(2,3)] obtain rules' where "link_loop linked rules = Ok rules'" by blast
  with r(1) assms(2) show ?thesis by (simp add: NewRouter_def includeSlice_def)
qed

theorem verified_namespace_routes_witness:
  "verifyShardRules example_ns = Ok () \<and> (\<exists>rt. NewRouter example_ns = Ok rt)"
proof -
  have v: "verifyShardRules example_ns = Ok ()" "list_all plain_rule (ns_ShardRules example_ns)"
    "ns_DefaultSlice example_ns \<in> set (map sl_Name (ns_Slices example_ns))"
    by code_simp+
  from verified_namespace_routes [OF v(1) v(3)] v show ?thesis by (simp add: list_all_iff)
qed

text \<open>
  The check compares table names as written, the router in lower case: two rules for \<^verbatim>\<open>tbl\<close> and
  \<^verbatim>\<open>TBL\<close> pass the check, and the router then rejects the namespace as a duplicate.
\<close>

lemma verify_table_case_gap:
  "verifyShardRules (example_ns\<lparr>ns_ShardRules := [example_cfg\<lparr>cfg_Table := ''tbl''\<rparr>, example_cfg\<lparr>cfg_Table := ''TBL''\<rparr>]\<rparr>) = Ok () \<and>
   NewRouter (example_ns\<lparr>ns_ShardRules := [example_cfg\<lparr>cfg_Table := ''tbl''\<rparr>, example_cfg\<lparr>cfg_Table := ''TBL''\<rparr>]\<rparr>) =
     Err (ErrMsg ''table rule duplicate'')"
  (is "?A \<and> ?B")
proof
  show ?A by code_simp
  have "(case NewRouter (example_ns\<lparr>ns_ShardRules := [example_cfg\<lparr>cfg_Table := ''tbl''\<rparr>, example_cfg\<lparr>cfg_Table := ''TBL''\<rparr>]\<rparr>) of
      Err e \<Rightarrow> e = ErrMsg ''table rule duplicate'' | _ \<Rightarrow> False)" by code_simp
  then show ?B by (auto split: res.splits)
qed

text \<open>
  An empty default slice passes the check, but the router requires a default slice and rejects
  the namespace.
\<close>

lemma verify_default_slice_gap:
  "verifyDefaultSlice (n\<lparr>ns_DefaultSlice := []\<rparr>) = Ok () \<and>
   (verifySlices n = Ok () \<longrightarrow>
      NewRouter (n\<lparr>ns_DefaultSlice := []\<rparr>) = Err (ErrMsg ''default slice not in the slice list''))"
proof -
  have "[] \<notin> sl_Name ` set ss" if "slices_loop seen ss = Ok ()" for seen ss
    using that
  proof (induction ss arbitrary: seen)
    case (Cons s ss)
    then have "Slice_verify s = Ok ()" "slices_loop (seen @ [s]) ss = Ok ()" by (auto split: res.splits if_splits)
    then show ?case using Cons.IH by (auto simp: Slice_verify_def split: if_splits)
  qed simp
  then show ?thesis
    by (auto simp: verifyDefaultSlice_def verifySlices_def NewRouter_def includeSlice_def Let_def split: if_splits)
qed

theorem verify_default_slice_gap_witness:
  "verifySlices example_ns = Ok () \<and>
   NewRouter (example_ns\<lparr>ns_DefaultSlice := []\<rparr>) = Err (ErrMsg ''default slice not in the slice list'')"
proof -
  have "verifySlices example_ns = Ok ()" by code_simp
  with verify_default_slice_gap [of example_ns] show ?thesis by blast
qed

end
