(* ===== verification/Plan_Lists.thy ===== *)
theory Plan_Lists
  imports Go_Base
begin

text \<open>
  The planner's table-index lists (\<^verbatim>\<open>src/proxy/plan/util.go\<close>) and the route result that walks
  over them (\<^verbatim>\<open>src/proxy/plan/route_result.go\<close>). A nil slice is the empty list. The list
  operations are the merge loops of the source, as recursion on the two remaining suffixes.
  On strictly ascending lists they are the set operations; the locale \<open>index_sets\<close> is that
  contract, which the routing theory uses.
\<close>

section \<open>util.go\<close>

definition makeList :: "int \<Rightarrow> int \<Rightarrow> int list" where
  "makeList start end = (if start \<ge> end then [] else [start..end - 1])"

fun index_of :: "int \<Rightarrow> int list \<Rightarrow> nat option" where
  "index_of v [] = None"
| "index_of v (x # xs) = (if x = v then Some 0 else map_option Suc (index_of v xs))"

definition makeLeList :: "int \<Rightarrow> int list \<Rightarrow> int list" where
  "makeLeList v indexs = (case index_of v indexs of Some k \<Rightarrow> take (k + 1) indexs | None \<Rightarrow> [])"

definition makeGeList :: "int \<Rightarrow> int list \<Rightarrow> int list" where
  "makeGeList v indexs = (case index_of v indexs of Some k \<Rightarrow> drop k indexs | None \<Rightarrow> [])"

definition makeLtList :: "int \<Rightarrow> int list \<Rightarrow> int list" where
  "makeLtList v indexs = (case index_of v indexs of Some k \<Rightarrow> take k indexs | None \<Rightarrow> [])"

definition makeGtList :: "int \<Rightarrow> int list \<Rightarrow> int list" where
  "makeGtList v indexs = (case index_of v indexs of Some k \<Rightarrow> drop (k + 1) indexs | None \<Rightarrow> [])"

text \<open>The loop of \<^verbatim>\<open>makeBetweenList\<close> at position \<open>k\<close>; \<open>si\<close> is the start index once set.\<close>

fun makeBetweenList_loop :: "int \<Rightarrow> int \<Rightarrow> int list \<Rightarrow> nat \<Rightarrow> nat option \<Rightarrow> int list \<Rightarrow> int list" where
  "makeBetweenList_loop start end indexs k si [] = []"
| "makeBetweenList_loop start end indexs k si (v # vs) =
     (let si' = (if v = start then Some k else si)
      in case (v = end, si') of
           (True, Some s) \<Rightarrow> take (k + 1 - s) (drop s indexs)
         | _ \<Rightarrow> makeBetweenList_loop start end indexs (k + 1) si' vs)"

definition makeBetweenList :: "int \<Rightarrow> int \<Rightarrow> int list \<Rightarrow> int list" where
  "makeBetweenList start end indexs =
     (let (start, end) = (if end < start then (end, start) else (start, end))
      in makeBetweenList_loop start end indexs 0 None indexs)"

fun interList :: "int list \<Rightarrow> int list \<Rightarrow> int list" where
  "interList (x # xs) (y # ys) =
     (if x = y then x # interList xs ys
      else if x < y then interList xs (y # ys)
      else interList (x # xs) ys)"
| "interList _ _ = []"

fun unionList :: "int list \<Rightarrow> int list \<Rightarrow> int list" where
  "unionList [] l2 = l2"
| "unionList l1 [] = l1"
| "unionList (x # xs) (y # ys) =
     (if x < y then x # unionList xs (y # ys)
      else if x > y then y # unionList (x # xs) ys
      else x # unionList xs ys)"

fun differentList :: "int list \<Rightarrow> int list \<Rightarrow> int list" where
  "differentList [] l2 = []"
| "differentList l1 [] = l1"
| "differentList (x # xs) (y # ys) =
     (if x < y then x # differentList xs (y # ys)
      else if x > y then differentList (x # xs) ys
      else differentList xs ys)"

text \<open>
  \<^verbatim>\<open>cleanList\<close> ranges over a Go map, whose order is unspecified: \<open>r\<close> is a possible result.
\<close>

definition cleanList_result :: "int list \<Rightarrow> int list \<Rightarrow> bool" where
  "cleanList_result l r \<longleftrightarrow> distinct r \<and> set r = set l"

fun distinctList_loop :: "int \<Rightarrow> int list \<Rightarrow> int list" where
  "distinctList_loop current [] = []"
| "distinctList_loop current (x # xs) =
     (if x \<noteq> current then x # distinctList_loop x xs else distinctList_loop current xs)"

definition distinctList :: "int list \<Rightarrow> int list" where
  "distinctList l =
     (if length l < 2 then l else case l of [] \<Rightarrow> [] | x # xs \<Rightarrow> x # distinctList_loop x xs)"

section \<open>route\_result.go\<close>

record RouteResult =
  rr_db :: string
  rr_table :: string
  rr_currentIndex :: int
  rr_indexes :: "int list"

definition NewRouteResult :: "string \<Rightarrow> string \<Rightarrow> int list \<Rightarrow> RouteResult" where
  "NewRouteResult db table initIndexes =
     \<lparr>rr_db = db, rr_table = table, rr_currentIndex = 0, rr_indexes = initIndexes\<rparr>"

definition rr_Check :: "RouteResult \<Rightarrow> string \<Rightarrow> string \<Rightarrow> unit res" where
  "rr_Check r db table =
     (if rr_db r \<noteq> db then Err (ErrMsg ''db not equal'')
      else if rr_table r \<noteq> table then Err (ErrMsg ''table not equal'')
      else Ok ())"

definition rr_Inter :: "RouteResult \<Rightarrow> int list \<Rightarrow> RouteResult" where
  "rr_Inter r indexes = r\<lparr>rr_indexes := interList (rr_indexes r) indexes\<rparr>"

definition rr_Union :: "RouteResult \<Rightarrow> int list \<Rightarrow> RouteResult" where
  "rr_Union r indexes = r\<lparr>rr_indexes := unionList (rr_indexes r) indexes\<rparr>"

definition rr_GetCurrentTableIndex :: "RouteResult \<Rightarrow> int res" where
  "rr_GetCurrentTableIndex r =
     (if rr_currentIndex r \<ge> int (length (rr_indexes r)) then Err (ErrMsg ''table index out of range'')
      else at (rr_indexes r) (rr_currentIndex r))"

definition rr_Next :: "RouteResult \<Rightarrow> (int \<times> RouteResult) res" where
  "rr_Next r =
     andThen (at (rr_indexes r) (rr_currentIndex r))
       (\<lambda>x. Ok (x, r\<lparr>rr_currentIndex := rr_currentIndex r + 1\<rparr>))"

definition rr_HasNext :: "RouteResult \<Rightarrow> bool" where
  "rr_HasNext r \<longleftrightarrow> rr_currentIndex r < int (length (rr_indexes r))"

definition rr_Reset :: "RouteResult \<Rightarrow> RouteResult" where
  "rr_Reset r = r\<lparr>rr_currentIndex := 0\<rparr>"

section \<open>The index lists as ordered sets\<close>

abbreviation ascending :: "int list \<Rightarrow> bool" where
  "ascending \<equiv> sorted_wrt (<)"

lemma set_makeList [simp]: "set (makeList a b) = {a..<b}"
  by (auto simp: makeList_def)

lemma ascending_upto: "ascending [a..b]"
proof (induction a b rule: upto.induct)
  case (1 a b)
  then show ?case by (simp add: upto.simps [of a b])
qed

lemma ascending_makeList [simp]: "ascending (makeList a b)"
  by (simp add: makeList_def ascending_upto)

lemma set_interList_subset: "set (interList l1 l2) \<subseteq> set l1 \<inter> set l2"
  by (induction l1 l2 rule: interList.induct) auto

lemma set_unionList: "set (unionList l1 l2) = set l1 \<union> set l2"
  by (induction l1 l2 rule: unionList.induct) auto

lemma set_interList:
  assumes "ascending l1" "ascending l2"
  shows "set (interList l1 l2) = set l1 \<inter> set l2"
  using assms by (induction l1 l2 rule: interList.induct) auto

lemma ascending_interList:
  assumes "ascending l1" "ascending l2"
  shows "ascending (interList l1 l2)"
  using assms
proof (induction l1 l2 rule: interList.induct)
  case (1 x xs y ys)
  then show ?case using set_interList_subset [of xs ys] by auto
qed auto

lemma ascending_unionList:
  assumes "ascending l1" "ascending l2"
  shows "ascending (unionList l1 l2)"
  using assms
  by (induction l1 l2 rule: unionList.induct) (auto simp: set_unionList)

lemma set_differentList_subset: "set (differentList l1 l2) \<subseteq> set l1"
  by (induction l1 l2 rule: differentList.induct) auto

lemma set_differentList:
  assumes "ascending l1" "ascending l2"
  shows "set (differentList l1 l2) = set l1 - set l2"
  using assms
proof (induction l1 l2 rule: differentList.induct)
  case (3 x xs y ys)
  then have "x < y \<Longrightarrow> x \<notin> set (y # ys)" "y < x \<Longrightarrow> y \<notin> set (x # xs)" "x = y \<Longrightarrow> x \<notin> set xs"
    by auto
  moreover note 3
  ultimately show ?case by (cases x y rule: linorder_cases) (simp_all add: insert_Diff_if)
qed simp_all

lemma ascending_differentList:
  assumes "ascending l1" "ascending l2"
  shows "ascending (differentList l1 l2)"
  using assms
proof (induction l1 l2 rule: differentList.induct)
  case (3 x xs y ys)
  then show ?case using set_differentList_subset [of xs "y # ys"] by auto
qed auto

lemma interList_self [simp]: "interList l l = l"
  by (induction l) auto

lemma distinctList_loop_remdups_adj: "x # distinctList_loop x xs = remdups_adj (x # xs)"
  by (induction xs arbitrary: x) auto

lemma distinctList_remdups_adj: "distinctList l = remdups_adj l"
proof (cases l)
  case (Cons x xs)
  then show ?thesis
    using distinctList_loop_remdups_adj [of x xs] by (cases xs) (auto simp: distinctList_def)
qed (simp add: distinctList_def)

lemma index_of_Some: "index_of v xs = Some k \<Longrightarrow> k < length xs \<and> xs ! k = v"
  by (induction xs arbitrary: k) (auto split: if_splits)

lemma index_of_None: "index_of v xs = None \<longleftrightarrow> v \<notin> set xs"
  by (induction xs) auto

text \<open>Cutting a strictly ascending list at the position of one of its elements.\<close>

lemma ascending_cut:
  assumes "ascending xs" "k < length xs"
  shows "set (take k xs) = {x \<in> set xs. x < xs ! k}" "set (drop (Suc k) xs) = {x \<in> set xs. xs ! k < x}"
  using assms
proof (induction xs arbitrary: k)
  case (Cons a xs)
  {
    case 1
    then show ?case
    proof (cases k)
      case (Suc j)
      with 1 have "a < xs ! j" by simp
      with 1 Suc Cons.IH(1) [of j] show ?thesis by auto
    qed auto
  next
    case 2
    then show ?case
    proof (cases k)
      case (Suc j)
      with 2 have "a < xs ! j" by simp
      then have "\<not> xs ! j < a" by simp
      with 2 Suc Cons.IH(2) [of j] show ?thesis by auto
    qed auto
  }
qed simp_all

subsection \<open>The contract of an index set\<close>

locale index_sets =
  fixes inter union :: "'l \<Rightarrow> 'l \<Rightarrow> 'l"
    and valid :: "'l \<Rightarrow> bool"
    and elems :: "'l \<Rightarrow> int set"
  assumes elems_inter: "valid a \<Longrightarrow> valid b \<Longrightarrow> elems (inter a b) = elems a \<inter> elems b"
    and elems_union: "valid a \<Longrightarrow> valid b \<Longrightarrow> elems (union a b) = elems a \<union> elems b"
    and valid_inter: "valid a \<Longrightarrow> valid b \<Longrightarrow> valid (inter a b)"
    and valid_union: "valid a \<Longrightarrow> valid b \<Longrightarrow> valid (union a b)"
begin

lemma inter_sound: "valid a \<Longrightarrow> valid b \<Longrightarrow> i \<in> elems a \<Longrightarrow> i \<in> elems b \<Longrightarrow> i \<in> elems (inter a b)"
  by (simp add: elems_inter)

lemma union_sound: "valid a \<Longrightarrow> valid b \<Longrightarrow> i \<in> elems a \<or> i \<in> elems b \<Longrightarrow> i \<in> elems (union a b)"
  by (auto simp: elems_union)

end

interpretation il: index_sets interList unionList ascending set
  by unfold_locales
    (auto simp: set_interList set_unionList ascending_interList ascending_unionList)

text \<open>
  C20: on strictly ascending index lists the three merge loops of the planner are intersection,
  union and difference of the index sets, and their results are again strictly ascending.
\<close>

theorem index_list_algebra:
  assumes "ascending l1" "ascending l2"
  shows "ascending (interList l1 l2) \<and> set (interList l1 l2) = set l1 \<inter> set l2 \<and>
    ascending (unionList l1 l2) \<and> set (unionList l1 l2) = set l1 \<union> set l2 \<and>
    ascending (differentList l1 l2) \<and> set (differentList l1 l2) = set l1 - set l2"
  using assms
  by (simp add: il.valid_inter il.elems_inter il.valid_union il.elems_union
      ascending_differentList set_differentList)

theorem index_list_algebra_witness:
  "interList [0, 2, 4] [2, 3, 4] = [2, 4] \<and> set (interList [0, 2, 4] [2, 3, 4]) = {0, 2, 4} \<inter> {2, 3, 4}
    \<and> unionList [0, 2, 4] [2, 3, 4] = [0, 2, 3, 4] \<and> differentList [0, 2, 4] [2, 3, 4] = [0]"
proof -
  have "ascending [0, 2, 4]" "ascending [2, 3, 4]" by simp_all
  from index_list_algebra [OF this] show ?thesis by simp
qed

text \<open>
  For a table index that occurs in a strictly ascending list, the four cut functions return
  exactly the indexes below, up to, from and above it.
\<close>

lemma index_cut_lists:
  assumes "ascending indexs" "v \<in> set indexs"
  shows "set (makeLtList v indexs) = {x \<in> set indexs. x < v} \<and>
    set (makeLeList v indexs) = {x \<in> set indexs. x \<le> v} \<and>
    set (makeGeList v indexs) = {x \<in> set indexs. v \<le> x} \<and>
    set (makeGtList v indexs) = {x \<in> set indexs. v < x}"
proof -
  from assms(2) obtain k where k: "index_of v indexs = Some k"
    using index_of_None [of v indexs] by auto
  then have kl: "k < length indexs" and v: "indexs ! k = v"
    using index_of_Some by blast+
  note cut = ascending_cut [OF assms(1) kl, unfolded v]
  have le: "set (take (k + 1) indexs) = insert v (set (take k indexs))"
    using kl v by (simp add: take_Suc_conv_app_nth)
  have ge: "set (drop k indexs) = insert v (set (drop (Suc k) indexs))"
    using kl v by (simp add: Cons_nth_drop_Suc [symmetric])
  from cut le ge assms(2) show ?thesis
    by (auto simp: makeLtList_def makeLeList_def makeGeList_def makeGtList_def k)
qed

theorem index_cut_lists_witness:
  "set (makeLtList 2016 [2015, 2016, 2017, 2018]) = {x \<in> set [2015, 2016, 2017, 2018]. x < 2016} \<and>
    makeLtList 2016 [2015, 2016, 2017, 2018] = [2015] \<and> makeGtList 2016 [2015, 2016, 2017, 2018] = [2017, 2018]"
proof -
  have "ascending [2015, 2016, 2017, 2018]" "(2016::int) \<in> set [2015, 2016, 2017, 2018]" by simp_all
  moreover have "makeLtList 2016 [2015, 2016, 2017, 2018] = [2015]"
    "makeGtList 2016 [2015, 2016, 2017, 2018] = [2017, 2018]"
    by (simp_all add: makeLtList_def makeGtList_def)
  ultimately show ?thesis using index_cut_lists by blast
qed

end
