(* ===== verification/Sql_Ast.thy ===== *)
theory Sql_Ast
  imports Plan_Lists Rules
begin

text \<open>
  The part of the syntax tree that the query plans read, rewrite and print: names, literals and
  expressions of \<^verbatim>\<open>src/parser/ast\<close> and \<^verbatim>\<open>src/parser/tidb-types/parser_driver\<close>, the
  decorators with which \<^verbatim>\<open>src/proxy/plan\<close> replaces some of their nodes, and \<^verbatim>\<open>Restore\<close>,
  which prints a tree as SQL.

  \<^item> The source replaces nodes in place; here a handler returns the new tree.
  \<^item> All decorators of a statement share one route result. \<open>Restore\<close> takes it as an argument: it
    prints the tree for the table at the cursor.
  \<^item> \<open>EOther\<close> stands for every expression node the plans do not look into (\<^verbatim>\<open>CASE\<close>,
    \<^verbatim>\<open>LIKE\<close>, subqueries and so on): fixed pieces of text around its sub-expressions, visited in
    order.
  \<^item> A literal that \<^verbatim>\<open>strconv.FormatFloat\<close> or the decimal and binary types print is represented
    by the text they print.
\<close>

section \<open>Names\<close>

record CIStr =
  ci_O :: string
  ci_L :: string

definition NewCIStr :: "string \<Rightarrow> CIStr" where
  "NewCIStr s = \<lparr>ci_O = s, ci_L = toLower s\<rparr>"

record ColumnName =
  cn_Schema :: CIStr
  cn_Table :: CIStr
  cn_Name :: CIStr

record TableName =
  tn_Schema :: CIStr
  tn_Name :: CIStr
  tn_IndexHints :: "string list"
  tn_PartitionNames :: "CIStr list"

definition getTableInfoFromTableName :: "TableName \<Rightarrow> string \<times> string" where
  "getTableInfoFromTableName t = (ci_O (tn_Schema t), ci_L (tn_Name t))"

definition getColumnInfoFromColumnName :: "ColumnName \<Rightarrow> string \<times> string \<times> string" where
  "getColumnInfoFromColumnName t = (ci_O (cn_Schema t), ci_L (cn_Table t), ci_L (cn_Name t))"

definition removeSchemaAndTableInfoInColumnName :: "ColumnName \<Rightarrow> ColumnName" where
  "removeSchemaAndTableInfoInColumnName c =
     c\<lparr>cn_Schema := \<lparr>ci_O = [], ci_L = []\<rparr>, cn_Table := \<lparr>ci_O = [], ci_L = []\<rparr>\<rparr>"

section \<open>Operators and literals\<close>

datatype Op =
    OpLogicAnd | OpLeftShift | OpRightShift | OpLogicOr | OpGE | OpLE | OpEQ | OpNE | OpLT | OpGT
  | OpPlus | OpMinus | OpAnd | OpOr | OpMod | OpXor | OpDiv | OpMul | OpNot | OpBitNeg | OpIntDiv
  | OpLogicXor | OpNullEQ | OpIn | OpLike | OpCase | OpRegexp | OpIsNull | OpIsTruth | OpIsFalsity
  | OpInvalid int

fun opsLiteral :: "Op \<Rightarrow> string option" where
  "opsLiteral OpLogicAnd = Some '' AND ''" | "opsLiteral OpLogicOr = Some '' OR ''"
| "opsLiteral OpLogicXor = Some '' XOR ''" | "opsLiteral OpLeftShift = Some ''<<''"
| "opsLiteral OpRightShift = Some ''>>''" | "opsLiteral OpGE = Some ''>=''"
| "opsLiteral OpLE = Some ''<=''" | "opsLiteral OpEQ = Some ''=''" | "opsLiteral OpNE = Some ''!=''"
| "opsLiteral OpLT = Some ''<''" | "opsLiteral OpGT = Some ''>''" | "opsLiteral OpPlus = Some ''+''"
| "opsLiteral OpMinus = Some ''-''" | "opsLiteral OpAnd = Some ''&''" | "opsLiteral OpOr = Some ''|''"
| "opsLiteral OpMod = Some ''%''" | "opsLiteral OpXor = Some ''^''" | "opsLiteral OpDiv = Some ''/''"
| "opsLiteral OpMul = Some ''*''" | "opsLiteral OpNot = Some ''!''" | "opsLiteral OpBitNeg = Some ''~''"
| "opsLiteral OpIntDiv = Some ''DIV''" | "opsLiteral OpNullEQ = Some ''<=>''"
| "opsLiteral OpIn = Some ''IN''" | "opsLiteral OpLike = Some ''LIKE''" | "opsLiteral OpCase = Some ''CASE''"
| "opsLiteral OpRegexp = Some ''REGEXP''" | "opsLiteral OpIsNull = Some ''IS NULL''"
| "opsLiteral OpIsTruth = Some ''IS TRUE''" | "opsLiteral OpIsFalsity = Some ''IS FALSE''"
| "opsLiteral (OpInvalid n) = None"

text \<open>The kinds of a datum that the parser produces; \<open>DInt64\<close> has the boolean flag of its type,
  \<open>DString\<close> the character set and \<open>DBinaryLiteral\<close> its bytes and their literal.\<close>

datatype Datum =
    DNull
  | DInt64 int bool
  | DUint64 int
  | DFloat32 string
  | DFloat64 string
  | DString string string
  | DBytes string
  | DMysqlDecimal string
  | DBinaryLiteral string string
  | DUnprintable

text \<open>\<^verbatim>\<open>Datum.GetString\<close>: the bytes of the datum, which numbers do not have.\<close>

fun Datum_GetString :: "Datum \<Rightarrow> string" where
  "Datum_GetString (DString s cs) = s"
| "Datum_GetString (DBytes s) = s"
| "Datum_GetString (DBinaryLiteral s t) = s"
| "Datum_GetString _ = []"

section \<open>Expressions\<close>

datatype ExprNode =
    EColumn ColumnName
  | EValue Datum
  | EFuncCall CIStr "ExprNode list"
  | EAggregate string "ExprNode list" bool
  | EBinary Op ExprNode ExprNode
  | EUnary Op ExprNode
  | EPatternIn ExprNode "ExprNode list" bool "ExprNode option"
  | EBetween ExprNode ExprNode ExprNode bool
  | EIsNull ExprNode bool
  | EParen ExprNode
  | EOther "string list" "ExprNode list"
  | EColumnDec ColumnName Rule bool
  | EPatternInDec ExprNode "ExprNode list" bool "int list" "(int \<times> ExprNode list) list" Rule
  | EBetweenDec ExprNode ExprNode ExprNode bool "int list" Rule

section \<open>Printing\<close>

text \<open>
  \<^verbatim>\<open>Restore\<close> writes into a buffer and may stop with an error: an output is the text written and
  how the call ended. Some callers drop the error and go on with what has been written.
\<close>

type_synonym out = "string \<times> unit res"

definition wr :: "string \<Rightarrow> out" where
  "wr s = (s, Ok ())"

definition fail :: "unit res \<Rightarrow> out" where
  "fail r = ([], r)"

fun also_wr :: "out \<Rightarrow> out \<Rightarrow> out" where
  "also_wr (s, Ok ()) (t, r) = (s @ t, r)"
| "also_wr (s, r) _ = (s, r)"

fun outs :: "out list \<Rightarrow> out" where
  "outs [] = wr []"
| "outs (w # ws) = also_wr w (outs ws)"

fun sep_outs :: "string \<Rightarrow> out list \<Rightarrow> out" where
  "sep_outs sep [] = wr []"
| "sep_outs sep [w] = w"
| "sep_outs sep (w # ws) = outs [w, wr sep, sep_outs sep ws]"

fun drop_error :: "out \<Rightarrow> out" where
  "drop_error (s, Err e) = (s, Ok ())"
| "drop_error w = w"

definition out_res :: "out \<Rightarrow> string res" where
  "out_res w = andThen (snd w) (\<lambda>_. Ok (fst w))"

definition res_out :: "string res \<Rightarrow> out" where
  "res_out r = (case r of Ok s \<Rightarrow> wr s | Err e \<Rightarrow> fail (Err e) | Panic q \<Rightarrow> fail (Panic q))"

lemma out_res_simps [simp]: "out_res (wr s) = Ok s" "out_res (fail (Err e)) = Err e" "out_res (fail (Panic q)) = Panic q"
  by (simp_all add: out_res_def wr_def fail_def)

text \<open>\<^verbatim>\<open>RestoreCtx\<close> with \<^verbatim>\<open>EscapeRestoreFlags\<close>: upper-case keywords, names in back quotes,
  strings in single quotes with backslashes doubled.\<close>

definition upper_char :: "char \<Rightarrow> char" where
  "upper_char c = (if 97 \<le> (of_char c :: int) \<and> (of_char c :: int) \<le> 122 then char_of (of_char c - 32 :: int) else c)"

definition WriteKeyWord :: "string \<Rightarrow> string" where
  "WriteKeyWord = map upper_char"

definition double_char :: "char \<Rightarrow> string \<Rightarrow> string" where
  "double_char q s = concat (map (\<lambda>c. if c = q then [q, q] else [c]) s)"

definition WriteString :: "string \<Rightarrow> string" where
  "WriteString s = CHR 39 # double_char (CHR 39) (double_char (CHR 92) s) @ [CHR 39]"

definition WriteName :: "string \<Rightarrow> string" where
  "WriteName s = CHR 96 # double_char (CHR 96) s @ [CHR 96]"

text \<open>\<^verbatim>\<open>fmt.Sprintf("%04d", n)\<close>: the sign counts in the width.\<close>

definition fmt04d :: "int \<Rightarrow> string" where
  "fmt04d n =
     (if 0 \<le> n then (if n < 10000 then zdigits 4 n else nat_str n)
      else CHR ''-'' # (if - n < 1000 then zdigits 3 (- n) else nat_str (- n)))"

definition Op_Restore :: "Op \<Rightarrow> out" where
  "Op_Restore o1 =
     (case opsLiteral o1 of
        Some v \<Rightarrow> wr v
      | None \<Rightarrow> fail (Err (ErrMsg ''Invalid opcode type during restoring AST to SQL text'')))"

fun weave :: "string list \<Rightarrow> out list \<Rightarrow> out" where
  "weave (p # ps) (x # xs) = outs [wr p, x, weave ps xs]"
| "weave ps [] = wr (concat ps)"
| "weave [] xs = outs xs"

definition write_opt :: "string \<Rightarrow> out" where
  "write_opt s = (if s = [] then wr [] else wr (WriteName s @ ''.''))"

definition ColumnName_Restore :: "ColumnName \<Rightarrow> out" where
  "ColumnName_Restore n = outs [write_opt (ci_O (cn_Schema n)), write_opt (ci_O (cn_Table n)), wr (WriteName (ci_O (cn_Name n)))]"

definition ColumnName_RestoreAsPlain :: "ColumnName \<Rightarrow> out" where
  "ColumnName_RestoreAsPlain n =
     (let plain = (\<lambda>s. if s = [] then wr [] else wr (s @ ''.''))
      in outs [plain (ci_O (cn_Schema n)), plain (ci_O (cn_Table n)), wr (ci_O (cn_Name n))])"

definition DefaultCharset :: string where "DefaultCharset = ''utf8mb4''"

fun ValueExpr_Restore :: "Datum \<Rightarrow> out" where
  "ValueExpr_Restore DNull = wr ''NULL''"
| "ValueExpr_Restore (DInt64 n boolean) = wr (if boolean then (if n > 0 then ''TRUE'' else ''FALSE'') else itoa n)"
| "ValueExpr_Restore (DUint64 n) = wr (itoa n)"
| "ValueExpr_Restore (DFloat32 t) = wr t"
| "ValueExpr_Restore (DFloat64 t) = wr t"
| "ValueExpr_Restore (DString s charset) =
     wr ((if charset \<noteq> [] \<and> charset \<noteq> DefaultCharset then ''_'' @ WriteKeyWord charset else []) @ WriteString s)"
| "ValueExpr_Restore (DBytes s) = wr (WriteString s)"
| "ValueExpr_Restore (DMysqlDecimal t) = wr t"
| "ValueExpr_Restore (DBinaryLiteral s t) = wr t"
| "ValueExpr_Restore DUnprintable = fail (Err (ErrMsg ''Not implemented''))"

text \<open>The database and the table name that a decorator prints.\<close>

definition decorated_schema :: "Rule \<Rightarrow> int \<Rightarrow> CIStr \<Rightarrow> out" where
  "decorated_schema rule tableIndex schema =
     (if ci_O schema = [] then wr []
      else if GetType rule = ShardGlobal \<or> IsMycatShardingRule (GetType rule)
      then case GetDatabaseNameByTableIndex rule tableIndex of
             Ok dbName \<Rightarrow> wr (WriteName dbName @ ''.'')
           | Err _ \<Rightarrow> fail (Err (ErrMsg ''get mycat database name error''))
           | Panic p \<Rightarrow> fail (Panic p)
      else wr (WriteName (ci_O schema) @ ''.''))"

definition renamed_table :: "Rule \<Rightarrow> bool \<Rightarrow> int \<Rightarrow> string \<Rightarrow> string" where
  "renamed_table rule isAlias tableIndex t =
     (if GetType rule = ShardGlobal \<or> IsMycatShardingRule (GetType rule) \<or> isAlias then t
      else t @ ''_'' @ fmt04d tableIndex)"

definition at_table :: "RouteResult \<Rightarrow> (int \<Rightarrow> out) \<Rightarrow> out" where
  "at_table rr f =
     (case rr_GetCurrentTableIndex rr of Ok tableIndex \<Rightarrow> f tableIndex | Err e \<Rightarrow> fail (Err e) | Panic q \<Rightarrow> fail (Panic q))"

definition ColumnNameDecorator_Restore :: "RouteResult \<Rightarrow> ColumnName \<Rightarrow> Rule \<Rightarrow> bool \<Rightarrow> out" where
  "ColumnNameDecorator_Restore rr origin rule isAlias =
     at_table rr (\<lambda>tableIndex.
       outs [decorated_schema rule tableIndex (cn_Schema origin),
             (if ci_O (cn_Table origin) = [] then wr []
              else wr (WriteName (renamed_table rule isAlias tableIndex (ci_O (cn_Table origin))) @ ''.'')),
             wr (WriteName (ci_O (cn_Name origin)))])"

definition TableName_Restore :: "TableName \<Rightarrow> out" where
  "TableName_Restore n =
     outs [write_opt (ci_O (tn_Schema n)), wr (WriteName (ci_O (tn_Name n))),
           (if tn_PartitionNames n = [] then wr []
            else outs [wr '' PARTITION('', sep_outs '', '' (map (\<lambda>v. wr (WriteName (ci_O v))) (tn_PartitionNames n)), wr '')'']),
           outs (map (\<lambda>h. wr ('' '' @ h)) (tn_IndexHints n))]"

definition TableNameDecorator_Restore :: "RouteResult \<Rightarrow> TableName \<Rightarrow> Rule \<Rightarrow> out" where
  "TableNameDecorator_Restore rr origin rule =
     at_table rr (\<lambda>tableIndex.
       outs [decorated_schema rule tableIndex (tn_Schema origin),
             wr (WriteName (renamed_table rule False tableIndex (ci_O (tn_Name origin)))),
             outs (map (\<lambda>h. wr ('' '' @ h)) (tn_IndexHints origin))])"

text \<open>The value list that an \<^verbatim>\<open>IN\<close> decorator prints for the current table: empty when no value of
  the list belongs to it.\<close>

definition values_at :: "(int \<times> 'a list) list \<Rightarrow> int \<Rightarrow> 'a list" where
  "values_at m i = (case map_of m i of None \<Rightarrow> [] | Some vs \<Rightarrow> vs)"

lemma size_list_member: "x \<in> set xs \<Longrightarrow> size x < size_list size xs"
  by (induction xs) auto

lemma values_at_size [termination_simp]:
  "x \<in> set (values_at m i) \<Longrightarrow> size x < Suc (a + size_list (\<lambda>p. Suc (size_list size (snd p))) m + b)"
proof (induction m)
  case (Cons p m)
  show ?case
  proof (cases "fst p = i")
    case True
    then show ?thesis using Cons.prems size_list_member [of x "snd p"] by (cases p) (simp add: values_at_def)
  next
    case False
    then show ?thesis using Cons by (cases p) (simp add: values_at_def)
  qed
qed (simp add: values_at_def)

text \<open>The nodes, given what their parts print.\<close>

definition BetweenExpr_Restore :: "out \<Rightarrow> out \<Rightarrow> out \<Rightarrow> bool \<Rightarrow> out" where
  "BetweenExpr_Restore e l r isNot = outs [e, wr (if isNot then '' NOT BETWEEN '' else '' BETWEEN ''), l, wr '' AND '', r]"

definition BinaryOperationExpr_Restore :: "Op \<Rightarrow> out \<Rightarrow> out \<Rightarrow> out" where
  "BinaryOperationExpr_Restore o1 l r = outs [l, Op_Restore o1, r]"

definition UnaryOperationExpr_Restore :: "Op \<Rightarrow> out \<Rightarrow> out" where
  "UnaryOperationExpr_Restore o1 v = outs [Op_Restore o1, v]"

definition PatternInExpr_Restore :: "out \<Rightarrow> out list \<Rightarrow> bool \<Rightarrow> out option \<Rightarrow> out" where
  "PatternInExpr_Restore e vs isNot sel =
     outs [e, wr (if isNot then '' NOT IN '' else '' IN ''),
           (case sel of Some s \<Rightarrow> s | None \<Rightarrow> outs [wr ''('', sep_outs '','' vs, wr '')''])]"

definition IsNullExpr_Restore :: "out \<Rightarrow> bool \<Rightarrow> out" where
  "IsNullExpr_Restore e isNot = outs [e, wr (if isNot then '' IS NOT NULL'' else '' IS NULL'')]"

definition ParenthesesExpr_Restore :: "out \<Rightarrow> out" where
  "ParenthesesExpr_Restore e = outs [wr ''('', e, wr '')'']"

text \<open>
  A function call: an argument is given with what it prints. Some functions print a literal argument
  as a keyword; the type assertion on it panics when it is no literal. The parser passes the
  direction of \<^verbatim>\<open>TRIM\<close> as an integer literal.
\<close>

fun literal_string :: "ExprNode \<Rightarrow> string res" where
  "literal_string (EValue d) = Ok (Datum_GetString d)"
| "literal_string _ = Panic (PMsg ''interface conversion'')"

fun argument_charset :: "ExprNode \<Rightarrow> string" where
  "argument_charset (EValue (DString s charset)) = charset"
| "argument_charset _ = []"

fun trim_keyword :: "ExprNode \<Rightarrow> out" where
  "trim_keyword (EValue (DInt64 n b)) =
     wr (if n = 3 then ''TRAILING '' else if n = 2 then ''LEADING '' else if n = 0 \<or> n = 1 then ''BOTH '' else [])"
| "trim_keyword (EValue d) = wr []"
| "trim_keyword _ = fail (Panic (PMsg ''interface conversion''))"

definition trim_args :: "(ExprNode \<times> out) list \<Rightarrow> out" where
  "trim_args args =
     (case args of
        [(_, w0)] \<Rightarrow> w0
      | [(_, w0), (_, w1)] \<Rightarrow> outs [w1, wr '' FROM '', w0]
      | [(_, w0), (a1, w1), (a2, _)] \<Rightarrow>
          outs [trim_keyword a2,
                (case a1 of EValue DNull \<Rightarrow> wr [] | EValue d \<Rightarrow> outs [w1, wr '' '']
                          | _ \<Rightarrow> fail (Panic (PMsg ''interface conversion''))),
                wr ''FROM '', w0]
      | _ \<Rightarrow> wr [])"

definition call_args :: "string \<Rightarrow> (ExprNode \<times> out) list \<Rightarrow> out" where
  "call_args f args =
     (let text = (\<lambda>i. case at args i of Ok (_, w) \<Rightarrow> w | _ \<Rightarrow> fail (Panic PIndex));
          keyword = (\<lambda>i. res_out (andThen (at args i) (\<lambda>a. andThen (literal_string (fst a)) (\<lambda>t. Ok (WriteKeyWord t)))))
      in if f = ''convert'' then
           outs [text 0, wr '' USING '', res_out (andThen (at args 1) (\<lambda>a. Ok (WriteKeyWord (argument_charset (fst a)))))]
         else if f \<in> {''adddate'', ''subdate'', ''date_add'', ''date_sub''} then
           outs [text 0, wr '', INTERVAL '', text 1, wr '' '', keyword 2]
         else if f = ''extract'' then outs [keyword 0, wr '' FROM '', text 1]
         else if f = ''get_format'' then outs [keyword 0, wr '', '', text 1]
         else if f = ''position'' then outs [text 0, wr '' IN '', text 1]
         else if f = ''trim'' then trim_args args
         else if f \<in> {''timestampdiff'', ''timestampadd''} then
           outs (keyword 0 # map (\<lambda>a. outs [wr '', '', snd a]) (tl args))
         else sep_outs '', '' (map snd args))"

definition FuncCallExpr_Restore :: "CIStr \<Rightarrow> (ExprNode \<times> out) list \<Rightarrow> out" where
  "FuncCallExpr_Restore f args = outs [wr (WriteKeyWord (ci_O f) @ ''(''), call_args (ci_L f) args, wr '')'']"

text \<open>An aggregate call; \<^verbatim>\<open>COUNT\<close> prints a column without quotes.\<close>

fun count_text :: "ExprNode \<times> out \<Rightarrow> out" where
  "count_text (EColumn c, w) = ColumnName_RestoreAsPlain c"
| "count_text (_, w) = w"

definition AggregateFuncExpr_Restore :: "string \<Rightarrow> (ExprNode \<times> out) list \<Rightarrow> bool \<Rightarrow> out" where
  "AggregateFuncExpr_Restore f args isDistinct =
     outs [wr (f @ ''(''), wr (if isDistinct then ''DISTINCT '' else []),
       (if toLower f = ''group_concat'' then
          outs [sep_outs '', '' (map snd (butlast args)), wr '' SEPARATOR '',
                (if args = [] then fail (Panic PIndex) else snd (last args))]
        else sep_outs '', '' (map (if toLower f = ''count'' then count_text else snd) args)),
       wr '')'']"

text \<open>The \<^verbatim>\<open>IN\<close> decorator prints the values that belong to the current table.\<close>

definition PatternInExprDecorator_Restore :: "out \<Rightarrow> out list \<Rightarrow> bool \<Rightarrow> out" where
  "PatternInExprDecorator_Restore e vs isNot =
     outs [e, wr (if isNot then '' NOT IN '' else '' IN ''), wr ''('', sep_outs '','' vs, wr '')'']"

definition BetweenExprDecorator_Restore :: "out \<Rightarrow> out \<Rightarrow> out \<Rightarrow> bool \<Rightarrow> out" where
  "BetweenExprDecorator_Restore column l r isNot =
     outs [column, wr (if isNot then '' NOT BETWEEN '' else '' BETWEEN ''), l, wr '' AND '', r]"

fun Restore :: "RouteResult \<Rightarrow> ExprNode \<Rightarrow> out" where
  "Restore rr (EColumn c) = ColumnName_Restore c"
| "Restore rr (EValue d) = ValueExpr_Restore d"
| "Restore rr (EFuncCall f args) = FuncCallExpr_Restore f (map (\<lambda>a. (a, Restore rr a)) args)"
| "Restore rr (EAggregate f args isDistinct) = AggregateFuncExpr_Restore f (map (\<lambda>a. (a, Restore rr a)) args) isDistinct"
| "Restore rr (EBinary o1 l r) = BinaryOperationExpr_Restore o1 (Restore rr l) (Restore rr r)"
| "Restore rr (EUnary o1 v) = UnaryOperationExpr_Restore o1 (Restore rr v)"
| "Restore rr (EPatternIn e vs isNot sel) =
     PatternInExpr_Restore (Restore rr e) (map (Restore rr) vs) isNot (map_option (Restore rr) sel)"
| "Restore rr (EBetween e l r isNot) = BetweenExpr_Restore (Restore rr e) (Restore rr l) (Restore rr r) isNot"
| "Restore rr (EIsNull e isNot) = IsNullExpr_Restore (Restore rr e) isNot"
| "Restore rr (EParen e) = ParenthesesExpr_Restore (Restore rr e)"
| "Restore rr (EOther ps es) = weave ps (map (Restore rr) es)"
| "Restore rr (EColumnDec c rule isAlias) = ColumnNameDecorator_Restore rr c rule isAlias"
| "Restore rr (EPatternInDec e vs isNot indexes valueMap rule) =
     at_table rr (\<lambda>tableIndex.
       PatternInExprDecorator_Restore (Restore rr e) (map (\<lambda>v. Restore rr v) (values_at valueMap tableIndex)) isNot)"
| "Restore rr (EBetweenDec e l r isNot indexes rule) =
     BetweenExprDecorator_Restore (Restore rr e) (Restore rr l) (Restore rr r) isNot"

end
