(* ===== verification/Plan_Info.thy ===== *)
theory Plan_Info
  imports Sql_Ast
begin

text \<open>
  \<^verbatim>\<open>src/proxy/plan/plan.go\<close>: what a plan knows of its statement. A \<open>StmtInfo\<close> collects the
  sharded and global tables of the statement with their rules and holds the route result; a
  \<open>TableAliasStmtInfo\<close> also has the table aliases and the physical database of a hint.

  The maps of the source are association lists without duplicate keys. Where the source takes
  \<^emph>\<open>some\<close> entry of a map, by leaving a \<^verbatim>\<open>range\<close> loop in its first round, the entry is
  chosen by a parameter \<open>pick\<close>: Go fixes no iteration order.
\<close>

section \<open>Errors with context\<close>

text \<open>\<^verbatim>\<open>fmt.Errorf("... error: %v", err)\<close> around an error; a panic passes through.\<close>

fun wrap :: "string \<Rightarrow> 'a res \<Rightarrow> 'a res" where
  "wrap msg (Ok x) = Ok x"
| "wrap msg (Err e) = Err (ErrMsg msg)"
| "wrap msg (Panic p) = Panic p"

lemma wrap_eq_Ok [simp]: "wrap msg r = Ok x \<longleftrightarrow> r = Ok x"
  by (cases r) auto

lemma andThen_cong [fundef_cong]:
  "m = m' \<Longrightarrow> (\<And>x. m' = Ok x \<Longrightarrow> f x = g x) \<Longrightarrow> andThen m f = andThen m' g"
  by (cases m) auto

text \<open>A loop that stops at the first error.\<close>

fun all_ok :: "'a res list \<Rightarrow> 'a list res" where
  "all_ok [] = Ok []"
| "all_ok (r # rs) = andThen r (\<lambda>x. andThen (all_ok rs) (\<lambda>xs. Ok (x # xs)))"

section \<open>Statement information\<close>

record StmtInfo =
  si_db :: string
  si_sql :: string
  si_router :: Router
  si_tableRules :: "(string \<times> Rule) list"
  si_globalTableRules :: "(string \<times> Rule) list"
  si_result :: RouteResult

record TableAliasStmtInfo = StmtInfo +
  si_tableAlias :: "(string \<times> string) list"
  si_hintPhyDB :: string

definition NewStmtInfo :: "string \<Rightarrow> string \<Rightarrow> Router \<Rightarrow> StmtInfo" where
  "NewStmtInfo db sql r =
     \<lparr>si_db = db, si_sql = sql, si_router = r, si_tableRules = [], si_globalTableRules = [],
      si_result = NewRouteResult [] [] []\<rparr>"

definition NewTableAliasStmtInfo :: "string \<Rightarrow> string \<Rightarrow> Router \<Rightarrow> TableAliasStmtInfo" where
  "NewTableAliasStmtInfo db sql r =
     \<lparr>si_db = db, si_sql = sql, si_router = r, si_tableRules = [], si_globalTableRules = [],
      si_result = NewRouteResult [] [] [], si_tableAlias = [], si_hintPhyDB = []\<rparr>"

definition checkAndGetDB :: "'a StmtInfo_scheme \<Rightarrow> string \<Rightarrow> string res" where
  "checkAndGetDB s db = (if db \<noteq> [] \<and> db \<noteq> si_db s then Err (ErrMsg ''db not match'') else Ok (si_db s))"

text \<open>The rule of a table, recorded among the tables of the statement.\<close>

definition getShardRule :: "'a StmtInfo_scheme \<Rightarrow> string \<Rightarrow> string \<Rightarrow> (Rule \<times> 'a StmtInfo_scheme) res" where
  "getShardRule s db table =
     andThen (checkAndGetDB s db) (\<lambda>validDB.
       case GetShardRule (si_router s) validDB table of
         None \<Rightarrow> Err (ErrMsg ''rule not found'')
       | Some rule \<Rightarrow>
           Ok (rule,
               if GetType rule = ShardGlobal
               then s\<lparr>si_globalTableRules := AList.update table rule (si_globalTableRules s)\<rparr>
               else s\<lparr>si_tableRules := AList.update table rule (si_tableRules s)\<rparr>))"

fun GetParentTable :: "LinkedRule \<Rightarrow> string" where
  "GetParentTable l = br_table (lr_linkToRule l)"

fun route_table :: "Rule \<Rightarrow> string" where
  "route_table (RLinked l) = GetParentTable l"
| "route_table (RBase r) = br_table r"

definition checkStmtRouteResult :: "'a StmtInfo_scheme \<Rightarrow> Rule \<Rightarrow> 'a StmtInfo_scheme res" where
  "checkStmtRouteResult s rule =
     (if GetType rule = ShardGlobal then Ok s
      else let db = GetDB rule; table = route_table rule; result = si_result s
           in if rr_db result = [] \<and> rr_table result = []
              then Ok (s\<lparr>si_result := result\<lparr>rr_db := db, rr_table := table, rr_indexes := GetSubTableIndexes rule\<rparr>\<rparr>)
              else andThen (wrap ''check db and table error'' (rr_Check result db table)) (\<lambda>_. Ok s))"

definition StmtInfo_RecordShardTable ::
  "'a StmtInfo_scheme \<Rightarrow> string \<Rightarrow> string \<Rightarrow> (Rule \<times> 'a StmtInfo_scheme) res" where
  "StmtInfo_RecordShardTable s db table =
     andThen (wrap ''get shard rule error'' (getShardRule s db table)) (\<lambda>(rule, s).
     andThen (wrap ''check route result error'' (checkStmtRouteResult s rule)) (\<lambda>s. Ok (rule, s)))"

section \<open>Aliases\<close>

definition setTableAlias :: "TableAliasStmtInfo \<Rightarrow> string \<Rightarrow> string \<Rightarrow> TableAliasStmtInfo res" where
  "setTableAlias t table alias =
     (case map_of (si_tableAlias t) alias of
        None \<Rightarrow> Ok (t\<lparr>si_tableAlias := AList.update alias table (si_tableAlias t)\<rparr>)
      | Some originTable \<Rightarrow>
          if originTable \<noteq> table then Err (ErrMsg ''table alias is set but not match'') else Ok t)"

definition getAliasTable :: "TableAliasStmtInfo \<Rightarrow> string \<Rightarrow> string option" where
  "getAliasTable t alias = map_of (si_tableAlias t) alias"

definition RecordShardTable ::
  "TableAliasStmtInfo \<Rightarrow> string \<Rightarrow> string \<Rightarrow> string \<Rightarrow> (Rule \<times> TableAliasStmtInfo) res" where
  "RecordShardTable t db table alias =
     andThen (wrap ''record shard table error'' (StmtInfo_RecordShardTable t db table)) (\<lambda>(rule, t).
       if alias \<noteq> [] then andThen (wrap ''set table alias error'' (setTableAlias t table alias)) (\<lambda>t. Ok (rule, t))
       else Ok (rule, t))"

type_synonym pick = "(string \<times> Rule) list \<Rightarrow> string \<times> Rule"

definition RecordSubqueryTableAlias ::
  "pick \<Rightarrow> TableAliasStmtInfo \<Rightarrow> string \<Rightarrow> (Rule \<times> TableAliasStmtInfo) res" where
  "RecordSubqueryTableAlias pick t alias =
     (if alias = [] then Err (ErrMsg ''subquery table alias is nil'')
      else if si_tableRules t = [] then Err (ErrMsg ''no explicit table exist except subquery'')
      else let table = ''gaea_subquery_'' @ alias
           in andThen (wrap ''set subquery table alias error'' (setTableAlias t table alias)) (\<lambda>t.
                let rule = snd (pick (si_tableRules t))
                in Ok (rule, t\<lparr>si_tableRules := AList.update table rule (si_tableRules t)\<rparr>)))"

section \<open>The rule of a column\<close>

definition getSettedRuleByColumnName :: "'a StmtInfo_scheme \<Rightarrow> string \<Rightarrow> Rule option res" where
  "getSettedRuleByColumnName s column =
     (let matching = filter (\<lambda>(t, r). GetShardingColumn r = column) (si_tableRules s)
      in if length matching > 1 then Err (ErrMsg ''column is ambiguous for sharding'')
         else Ok (case matching of [] \<Rightarrow> None | (t, r) # _ \<Rightarrow> Some r))"

definition getSettedRuleFromTable :: "TableAliasStmtInfo \<Rightarrow> string \<Rightarrow> string \<Rightarrow> (Rule \<times> bool) res" where
  "getSettedRuleFromTable t db table =
     andThen (checkAndGetDB t db) (\<lambda>_.
       case map_of (si_tableRules t) table of Some rule \<Rightarrow> Ok (rule, False) | None \<Rightarrow>
       case map_of (si_globalTableRules t) table of Some rule \<Rightarrow> Ok (rule, False) | None \<Rightarrow>
       case getAliasTable t table of
         None \<Rightarrow> Err (ErrMsg ''rule not found'')
       | Some originTable \<Rightarrow>
           (case map_of (si_tableRules t) originTable of Some rule \<Rightarrow> Ok (rule, True) | None \<Rightarrow>
            case map_of (si_globalTableRules t) originTable of Some rule \<Rightarrow> Ok (rule, True) | None \<Rightarrow>
            Err (ErrMsg ''rule not found'')))"

text \<open>The rule and the alias flag of a column, or \<open>None\<close> where the source returns a nil rule.\<close>

definition GetSettedRuleFromColumnInfo ::
  "TableAliasStmtInfo \<Rightarrow> string \<Rightarrow> string \<Rightarrow> string \<Rightarrow> (Rule \<times> bool) option res" where
  "GetSettedRuleFromColumnInfo t db table column =
     (if db = [] \<and> table = []
      then andThen (getSettedRuleByColumnName t column) (\<lambda>r. Ok (map_option (\<lambda>rule. (rule, False)) r))
      else andThen (getSettedRuleFromTable t db table) (\<lambda>r. Ok (Some r)))"

definition needCreateColumnNameDecorator :: "TableAliasStmtInfo \<Rightarrow> ColumnName \<Rightarrow> (Rule \<times> bool) option res" where
  "needCreateColumnNameDecorator p n =
     (case getColumnInfoFromColumnName n of (db, table, column) \<Rightarrow> GetSettedRuleFromColumnInfo p db table column)"

definition NeedCreateColumnNameExprDecoratorInField ::
  "TableAliasStmtInfo \<Rightarrow> ColumnName \<Rightarrow> (Rule \<times> bool) option res" where
  "NeedCreateColumnNameExprDecoratorInField p n =
     (case getColumnInfoFromColumnName n of (db, table, _) \<Rightarrow>
        if db = [] \<and> table = [] then Ok None else needCreateColumnNameDecorator p n)"

definition NeedCreateColumnNameExprDecoratorInCondition ::
  "TableAliasStmtInfo \<Rightarrow> ColumnName \<Rightarrow> (Rule \<times> bool) option res" where
  "NeedCreateColumnNameExprDecoratorInCondition p n = needCreateColumnNameDecorator p n"

definition NeedCreateTableNameDecoratorWithoutAlias ::
  "'a StmtInfo_scheme \<Rightarrow> TableName \<Rightarrow> (Rule \<times> 'a StmtInfo_scheme) res" where
  "NeedCreateTableNameDecoratorWithoutAlias p n =
     (case getTableInfoFromTableName n of (db, table) \<Rightarrow>
        wrap ''record shard table in SelectPlan error'' (StmtInfo_RecordShardTable p db table))"

definition NeedCreateTableNameDecorator ::
  "TableAliasStmtInfo \<Rightarrow> TableName \<Rightarrow> string \<Rightarrow> (Rule \<times> TableAliasStmtInfo) res" where
  "NeedCreateTableNameDecorator p n alias =
     (case getTableInfoFromTableName n of (db, table) \<Rightarrow>
        wrap ''record shard table in SelectPlan error'' (RecordShardTable p db table alias))"

text \<open>\<^verbatim>\<open>CreateTableNameDecorator\<close>: the decorated source is the table name with its rule.\<close>

definition CreateTableNameDecorator :: "TableName \<Rightarrow> Rule \<Rightarrow> (TableName \<times> Rule) res" where
  "CreateTableNameDecorator n rule =
     (if tn_PartitionNames n \<noteq> [] then Err (ErrMsg ''TableName does not support PartitionNames in sharding'')
      else Ok (n, rule))"

section \<open>Global tables\<close>

definition postHandleGlobalTableRouteResultInQuery :: "pick \<Rightarrow> 'a StmtInfo_scheme \<Rightarrow> 'a StmtInfo_scheme" where
  "postHandleGlobalTableRouteResultInQuery pick p =
     (if si_tableRules p = [] \<and> si_globalTableRules p \<noteq> []
      then case pick (si_globalTableRules p) of (tableName, rule) \<Rightarrow>
             p\<lparr>si_result := (si_result p)\<lparr>rr_db := GetDB rule, rr_table := tableName, rr_indexes := [0]\<rparr>\<rparr>
      else p)"

definition postHandleGlobalTableRouteResultInModify :: "pick \<Rightarrow> 'a StmtInfo_scheme \<Rightarrow> 'a StmtInfo_scheme" where
  "postHandleGlobalTableRouteResultInModify pick p =
     (if si_tableRules p = [] \<and> si_globalTableRules p \<noteq> []
      then case pick (si_globalTableRules p) of (tableName, rule) \<Rightarrow>
             p\<lparr>si_result := (si_result p)\<lparr>rr_db := GetDB rule, rr_table := tableName,
                                            rr_indexes := GetSubTableIndexes rule\<rparr>\<rparr>
      else p)"

section \<open>Generating the statements of the shards\<close>

text \<open>
  The result map: slice, then physical database, then statements. The statement is printed by its
  \<^verbatim>\<open>Restore\<close>, here an argument that prints for the table at the cursor.
\<close>

type_synonym sqls = "(string \<times> (string \<times> string list) list) list"

definition add_sql :: "sqls \<Rightarrow> string \<Rightarrow> string \<Rightarrow> string \<Rightarrow> sqls" where
  "add_sql ret sliceName dbName sql =
     (let sliceSQLs = (case map_of ret sliceName of None \<Rightarrow> [] | Some m \<Rightarrow> m)
      in AList.update sliceName (AList.update dbName ((case map_of sliceSQLs dbName of None \<Rightarrow> [] | Some l \<Rightarrow> l) @ [sql]) sliceSQLs) ret)"

text \<open>Where one statement goes: \<^verbatim>\<open>rule.GetSlice(rule.GetSliceIndexFromTableIndex(index))\<close> and the
  database, whose error the source drops.\<close>

definition sql_target :: "Rule \<Rightarrow> int \<Rightarrow> (string \<times> string) res" where
  "sql_target rule index =
     andThen (GetSlice rule (GetSliceIndexFromTableIndex rule index)) (\<lambda>sliceName.
       case GetDatabaseNameByTableIndex rule index of
         Ok dbName \<Rightarrow> Ok (sliceName, dbName)
       | Err _ \<Rightarrow> Ok (sliceName, [])
       | Panic p \<Rightarrow> Panic p)"

function gen_loop :: "(RouteResult \<Rightarrow> string res) \<Rightarrow> Router \<Rightarrow> RouteResult \<Rightarrow> sqls \<Rightarrow> (sqls \<times> RouteResult) res" where
  "gen_loop restore router result ret =
     (if rr_HasNext result
      then andThen (restore result) (\<lambda>sql.
           andThen (rr_Next result) (\<lambda>(index, result').
             case GetShardRule router (rr_db result') (rr_table result') of
               None \<Rightarrow> Err (ErrMsg ''cannot find shard rule'')
             | Some rule \<Rightarrow>
                 andThen (sql_target rule index) (\<lambda>(sliceName, dbName).
                   gen_loop restore router result' (add_sql ret sliceName dbName sql))))
      else Ok (ret, result))"
  by pat_completeness auto

termination
  by (relation "measure (\<lambda>(restore, router, rr, ret). nat (int (length (rr_indexes rr)) - rr_currentIndex rr))")
     (auto simp: rr_Next_def rr_HasNext_def)

declare gen_loop.simps [simp del]

definition generateShardingSQLs ::
  "(RouteResult \<Rightarrow> string res) \<Rightarrow> RouteResult \<Rightarrow> Router \<Rightarrow> (sqls \<times> RouteResult) res" where
  "generateShardingSQLs restore result router =
     andThen (gen_loop restore router result []) (\<lambda>(ret, result). Ok (ret, rr_Reset result))"

fun origin_loop :: "string \<Rightarrow> Rule \<Rightarrow> int list \<Rightarrow> sqls \<Rightarrow> sqls res" where
  "origin_loop sql rule [] ret = Ok ret"
| "origin_loop sql rule (index # indexes) ret =
     andThen (sql_target rule index) (\<lambda>(sliceName, dbName).
       origin_loop sql rule indexes (add_sql ret sliceName dbName sql))"

definition generateSQLResultFromOriginSQL :: "string \<Rightarrow> RouteResult \<Rightarrow> Router \<Rightarrow> (sqls \<times> Router) res" where
  "generateSQLResultFromOriginSQL sql result router =
     (case GetRule router (rr_db result) (rr_table result) of (rule, router) \<Rightarrow>
        andThen (origin_loop sql rule (GetSubTableIndexes rule) []) (\<lambda>ret. Ok (ret, router)))"

section \<open>What is generated\<close>

definition sql_at :: "sqls \<Rightarrow> string \<Rightarrow> string \<Rightarrow> string list" where
  "sql_at ret sliceName dbName =
     (case map_of ret sliceName of None \<Rightarrow> [] | Some m \<Rightarrow> (case map_of m dbName of None \<Rightarrow> [] | Some l \<Rightarrow> l))"

lemma sql_at_Nil [simp]: "sql_at [] sl db = []"
  by (simp add: sql_at_def)

lemma sql_at_add_sql:
  "sql_at (add_sql ret sl db q) sl' db' = sql_at ret sl' db' @ (if sl' = sl \<and> db' = db then [q] else [])"
  by (auto simp: sql_at_def add_sql_def Let_def update_conv' split: option.splits)

definition printed :: "(RouteResult \<Rightarrow> string res) \<Rightarrow> RouteResult \<Rightarrow> nat \<Rightarrow> string" where
  "printed restore rr k = (case restore (rr\<lparr>rr_currentIndex := int k\<rparr>) of Ok t \<Rightarrow> t | _ \<Rightarrow> [])"

definition targets :: "Rule \<Rightarrow> int list \<Rightarrow> string \<Rightarrow> string \<Rightarrow> nat \<Rightarrow> bool" where
  "targets rule indexes sl db k \<longleftrightarrow> sql_target rule (indexes ! k) = Ok (sl, db)"

lemma rr_Next_eq:
  assumes "rr_currentIndex rr = int k" "k < length (rr_indexes rr)"
  shows "rr_Next rr = Ok (rr_indexes rr ! k, rr\<lparr>rr_currentIndex := int (Suc k)\<rparr>)"
  using assms by (simp add: rr_Next_def at_def algebra_simps)

lemma gen_loop_spec:
  assumes "gen_loop restore router rr ret = Ok (ret', rr')" "rr_currentIndex rr = int k" "k \<le> length (rr_indexes rr)"
    "GetShardRule router (rr_db rr) (rr_table rr) = Some rule"
  shows "rr' = rr\<lparr>rr_currentIndex := int (length (rr_indexes rr))\<rparr> \<and>
    sql_at ret' sl db = sql_at ret sl db
       @ map (printed restore rr) (filter (targets rule (rr_indexes rr) sl db) [k..<length (rr_indexes rr)]) \<and>
    (\<forall>j. k \<le> j \<and> j < length (rr_indexes rr) \<longrightarrow>
       is_ok (restore (rr\<lparr>rr_currentIndex := int j\<rparr>)) \<and> is_ok (sql_target rule (rr_indexes rr ! j)))"
  using assms
proof (induction restore router rr ret arbitrary: k rule: gen_loop.induct)
  case (1 restore router rr ret)
  note prems = "1.prems"
  {
    assume h: "\<not> rr_HasNext rr"
    then have k: "k = length (rr_indexes rr)" using prems by (simp add: rr_HasNext_def)
    have e: "(ret', rr') = (ret, rr)" using prems(1) h by (subst (asm) gen_loop.simps) simp
    have "rr' = rr\<lparr>rr_currentIndex := int (length (rr_indexes rr))\<rparr>" using e k prems(2) by simp
    moreover have "sql_at ret' sl db = sql_at ret sl db
       @ map (printed restore rr) (filter (targets rule (rr_indexes rr) sl db) [k..<length (rr_indexes rr)])"
      using e k by simp
    ultimately have ?case using k by auto
  }
  moreover {
    assume h: "rr_HasNext rr"
    then have k: "k < length (rr_indexes rr)" using prems by (simp add: rr_HasNext_def)
    let ?rr = "rr\<lparr>rr_currentIndex := int (Suc k)\<rparr>"
    note next_eq = rr_Next_eq [OF prems(2) k]
    obtain q sn dn where q: "restore rr = Ok q" "sql_target rule (rr_indexes rr ! k) = Ok (sn, dn)"
      "gen_loop restore router ?rr (add_sql ret sn dn q) = Ok (ret', rr')"
      using prems(1,4) h next_eq by (subst (asm) gen_loop.simps) auto
    have self: "rr\<lparr>rr_currentIndex := int k\<rparr> = rr" using prems(2) by simp
    note IH = "1.IH" [OF h q(1) next_eq, OF refl, of rule, OF _ q(2) refl q(3), of "Suc k"]
    have ih: "rr' = ?rr\<lparr>rr_currentIndex := int (length (rr_indexes rr))\<rparr>"
      "sql_at ret' sl db = sql_at (add_sql ret sn dn q) sl db
         @ map (printed restore ?rr) (filter (targets rule (rr_indexes rr) sl db) [Suc k..<length (rr_indexes rr)])"
      "\<forall>j. Suc k \<le> j \<and> j < length (rr_indexes rr) \<longrightarrow>
         is_ok (restore (rr\<lparr>rr_currentIndex := int j\<rparr>)) \<and> is_ok (sql_target rule (rr_indexes rr ! j))"
      using IH prems(4) k by auto
    have p: "printed restore ?rr = printed restore rr" "printed restore rr k = q"
      by (simp_all add: printed_def fun_eq_iff self q(1))
    have t: "targets rule (rr_indexes rr) sl db k \<longleftrightarrow> sl = sn \<and> db = dn" using q(2) by (auto simp: targets_def)
    have ?case using ih p t k self q(1,2)
      by (auto simp: sql_at_add_sql upt_conv_Cons is_ok_iff dest: le_eq_less_or_eq [THEN iffD1] Suc_leI)
  }
  ultimately show ?case by blast
qed

text \<open>\<open>sent\<close>: the statement printed for table \<open>i\<close> is among those of the slice and database of \<open>i\<close>.\<close>

definition sent :: "(RouteResult \<Rightarrow> string res) \<Rightarrow> RouteResult \<Rightarrow> Router \<Rightarrow> sqls \<Rightarrow> int \<Rightarrow> bool" where
  "sent restore rr rt sqls i \<longleftrightarrow>
     (\<exists>k rule sl db. k < length (rr_indexes rr) \<and> rr_indexes rr ! k = i \<and>
        GetShardRule rt (rr_db rr) (rr_table rr) = Some rule \<and> sql_target rule i = Ok (sl, db) \<and>
        printed restore rr k \<in> set (sql_at sqls sl db))"

lemma generated_sent:
  assumes "generateShardingSQLs restore rr rt = Ok (sqls, rr')" "rr_currentIndex rr = 0"
  shows "rr' = rr \<and> (sent restore rr rt sqls i \<longleftrightarrow> i \<in> set (rr_indexes rr))"
proof -
  obtain rr1 where g: "gen_loop restore rt rr [] = Ok (sqls, rr1)" "rr' = rr_Reset rr1"
    using assms(1) by (auto simp: generateShardingSQLs_def)
  show ?thesis
  proof (cases "rr_indexes rr = []")
    case True
    then have "rr1 = rr" using g(1) assms(2) by (subst (asm) gen_loop.simps) (simp add: rr_HasNext_def)
    then show ?thesis using g(2) assms(2) True by (simp add: rr_Reset_def sent_def)
  next
    case False
    then have "rr_HasNext rr" using assms(2) by (simp add: rr_HasNext_def)
    then obtain rule where r: "GetShardRule rt (rr_db rr) (rr_table rr) = Some rule"
      using g(1) assms(2) False by (subst (asm) gen_loop.simps) (auto simp: rr_Next_def split: option.splits)
    note sp = gen_loop_spec [OF g(1) _ _ r, of 0, simplified assms(2), simplified]
    have "rr' = rr" using sp g(2) assms(2) by (simp add: rr_Reset_def)
    moreover have "sent restore rr rt sqls (rr_indexes rr ! k)" if k: "k < length (rr_indexes rr)" for k
    proof -
      obtain sl db where t: "sql_target rule (rr_indexes rr ! k) = Ok (sl, db)"
        using conjunct2 [OF conjunct2 [OF sp]] k by (auto simp: is_ok_iff)
      then have "printed restore rr k \<in> set (sql_at sqls sl db)" using sp k by (auto simp: targets_def)
      with r t k show ?thesis unfolding sent_def by blast
    qed
    ultimately show ?thesis unfolding in_set_conv_nth using sent_def by metis
  qed
qed

end
