(* ===== verification/Plan_Stmt.thy ===== *)
theory Plan_Stmt
  imports Plan_Info Rule_Props
begin

text \<open>
  Properties of the statement information: the statements generated for the shards, and the tables
  that one statement may join.
\<close>

section \<open>The generated statements\<close>

text \<open>
  C2: a successful \<^verbatim>\<open>generateShardingSQLs\<close> prints the statement exactly once for every table index
  of the route, in the order of the route, and files each text under the slice and the physical
  database of its index; the cursor of the route result is back at the start.
\<close>

theorem generated_sqls:
  assumes "generateShardingSQLs restore rr router = Ok (ret, rr')" "rr_currentIndex rr = 0"
    "GetShardRule router (rr_db rr) (rr_table rr) = Some rule"
  shows "rr' = rr \<and>
     sql_at ret sl db = map (printed restore rr) (filter (targets rule (rr_indexes rr) sl db) [0..<length (rr_indexes rr)]) \<and>
     (\<forall>j < length (rr_indexes rr). \<exists>sl db. targets rule (rr_indexes rr) sl db j)"
proof -
  obtain rr1 where g: "gen_loop restore router rr [] = Ok (ret, rr1)" "rr' = rr_Reset rr1"
    using assms(1) by (auto simp: generateShardingSQLs_def)
  note s = gen_loop_spec [OF g(1) _ _ assms(3), of 0, simplified assms(2), simplified]
  have "rr' = rr" using s g(2) assms(2) by (simp add: rr_Reset_def)
  then show ?thesis using s by (auto simp: targets_def is_ok_iff)
qed

definition example_tbl :: TableName where
  "example_tbl = \<lparr>tn_Schema = NewCIStr ''db'', tn_Name = NewCIStr ''tbl'', tn_IndexHints = [], tn_PartitionNames = []\<rparr>"

definition example_restore :: "Rule \<Rightarrow> RouteResult \<Rightarrow> string res" where
  "example_restore rule rr =
     out_res (outs [wr ''SELECT * FROM '', TableNameDecorator_Restore rr example_tbl rule])"

theorem generated_sqls_witness:
  "\<exists>rt rule ret rr. NewRouter example_ns = Ok rt \<and> GetShardRule rt ''db'' ''tbl'' = Some rule \<and>
     generateShardingSQLs (example_restore rule) (NewRouteResult ''db'' ''tbl'' [1, 2]) rt = Ok (ret, rr) \<and>
     sql_at ret ''slice-1'' ''db_2'' = [''SELECT * FROM `db_2`.`tbl`'']"
proof -
  let ?rr = "NewRouteResult ''db'' ''tbl'' [1, 2]"
  let ?g = "\<lambda>rt. case GetShardRule rt ''db'' ''tbl'' of None \<Rightarrow> False
     | Some rule \<Rightarrow> is_ok (generateShardingSQLs (example_restore rule) ?rr rt) \<and>
         targets rule [1, 2] ''slice-1'' ''db_2'' 1 \<and> \<not> targets rule [1, 2] ''slice-1'' ''db_2'' 0 \<and>
         printed (example_restore rule) ?rr 1 = ''SELECT * FROM `db_2`.`tbl`''"
  have "case NewRouter example_ns of Ok rt \<Rightarrow> ?g rt | _ \<Rightarrow> False" by code_simp
  then obtain rt rule ret rr' where rt: "NewRouter example_ns = Ok rt" "GetShardRule rt ''db'' ''tbl'' = Some rule"
    "generateShardingSQLs (example_restore rule) ?rr rt = Ok (ret, rr')"
    "targets rule [1, 2] ''slice-1'' ''db_2'' 1" "\<not> targets rule [1, 2] ''slice-1'' ''db_2'' 0"
    "printed (example_restore rule) ?rr 1 = ''SELECT * FROM `db_2`.`tbl`''"
    by (auto split: res.splits option.splits simp: is_ok_iff)
  have rr: "rr_indexes ?rr = [1, 2]" "rr_currentIndex ?rr = 0" "rr_db ?rr = ''db''" "rr_table ?rr = ''tbl''"
    by (simp_all add: NewRouteResult_def)
  note s = generated_sqls [OF rt(3) rr(2), unfolded rr, OF rt(2), of "''slice-1''" "''db_2''"]
  have "[0..<length [1::int, 2]] = [0, 1]" by code_simp
  with s rt show ?thesis by auto
qed

section \<open>Joined tables\<close>

lemma set_AList_update: "x \<in> set (AList.update k v xs) \<Longrightarrow> x = (k, v) \<or> x \<in> set xs"
  by (induction xs) (auto split: if_splits)

text \<open>The rules of a router all rest on the base rules of its first pass, one for each table.\<close>

definition based :: "(string \<rightharpoonup> (string \<rightharpoonup> Rule)) \<Rightarrow> (string \<rightharpoonup> (string \<rightharpoonup> Rule)) \<Rightarrow> bool" where
  "based bases rules \<longleftrightarrow>
     (\<forall>db m t r. rules db = Some m \<longrightarrow> m t = Some r \<longrightarrow>
        (\<exists>m0. bases db = Some m0 \<and> m0 (br_table (base_of r)) = Some (RBase (base_of r))))"

lemma based_set:
  assumes "based bases rules" "bases db = Some m0" "m0 (br_table (base_of r)) = Some (RBase (base_of r))"
  shows "based bases (set_rule rules db t r)"
  using assms unfolding based_def set_rule_def by (fastforce split: option.splits if_splits)

definition base_only :: "(string \<rightharpoonup> (string \<rightharpoonup> Rule)) \<Rightarrow> bool" where
  "base_only rules \<longleftrightarrow> (\<forall>db m t r. rules db = Some m \<longrightarrow> m t = Some r \<longrightarrow> (\<exists>b. r = RBase b))"

lemma router_loop_base_only:
  "router_loop names shards rules linked = Ok (rules', linked') \<Longrightarrow> base_only rules \<Longrightarrow> base_only rules'"
proof (induction shards arbitrary: rules linked)
  case (Cons shard shards)
  show ?case
  proof (cases "cfg_Type shard = ShardLinked")
    case True
    then show ?thesis using Cons by (auto split: if_splits)
  next
    case False
    obtain r where r: "router_loop names shards (set_rule rules (br_db r) (br_table r) (RBase (with_ns_slices names r))) linked
        = Ok (rules', linked')"
      using router_loop_base [OF Cons.prems(1) False] by blast
    have "base_only (set_rule rules (br_db r) (br_table r) (RBase (with_ns_slices names r)))"
      using Cons.prems(2) unfolding base_only_def set_rule_def by (auto split: option.splits if_splits)
    with Cons.IH [OF r] show ?thesis .
  qed
qed auto

lemma link_loop_based:
  "link_loop shards rules = Ok rules' \<Longrightarrow> rules_wf rules \<Longrightarrow> based bases rules \<Longrightarrow> based bases rules'"
proof (induction shards arbitrary: rules)
  case (Cons shard shards)
  then obtain l where l: "createLinkedRule rules shard = Ok l"
    "link_loop shards (set_rule rules (lr_db l) (lr_table l) (RLinked l)) = Ok rules'"
    by (auto split: res.splits)
  note c = createLinkedRule_props [OF l(1) Cons.prems(2)]
  have "rules_wf (set_rule rules (lr_db l) (lr_table l) (RLinked l))"
    using Cons.prems(2) c by (intro rules_wf_set) (auto simp: GetType_def toLower_idem)
  moreover obtain m where "rules (lr_db l) = Some m" "m (br_table (lr_linkToRule l)) = Some (RBase (lr_linkToRule l))"
    using c(4) by blast
  with Cons.prems(3) obtain m0 where "bases (lr_db l) = Some m0" "m0 (br_table (lr_linkToRule l)) = Some (RBase (lr_linkToRule l))"
    unfolding based_def by fastforce
  then have "based bases (set_rule rules (lr_db l) (lr_table l) (RLinked l))"
    using based_set [OF Cons.prems(3), of "lr_db l" m0 "RLinked l"] by simp
  ultimately show ?case using Cons.IH [OF l(2)] by blast
qed simp

lemma router_facts:
  assumes "NewRouter n = Ok rt"
  shows "rules_wf (rt_rules rt) \<and> (\<exists>bases. based bases (rt_rules rt))"
proof -
  obtain rules linked rules' where q: "router_loop (map sl_Name (ns_Slices n)) (ns_ShardRules n) Map.empty [] = Ok (rules, linked)"
    "link_loop linked rules = Ok rules'" "rt = \<lparr>rt_rules = rules', rt_defaultRule = NewDefaultRule (ns_DefaultSlice n)\<rparr>"
    using assms by (auto simp: NewRouter_def Let_def split: if_splits)
  have w: "rules_wf rules" using router_loop_wf [OF q(1)] by (simp add: rules_wf_def)
  moreover have "base_only rules" using router_loop_base_only [OF q(1)] by (simp add: base_only_def)
  then have "based rules rules" using w unfolding base_only_def rules_wf_def based_def by fastforce
  ultimately show ?thesis using link_loop_wf [OF q(2)] link_loop_based [OF q(2)] q(3) by auto
qed

lemma same_base:
  assumes "NewRouter n = Ok rt" "lookup_rule rt d1 t1 = Some r1" "lookup_rule rt d2 t2 = Some r2"
    "GetDB r1 = GetDB r2" "route_table r1 = route_table r2"
  shows "base_of r1 = base_of r2"
proof -
  obtain bases where f: "rules_wf (rt_rules rt)" "based bases (rt_rules rt)" using router_facts [OF assms(1)] by blast
  obtain m1 m2 where m: "rt_rules rt d1 = Some m1" "m1 t1 = Some r1" "rt_rules rt d2 = Some m2" "m2 t2 = Some r2"
    using assms(2,3) by (auto simp: lookup_rule_def split: option.splits)
  have "d1 = d2" using assms(4) f(1) m unfolding rules_wf_def by metis
  moreover have "route_table r = br_table (base_of r)" for r by (cases r) auto
  ultimately show ?thesis using assms(5) f(2) m unfolding based_def by (metis Rule.inject(1) option.inject)
qed

lemma router_db:
  assumes "NewRouter n = Ok rt" "rt_rules rt [] = None" "lookup_rule rt db t = Some r"
  shows "GetDB r \<noteq> []"
proof -
  obtain m where "rt_rules rt db = Some m" "m t = Some r" using assms(3) by (auto simp: lookup_rule_def split: option.splits)
  with router_facts [OF assms(1)] assms(2) show ?thesis unfolding rules_wf_def by fastforce
qed

text \<open>The statement information after any number of tables and subqueries has been recorded.\<close>

inductive recorded :: "pick \<Rightarrow> Router \<Rightarrow> TableAliasStmtInfo \<Rightarrow> bool" for pick :: pick and rt :: Router where
  new: "recorded pick rt (NewTableAliasStmtInfo db sql rt)"
| table: "recorded pick rt p \<Longrightarrow> RecordShardTable p db t alias = Ok (rule, p') \<Longrightarrow> recorded pick rt p'"
| subquery: "recorded pick rt p \<Longrightarrow> RecordSubqueryTableAlias pick p alias = Ok (rule, p') \<Longrightarrow> recorded pick rt p'"

definition of_route :: "Router \<Rightarrow> RouteResult \<Rightarrow> Rule \<Rightarrow> bool" where
  "of_route rt result r \<longleftrightarrow> GetType r \<noteq> ShardGlobal \<and> (\<exists>db t. lookup_rule rt db t = Some r) \<and>
     GetDB r = rr_db result \<and> route_table r = rr_table result \<and> GetSubTableIndexes r = rr_indexes result"

definition colocated :: "Router \<Rightarrow> 'a StmtInfo_scheme \<Rightarrow> bool" where
  "colocated rt p \<longleftrightarrow> si_router p = rt \<and> (\<forall>(t, r) \<in> set (si_tableRules p). of_route rt (si_result p) r) \<and>
     (si_tableRules p = [] \<longrightarrow> rr_db (si_result p) = [] \<and> rr_table (si_result p) = [])"

lemma stmt_record_colocated:
  assumes "NewRouter n = Ok rt" "rt_rules rt [] = None" "colocated rt p" "StmtInfo_RecordShardTable p db t = Ok (rule, p')"
  shows "colocated rt p'"
proof -
  obtain p1 where g: "getShardRule p db t = Ok (rule, p1)" "checkStmtRouteResult p1 rule = Ok p'"
    using assms(4) by (auto simp: StmtInfo_RecordShardTable_def)
  have r: "GetShardRule rt (si_db p) t = Some rule" and p1: "p1 = (if GetType rule = ShardGlobal
      then p\<lparr>si_globalTableRules := AList.update t rule (si_globalTableRules p)\<rparr>
      else p\<lparr>si_tableRules := AList.update t rule (si_tableRules p)\<rparr>)"
    using g(1) assms(3) by (auto simp: getShardRule_def colocated_def checkAndGetDB_def split: option.splits if_splits)
  then obtain d' t' where l: "lookup_rule rt d' t' = Some rule" by (auto simp: GetShardRule_def split: prod.splits)
  show ?thesis
  proof (cases "GetType rule = ShardGlobal")
    case True
    then show ?thesis using g(2) p1 assms(3) by (auto simp: checkStmtRouteResult_def colocated_def)
  next
    case False
    show ?thesis
    proof (cases "si_tableRules p = []")
      case True
      then have "rr_db (si_result p) = []" "rr_table (si_result p) = []" using assms(3) by (auto simp: colocated_def)
      then have c: "si_tableRules p' = [(t, rule)]" "si_router p' = rt" "si_result p' = (si_result p)\<lparr>rr_db := GetDB rule,
          rr_table := route_table rule, rr_indexes := GetSubTableIndexes rule\<rparr>"
        using True False g(2) p1 assms(3) by (auto simp: checkStmtRouteResult_def colocated_def Let_def)
      have "\<exists>db t. lookup_rule rt db t = Some rule" using l by (intro exI)
      then show ?thesis using False by (simp add: colocated_def of_route_def c)
    next
      case old: False
      then obtain t0 r0 where r0: "(t0, r0) \<in> set (si_tableRules p)" by (cases "si_tableRules p") auto
      then have o0: "of_route rt (si_result p) r0" using assms(3) by (auto simp: colocated_def)
      then obtain d0 s0 where l0: "lookup_rule rt d0 s0 = Some r0" by (auto simp: of_route_def)
      have ne: "rr_db (si_result p) \<noteq> []" using router_db [OF assms(1,2) l0] o0 by (simp add: of_route_def)
      then have c: "rr_db (si_result p) = GetDB rule" "rr_table (si_result p) = route_table rule" "p' = p1"
        using g(2) False p1 by (auto simp: checkStmtRouteResult_def Let_def rr_Check_def split: if_splits)
      then have "base_of r0 = base_of rule"
        using same_base [OF assms(1) l0 l] o0 by (simp add: of_route_def)
      then have "GetSubTableIndexes rule = rr_indexes (si_result p)"
        using o0 by (simp add: of_route_def GetSubTableIndexes_def)
      then have "of_route rt (si_result p) rule" using c l False by (auto simp: of_route_def)
      then show ?thesis using c(3) p1 False assms(3)
        by (auto simp: colocated_def dest!: set_AList_update)
    qed
  qed
qed

lemma alias_colocated:
  assumes "setTableAlias p t alias = Ok p'" "colocated rt p"
  shows "colocated rt p' \<and> si_tableRules p' = si_tableRules p \<and> si_result p' = si_result p"
  using assms by (auto simp: setTableAlias_def colocated_def split: option.splits if_splits)

lemma recorded_colocated:
  assumes "recorded pick rt p" "NewRouter n = Ok rt" "rt_rules rt [] = None" "\<forall>m. m \<noteq> [] \<longrightarrow> pick m \<in> set m"
  shows "colocated rt p"
  using assms(1)
proof induction
  case (new db sql)
  show ?case by (simp add: colocated_def NewTableAliasStmtInfo_def NewRouteResult_def)
next
  case (table p db t al rule p')
  then obtain p1 where q: "StmtInfo_RecordShardTable p db t = Ok (rule, p1)" "p' = p1 \<or> setTableAlias p1 t al = Ok p'"
    by (auto simp: RecordShardTable_def split: if_splits)
  from stmt_record_colocated [OF assms(2,3) table.IH q(1)] q(2) show ?case using alias_colocated by blast
next
  case (subquery p al rule p')
  then obtain p1 where q: "si_tableRules p \<noteq> []" "setTableAlias p (''gaea_subquery_'' @ al) al = Ok p1"
    "p' = p1\<lparr>si_tableRules := AList.update (''gaea_subquery_'' @ al) (snd (pick (si_tableRules p1))) (si_tableRules p1)\<rparr>"
    by (auto simp: RecordSubqueryTableAlias_def Let_def split: if_splits)
  note c = alias_colocated [OF q(2) subquery.IH]
  have "pick (si_tableRules p1) \<in> set (si_tableRules p1)" using assms(4) c q(1) by simp
  then have "of_route rt (si_result p1) (snd (pick (si_tableRules p1)))" using c by (force simp: colocated_def)
  then show ?case using q(3) c by (auto simp: colocated_def dest!: set_AList_update)
qed

text \<open>
  C3: whatever tables, linked tables, global tables and subqueries a statement has recorded, its
  sharded tables rest on one base rule of the router: they have the same table indexes, which are
  those of the initial route, and every key has the same index and slice under each of them, so
  that rows joined on equal sharding keys lie together.
\<close>

theorem joined_tables_colocated:
  assumes "recorded pick rt p" "NewRouter n = Ok rt" "rt_rules rt [] = None" "\<forall>m. m \<noteq> [] \<longrightarrow> pick m \<in> set m"
    and "(t1, r1) \<in> set (si_tableRules p)" "(t2, r2) \<in> set (si_tableRules p)"
  shows "rr_indexes (si_result p) = GetSubTableIndexes r1 \<and> GetSubTableIndexes r1 = GetSubTableIndexes r2 \<and>
     FindTableIndex env r1 k = FindTableIndex env r2 k \<and>
     GetSlice r1 (GetSliceIndexFromTableIndex r1 i) = GetSlice r2 (GetSliceIndexFromTableIndex r2 i)"
proof -
  have o1: "of_route rt (si_result p) r1" "of_route rt (si_result p) r2"
    using recorded_colocated [OF assms(1-4)] assms(5,6) by (auto simp: colocated_def)
  then obtain d1 s1 d2 s2 where "lookup_rule rt d1 s1 = Some r1" "lookup_rule rt d2 s2 = Some r2"
    by (auto simp: of_route_def)
  then have b: "base_of r1 = base_of r2" by (rule same_base [OF assms(2)]) (use o1 in \<open>simp_all add: of_route_def\<close>)
  have "rr_indexes (si_result p) = GetSubTableIndexes r1" using o1(1) by (simp add: of_route_def)
  then show ?thesis by (simp add: rule_methods b)
qed

definition example_joined_info :: "Router \<Rightarrow> TableAliasStmtInfo res" where
  "example_joined_info rt =
     andThen (RecordShardTable (NewTableAliasStmtInfo ''db'' [] rt) [] ''tbl'' ''a'') (\<lambda>(_, p).
     andThen (RecordShardTable p ''db'' ''child'' []) (\<lambda>(_, p).
     andThen (RecordSubqueryTableAlias hd p ''s'') (\<lambda>(_, p). Ok p)))"

theorem joined_tables_colocated_witness:
  "\<exists>rt p r1 r2. NewRouter example_ns = Ok rt \<and> example_joined_info rt = Ok p \<and>
     map_of (si_tableRules p) ''tbl'' = Some r1 \<and> map_of (si_tableRules p) ''child'' = Some r2 \<and>
     FindTableIndex list_treemap r1 (KInt64 7) = FindTableIndex list_treemap r2 (KInt64 7)"
proof -
  let ?g = "\<lambda>rt p. rt_rules rt [] = None \<and> map_of (si_tableRules p) ''tbl'' \<noteq> None \<and> map_of (si_tableRules p) ''child'' \<noteq> None"
  have "case NewRouter example_ns of Ok rt \<Rightarrow> (case example_joined_info rt of Ok p \<Rightarrow> ?g rt p | _ \<Rightarrow> False) | _ \<Rightarrow> False"
    by code_simp
  then obtain rt p r1 r2 where q: "NewRouter example_ns = Ok rt" "example_joined_info rt = Ok p" "rt_rules rt [] = None"
    "map_of (si_tableRules p) ''tbl'' = Some r1" "map_of (si_tableRules p) ''child'' = Some r2"
    by (auto split: res.splits)
  have "recorded hd rt p" using q(2) unfolding example_joined_info_def
    by (auto elim!: recorded.subquery [rotated] recorded.table [rotated] intro!: recorded.new)
  from joined_tables_colocated [OF this q(1,3) _ q(4,5) [THEN map_of_SomeD]] q show ?thesis by auto
qed

end
