(* ===== verification/Plan_Route.thy ===== *)
theory Plan_Route
  imports Plan_Info
begin

text \<open>
  Routing by conditions: the handlers of \<^verbatim>\<open>src/proxy/plan/plan_select.go\<close> for \<^verbatim>\<open>WHERE\<close> and
  \<^verbatim>\<open>ON\<close> conditions, with \<^verbatim>\<open>decorator_pattern_in_expr.go\<close>,
  \<^verbatim>\<open>decorator_between_expr.go\<close>, \<^verbatim>\<open>decorator_column_name.go\<close> and
  \<^verbatim>\<open>src/util/types.go\<close>.

  A handler returns whether the condition restricts the route, the table indexes it allows, the
  rewritten condition and the statement information, in which a \<^verbatim>\<open>DATABASE()\<close> comparison records
  its hint.
\<close>

section \<open>Literals and columns\<close>

text \<open>\<^verbatim>\<open>util.GetValueExprResult\<close>: \<open>None\<close> is the nil interface of a \<^verbatim>\<open>NULL\<close> literal. Floats
  are of no type that a shard function accepts.\<close>

fun GetValueExprResult :: "Datum \<Rightarrow> key option res" where
  "GetValueExprResult DNull = Ok None"
| "GetValueExprResult (DInt64 n b) = Ok (Some (KInt64 n))"
| "GetValueExprResult (DUint64 n) = Ok (Some (KUint64 n))"
| "GetValueExprResult (DFloat32 t) = Ok (Some KOther)"
| "GetValueExprResult (DFloat64 t) = Ok (Some KOther)"
| "GetValueExprResult (DString s cs) = Ok (Some (KString s))"
| "GetValueExprResult (DBytes s) = Ok (Some (KString s))"
| "GetValueExprResult d = andThen (out_res (ValueExpr_Restore d)) (\<lambda>t. Ok (Some (KString t)))"

fun iface :: "key option \<Rightarrow> key" where
  "iface None = KOther"
| "iface (Some k) = k"

definition value_key :: "Datum \<Rightarrow> key res" where
  "value_key d = andThen (GetValueExprResult d) (\<lambda>v. Ok (iface v))"

definition decorate_column :: "string \<Rightarrow> TableAliasStmtInfo \<Rightarrow> ColumnName \<Rightarrow> ExprNode res" where
  "decorate_column msg p c =
     andThen (wrap msg (NeedCreateColumnNameExprDecoratorInCondition p c)) (\<lambda>need.
       case need of None \<Rightarrow> Ok (EColumn c) | Some (rule, isAlias) \<Rightarrow> Ok (EColumnDec c rule isAlias))"

text \<open>
  \<^verbatim>\<open>ColumnNameRewriteVisitor\<close>: every column below a node is decorated, an error becomes a
  panic. The source drops the node that the visit of the root returns, so that a root that is itself
  a column stays as it is.
\<close>

definition rewrite_column :: "TableAliasStmtInfo \<Rightarrow> ColumnName \<Rightarrow> ExprNode res" where
  "rewrite_column p c =
     (case NeedCreateColumnNameExprDecoratorInField p c of
        Ok None \<Rightarrow> Ok (EColumn c)
      | Ok (Some (rule, isAlias)) \<Rightarrow> Ok (EColumnDec c rule isAlias)
      | Err _ \<Rightarrow> Panic (PMsg ''check NeedCreateColumnNameExprDecoratorInField in ColumnNameExpr error'')
      | Panic q \<Rightarrow> Panic q)"

fun visit_columns :: "TableAliasStmtInfo \<Rightarrow> ExprNode \<Rightarrow> ExprNode res" where
  "visit_columns p (EColumn c) = rewrite_column p c"
| "visit_columns p (EFuncCall f es) = andThen (all_ok (map (visit_columns p) es)) (\<lambda>es. Ok (EFuncCall f es))"
| "visit_columns p (EAggregate f es b) = andThen (all_ok (map (visit_columns p) es)) (\<lambda>es. Ok (EAggregate f es b))"
| "visit_columns p (EBinary op l r) =
     andThen (visit_columns p l) (\<lambda>l. andThen (visit_columns p r) (\<lambda>r. Ok (EBinary op l r)))"
| "visit_columns p (EUnary op e) = andThen (visit_columns p e) (\<lambda>e. Ok (EUnary op e))"
| "visit_columns p (EPatternIn e es isNot sel) =
     andThen (visit_columns p e) (\<lambda>e. andThen (all_ok (map (visit_columns p) es)) (\<lambda>es.
       case sel of None \<Rightarrow> Ok (EPatternIn e es isNot None)
                 | Some s \<Rightarrow> andThen (visit_columns p s) (\<lambda>s. Ok (EPatternIn e es isNot (Some s)))))"
| "visit_columns p (EBetween e l r isNot) =
     andThen (visit_columns p e) (\<lambda>e. andThen (visit_columns p l) (\<lambda>l. andThen (visit_columns p r) (\<lambda>r.
       Ok (EBetween e l r isNot))))"
| "visit_columns p (EIsNull e isNot) = andThen (visit_columns p e) (\<lambda>e. Ok (EIsNull e isNot))"
| "visit_columns p (EParen e) = andThen (visit_columns p e) (\<lambda>e. Ok (EParen e))"
| "visit_columns p (EOther ps es) = andThen (all_ok (map (visit_columns p) es)) (\<lambda>es. Ok (EOther ps es))"
| "visit_columns p e = Ok e"

definition accept_rewriter :: "TableAliasStmtInfo \<Rightarrow> ExprNode \<Rightarrow> ExprNode res" where
  "accept_rewriter p e =
     andThen (visit_columns p e) (\<lambda>e'. Ok (case e of EColumn c \<Rightarrow> e | _ \<Rightarrow> e'))"

section \<open>Comparisons with a literal\<close>

definition adjustShardIndex :: "Env \<Rightarrow> Shard \<Rightarrow> key \<Rightarrow> int \<Rightarrow> int res" where
  "adjustShardIndex env s v index =
     andThen (EqualStart env s v index) (\<lambda>eq. Ok (if eq then index - 1 else index))"

definition getFindTableIndexesFunc :: "Env \<Rightarrow> Op \<Rightarrow> Rule \<Rightarrow> string \<Rightarrow> key \<Rightarrow> int list res" where
  "getFindTableIndexesFunc env op rule columnName v =
     (if GetShardingColumn rule \<noteq> columnName then Ok (GetSubTableIndexes rule)
      else if op = OpEQ then andThen (FindTableIndex env rule v) (\<lambda>index. Ok [index])
      else if op = OpNE then Ok (GetSubTableIndexes rule)
      else if op = OpGT \<or> op = OpGE \<or> op = OpLT \<or> op = OpLE then
        if IsRangeShard (GetShard rule) then
          andThen (FindTableIndex env rule v) (\<lambda>index.
            if op = OpLT \<or> op = OpLE then
              andThen (if op = OpLT then adjustShardIndex env (GetShard rule) v index else Ok index) (\<lambda>index.
              andThen (GetFirstTableIndex rule) (\<lambda>first. Ok (makeList first (index + 1))))
            else andThen (GetLastTableIndex rule) (\<lambda>lst. Ok (makeList index (lst + 1))))
        else Ok (GetSubTableIndexes rule)
      else Ok (GetSubTableIndexes rule))"

fun inverseOperator :: "Op \<Rightarrow> Op" where
  "inverseOperator OpGT = OpLT"
| "inverseOperator OpGE = OpLE"
| "inverseOperator OpLT = OpGT"
| "inverseOperator OpLE = OpGE"
| "inverseOperator op = op"

type_synonym route = "bool \<times> int list \<times> ExprNode \<times> TableAliasStmtInfo"

text \<open>The common part of the two handlers below: the route of a column compared with a literal, and
  the decorated column.\<close>

definition column_value_route ::
  "Env \<Rightarrow> TableAliasStmtInfo \<Rightarrow> Op \<Rightarrow> ColumnName \<Rightarrow> Datum \<Rightarrow> (ExprNode \<Rightarrow> ExprNode) \<Rightarrow> route res" where
  "column_value_route env p op c d rebuild =
     andThen (wrap ''check ColumnNameExpr error in BinaryOperationExpr'' (NeedCreateColumnNameExprDecoratorInCondition p c))
       (\<lambda>need. case need of
          None \<Rightarrow> Ok (False, [], rebuild (EColumn c), p)
        | Some (rule, isAlias) \<Rightarrow>
            if GetType rule = ShardGlobal then Ok (False, [], rebuild (EColumnDec c rule isAlias), p)
            else
              andThen (wrap ''get ValueExpr value error'' (value_key d)) (\<lambda>v.
              andThen (wrap ''find table index error'' (getFindTableIndexesFunc env op rule (ci_L (cn_Name c)) v)) (\<lambda>tableIndexes.
                Ok (True, tableIndexes, rebuild (EColumnDec c rule isAlias), p))))"

definition handleBinaryOperationExprCompareLeftColumnRightValue ::
  "Env \<Rightarrow> TableAliasStmtInfo \<Rightarrow> Op \<Rightarrow> ColumnName \<Rightarrow> Datum \<Rightarrow> route res" where
  "handleBinaryOperationExprCompareLeftColumnRightValue env p op c d =
     column_value_route env p op c d (\<lambda>l. EBinary op l (EValue d))"

definition handleBinaryOperationExprCompareLeftValueRightColumn ::
  "Env \<Rightarrow> TableAliasStmtInfo \<Rightarrow> Op \<Rightarrow> Datum \<Rightarrow> ColumnName \<Rightarrow> route res" where
  "handleBinaryOperationExprCompareLeftValueRightColumn env p op d c =
     column_value_route env p (inverseOperator op) c d (\<lambda>r. EBinary op (EValue d) r)"

definition handleBinaryOperationExprCompareLeftColumnRightColumn ::
  "TableAliasStmtInfo \<Rightarrow> Op \<Rightarrow> ColumnName \<Rightarrow> ColumnName \<Rightarrow> route res" where
  "handleBinaryOperationExprCompareLeftColumnRightColumn p op lc rc =
     andThen (decorate_column ''check ColumnNameExpr error in BinaryOperationExpr.L'' p lc) (\<lambda>l.
     andThen (decorate_column ''check ColumnNameExpr error in BinaryOperationExpr.R'' p rc) (\<lambda>r.
       Ok (False, [], EBinary op l r, p)))"

text \<open>\<^verbatim>\<open>getExprNodeTypeInBinaryOperation\<close>: the kind of an operand, with the node that the type
  assertions on that kind give.\<close>

datatype BinaryOperationFieldtype =
    UnsupportExpr
  | ValueExpr Datum
  | ColumnNameExpr ColumnName
  | FuncCallExpr CIStr

fun getExprNodeTypeInBinaryOperation :: "ExprNode \<Rightarrow> BinaryOperationFieldtype" where
  "getExprNodeTypeInBinaryOperation (EColumn c) = ColumnNameExpr c"
| "getExprNodeTypeInBinaryOperation (EValue d) = ValueExpr d"
| "getExprNodeTypeInBinaryOperation (EFuncCall f es) = FuncCallExpr f"
| "getExprNodeTypeInBinaryOperation _ = UnsupportExpr"

definition getDatabaseFuncHint :: "CIStr \<Rightarrow> BinaryOperationFieldtype \<Rightarrow> string res" where
  "getDatabaseFuncHint f v =
     (if ci_L f \<noteq> ''database'' then Ok []
      else case v of
        ColumnNameExpr c \<Rightarrow> Ok (ci_O (cn_Name c))
      | ValueExpr d \<Rightarrow> Ok (Datum_GetString d)
      | _ \<Rightarrow> Err (ErrMsg ''invalid value type of database function hint''))"

definition hint_of :: "Op \<Rightarrow> BinaryOperationFieldtype \<Rightarrow> BinaryOperationFieldtype \<Rightarrow> string res" where
  "hint_of op lType rType =
     (if op \<noteq> OpEQ then Ok []
      else case lType of
        FuncCallExpr f \<Rightarrow> wrap ''get database function hint error'' (getDatabaseFuncHint f rType)
      | _ \<Rightarrow> (case rType of
                FuncCallExpr f \<Rightarrow> wrap ''get database function hint error'' (getDatabaseFuncHint f lType)
              | _ \<Rightarrow> Ok []))"

definition handleBinaryOperationExprMathCompare ::
  "Env \<Rightarrow> TableAliasStmtInfo \<Rightarrow> Op \<Rightarrow> ExprNode \<Rightarrow> ExprNode \<Rightarrow> route res" where
  "handleBinaryOperationExprMathCompare env p op l r =
     (let lType = getExprNodeTypeInBinaryOperation l; rType = getExprNodeTypeInBinaryOperation r
      in andThen (hint_of op lType rType) (\<lambda>hintDB.
        if hintDB \<noteq> [] then Ok (False, [], EBinary op l r, p\<lparr>si_hintPhyDB := hintDB\<rparr>)
        else case lType of
          ColumnNameExpr lc \<Rightarrow>
            (case rType of
               ColumnNameExpr rc \<Rightarrow> handleBinaryOperationExprCompareLeftColumnRightColumn p op lc rc
             | ValueExpr d \<Rightarrow> handleBinaryOperationExprCompareLeftColumnRightValue env p op lc d
             | _ \<Rightarrow> andThen (decorate_column ''check ColumnNameExpr error in BinaryOperationExpr.L'' p lc) (\<lambda>l.
                      Ok (False, [], EBinary op l r, p)))
        | _ \<Rightarrow>
            (case rType of
               ColumnNameExpr rc \<Rightarrow>
                 (case lType of
                    ValueExpr d \<Rightarrow> handleBinaryOperationExprCompareLeftValueRightColumn env p op d rc
                  | _ \<Rightarrow> andThen (decorate_column ''check ColumnNameExpr error in BinaryOperationExpr.R'' p rc) (\<lambda>r.
                           Ok (False, [], EBinary op l r, p)))
             | _ \<Rightarrow> Ok (False, [], EBinary op l r, p))))"

definition decorate_operand :: "string \<Rightarrow> TableAliasStmtInfo \<Rightarrow> ExprNode \<Rightarrow> ExprNode res" where
  "decorate_operand msg p e = (case e of EColumn c \<Rightarrow> decorate_column msg p c | _ \<Rightarrow> Ok e)"

definition handleBinaryOperationExprOther :: "TableAliasStmtInfo \<Rightarrow> Op \<Rightarrow> ExprNode \<Rightarrow> ExprNode \<Rightarrow> route res" where
  "handleBinaryOperationExprOther p op l r =
     andThen (decorate_operand ''check ColumnNameExpr error in BinaryOperationExpr.L'' p l) (\<lambda>l.
     andThen (decorate_operand ''check ColumnNameExpr error in BinaryOperationExpr.R'' p r) (\<lambda>r.
       Ok (False, [], EBinary op l r, p)))"

section \<open>IN lists\<close>

definition NeedCreatePatternInExprDecorator ::
  "TableAliasStmtInfo \<Rightarrow> ExprNode \<Rightarrow> ExprNode option \<Rightarrow> (ColumnName \<times> Rule \<times> bool) option res" where
  "NeedCreatePatternInExprDecorator p e sel =
     (if sel \<noteq> None then Err (ErrMsg ''TableName does not support Sel in sharding'')
      else case e of
        EColumn c \<Rightarrow>
          andThen (wrap ''check ColumnName error'' (NeedCreateColumnNameExprDecoratorInCondition p c)) (\<lambda>need.
            Ok (map_option (\<lambda>(rule, isAlias). (c, rule, isAlias)) need))
      | _ \<Rightarrow> Ok None)"

definition getBroadcastValueMap :: "int list \<Rightarrow> 'v list \<Rightarrow> (int \<times> 'v list) list" where
  "getBroadcastValueMap subTableIndexes nodes =
     foldl (\<lambda>ret idx. AList.update idx (values_at ret idx @ nodes) ret) [] subTableIndexes"

fun checkValueType :: "ExprNode list \<Rightarrow> unit res" where
  "checkValueType [] = Ok ()"
| "checkValueType (EValue d # vs) = checkValueType vs"
| "checkValueType (_ # vs) = Err (ErrMsg ''value is not ValueExpr'')"

text \<open>One round of the loop over the values, and the loop.\<close>

definition in_route :: "Env \<Rightarrow> Rule \<Rightarrow> ExprNode \<Rightarrow> int res" where
  "in_route env rule vi =
     (case vi of EValue d \<Rightarrow> andThen (value_key d) (FindTableIndex env rule) | _ \<Rightarrow> Panic PNil)"

fun in_loop ::
  "(ExprNode \<Rightarrow> int res) \<Rightarrow> ExprNode list \<Rightarrow> int list \<Rightarrow> (int \<times> ExprNode list) list \<Rightarrow>
   (int list \<times> (int \<times> ExprNode list) list) res" where
  "in_loop route_of [] indexes valueMap = Ok (indexes, valueMap)"
| "in_loop route_of (vi # vs) indexes valueMap =
     andThen (route_of vi) (\<lambda>idx.
       in_loop route_of vs (if map_of valueMap idx = None then indexes @ [idx] else indexes)
         (AList.update idx (values_at valueMap idx @ [vi]) valueMap))"

definition getPatternInRouteResult ::
  "Env \<Rightarrow> ColumnName \<Rightarrow> bool \<Rightarrow> Rule \<Rightarrow> ExprNode list \<Rightarrow> (int list \<times> (int \<times> ExprNode list) list) res" where
  "getPatternInRouteResult env n isNotIn rule values =
     (let indexes = GetSubTableIndexes rule; broadcast = Ok (indexes, getBroadcastValueMap indexes values)
      in if GetType rule = ShardGlobal then broadcast
         else andThen (wrap ''check value error'' (checkValueType values)) (\<lambda>_.
           if isNotIn then broadcast
           else if GetShardingColumn rule \<noteq> ci_L (cn_Name n) then broadcast
           else andThen (in_loop (in_route env rule) values [] []) (\<lambda>(indexes, valueMap).
             Ok (sort indexes, valueMap))))"

definition handlePatternInExpr ::
  "Env \<Rightarrow> TableAliasStmtInfo \<Rightarrow> ExprNode \<Rightarrow> ExprNode list \<Rightarrow> bool \<Rightarrow> ExprNode option \<Rightarrow> route res" where
  "handlePatternInExpr env p e vs isNot sel =
     andThen (wrap ''check PatternInExpr error'' (NeedCreatePatternInExprDecorator p e sel)) (\<lambda>need.
       case need of
         None \<Rightarrow> Ok (False, [], EPatternIn e vs isNot sel, p)
       | Some (c, rule, isAlias) \<Rightarrow>
           andThen (wrap ''create PatternInExprDecorator error'' (getPatternInRouteResult env c isNot rule vs))
             (\<lambda>(tableIndexes, valueMap).
               Ok (True, tableIndexes, EPatternInDec (EColumnDec c rule isAlias) vs isNot tableIndexes valueMap rule, p)))"

section \<open>BETWEEN\<close>

definition NeedCreateBetweenExprDecorator ::
  "TableAliasStmtInfo \<Rightarrow> ExprNode \<Rightarrow> (ColumnName \<times> Rule \<times> bool) option res" where
  "NeedCreateBetweenExprDecorator p e =
     (case e of
        EColumn c \<Rightarrow>
          andThen (wrap ''check ColumnName error'' (NeedCreateColumnNameExprDecoratorInCondition p c)) (\<lambda>need.
            Ok (map_option (\<lambda>(rule, isAlias). (c, rule, isAlias)) need))
      | _ \<Rightarrow> Ok None)"

definition between_bound :: "ExprNode \<Rightarrow> key res" where
  "between_bound e =
     (case e of
        EValue d \<Rightarrow> wrap ''get value error'' (value_key d)
      | _ \<Rightarrow> Err (ErrMsg ''n.Left is not a ValueExpr''))"

definition getShardBetweenExprRouteResult ::
  "Env \<Rightarrow> Rule \<Rightarrow> ExprNode \<Rightarrow> ExprNode \<Rightarrow> bool \<Rightarrow> int list res" where
  "getShardBetweenExprRouteResult env rule l r isNot =
     andThen (between_bound l) (\<lambda>leftValue.
     andThen (between_bound r) (\<lambda>rightValue.
     andThen (wrap ''FindTableIndex for n.Left error'' (FindTableIndex env rule leftValue)) (\<lambda>start.
     andThen (wrap ''FindTableIndex for n.Right error'' (FindTableIndex env rule rightValue)) (\<lambda>last.
       if isNot then
         andThen (if start > last
                  then andThen (adjustShardIndex env (GetShard rule) rightValue last) (\<lambda>s. Ok (s, start))
                  else andThen (adjustShardIndex env (GetShard rule) leftValue start) (\<lambda>s. Ok (s, last))) (\<lambda>(start, last).
         andThen (GetFirstTableIndex rule) (\<lambda>firstIndex.
         andThen (GetLastTableIndex rule) (\<lambda>lastIndex.
           Ok (unionList (makeList firstIndex (start + 1)) (makeList last (lastIndex + 1))))))
       else Ok (makeList (min start last) (max start last + 1))))))"

definition getBetweenExprRouteResult ::
  "Env \<Rightarrow> Rule \<Rightarrow> ColumnName \<Rightarrow> ExprNode \<Rightarrow> ExprNode \<Rightarrow> bool \<Rightarrow> int list res" where
  "getBetweenExprRouteResult env rule c l r isNot =
     (if GetType rule = ShardGlobal then Ok (GetSubTableIndexes rule)
      else if GetShardingColumn rule \<noteq> ci_L (cn_Name c) then Ok (GetSubTableIndexes rule)
      else if IsRangeShard (GetShard rule) then getShardBetweenExprRouteResult env rule l r isNot
      else Ok (GetSubTableIndexes rule))"

definition handleBetweenExpr ::
  "Env \<Rightarrow> TableAliasStmtInfo \<Rightarrow> ExprNode \<Rightarrow> ExprNode \<Rightarrow> ExprNode \<Rightarrow> bool \<Rightarrow> route res" where
  "handleBetweenExpr env p e l r isNot =
     andThen (wrap ''check BetweenExpr error'' (NeedCreateBetweenExprDecorator p e)) (\<lambda>need.
       case need of
         None \<Rightarrow> Ok (False, [], EBetween e l r isNot, p)
       | Some (c, rule, isAlias) \<Rightarrow>
           andThen (wrap ''create CreateBetweenExprDecorator error'' (getBetweenExprRouteResult env rule c l r isNot))
             (\<lambda>tableIndexes.
               Ok (True, tableIndexes, EBetweenDec (EColumnDec c rule isAlias) l r isNot tableIndexes rule, p)))"

section \<open>Conditions\<close>

definition mergeBinaryOperationRouteResult ::
  "Op \<Rightarrow> bool \<Rightarrow> int list \<Rightarrow> bool \<Rightarrow> int list \<Rightarrow> bool \<times> int list" where
  "mergeBinaryOperationRouteResult op lHas lResult rHas rResult =
     (if op = OpLogicAnd then
        if \<not> lHas \<and> \<not> rHas then (False, [])
        else if lHas \<and> rHas then (True, interList lResult rResult)
        else if lHas then (True, lResult)
        else (True, rResult)
      else if op = OpLogicOr then
        if lHas \<and> rHas then (True, unionList lResult rResult) else (False, [])
      else (False, []))"

fun handleComparisonExpr :: "Env \<Rightarrow> TableAliasStmtInfo \<Rightarrow> ExprNode \<Rightarrow> route res" where
  "handleComparisonExpr env p (EBinary op l r) =
     (if opsLiteral op = None then Err (ErrMsg ''unknown BinaryOperationExpr.Op'')
      else if op = OpLogicAnd \<or> op = OpLogicOr then
        andThen (wrap ''handle BinaryOperationExpr.L error'' (handleComparisonExpr env p l)) (\<lambda>(lHas, lResult, lDecorator, p).
        andThen (wrap ''handle BinaryOperationExpr.R error'' (handleComparisonExpr env p r)) (\<lambda>(rHas, rResult, rDecorator, p).
          case mergeBinaryOperationRouteResult op lHas lResult rHas rResult of (has, result) \<Rightarrow>
            Ok (has, result, EBinary op lDecorator rDecorator, p)))
      else if op = OpEQ \<or> op = OpNE \<or> op = OpGT \<or> op = OpGE \<or> op = OpLT \<or> op = OpLE
      then handleBinaryOperationExprMathCompare env p op l r
      else handleBinaryOperationExprOther p op l r)"
| "handleComparisonExpr env p (EPatternIn e vs isNot sel) = handlePatternInExpr env p e vs isNot sel"
| "handleComparisonExpr env p (EBetween e l r isNot) = handleBetweenExpr env p e l r isNot"
| "handleComparisonExpr env p (EParen e) =
     andThen (handleComparisonExpr env p e) (\<lambda>(has, routeResult, newExpr, p). Ok (has, routeResult, EParen newExpr, p))"
| "handleComparisonExpr env p e =
     andThen (accept_rewriter p e) (\<lambda>e'. Ok (False, rr_indexes (si_result p), e', p))"

text \<open>\<^verbatim>\<open>handleWhere\<close>, \<^verbatim>\<open>handleUpdateWhere\<close>, \<^verbatim>\<open>handleDeleteWhere\<close> and
  \<^verbatim>\<open>rewriteOnCondition\<close> are this function on the condition of their clause.\<close>

definition handle_condition :: "Env \<Rightarrow> TableAliasStmtInfo \<Rightarrow> ExprNode \<Rightarrow> (ExprNode \<times> TableAliasStmtInfo) res" where
  "handle_condition env p cond =
     andThen (handleComparisonExpr env p cond) (\<lambda>(has, result, decorator, p).
       Ok (decorator, if has then p\<lparr>si_result := rr_Inter (si_result p) result\<rparr> else p))"

definition handleWhere :: "Env \<Rightarrow> TableAliasStmtInfo \<Rightarrow> ExprNode option \<Rightarrow> (ExprNode option \<times> TableAliasStmtInfo) res" where
  "handleWhere env p cond =
     (case cond of
        None \<Rightarrow> Ok (None, p)
      | Some e \<Rightarrow> andThen (wrap ''rewrite Where error'' (handle_condition env p e)) (\<lambda>(e, p). Ok (Some e, p)))"

end
