(* ===== verification/Plan_Order.thy ===== *)
theory Plan_Order
  imports Plan_Route Rule_Props
begin

text \<open>
  What routing by a condition relies on: the contract between the order in which the database
  compares the values of a sharding column and the table index that a shard function gives them. The
  contract has three levels, each a locale with the facts that the handlers of conditions need of
  it; the interpretations show that the shard functions keep it.

  \<^item> \<open>column_order\<close>: equal values have the same index (all shard functions).
  \<^item> \<open>range_column\<close>: the index is monotone (numeric ranges and dates).
  \<^item> \<open>strict_range_column\<close>: a value below the first value of a table has a smaller index
    (numeric ranges; the date shards break this law).
\<close>

section \<open>The contract\<close>

definition is_cmp :: "Op \<Rightarrow> bool" where
  "is_cmp op \<longleftrightarrow> op \<in> {OpEQ, OpNE, OpGT, OpGE, OpLT, OpLE}"

locale column_order =
  fixes cmp :: "Op \<Rightarrow> Datum \<Rightarrow> Datum \<Rightarrow> bool"
    and D :: "Datum \<Rightarrow> bool"
    and index :: "Datum \<Rightarrow> int res"
  assumes swap: "D a \<Longrightarrow> D b \<Longrightarrow> is_cmp op \<Longrightarrow> cmp op a b \<longleftrightarrow> cmp (inverseOperator op) b a"
    and eq_index: "D a \<Longrightarrow> D b \<Longrightarrow> cmp OpEQ a b \<Longrightarrow> index a = index b"

locale range_column = column_order +
  assumes le_index: "D a \<Longrightarrow> D b \<Longrightarrow> cmp OpLE a b \<or> cmp OpLT a b \<Longrightarrow> index a = Ok i \<Longrightarrow> index b = Ok j \<Longrightarrow> i \<le> j"
begin

lemma ge_index:
  assumes "D a" "D b" "cmp OpGE a b \<or> cmp OpGT a b" "index a = Ok i" "index b = Ok j"
  shows "j \<le> i"
  using assms swap [of a b OpGE] swap [of a b OpGT] le_index [of b a j i] by (auto simp: is_cmp_def)

lemma le_cut:
  "D a \<Longrightarrow> D b \<Longrightarrow> cmp OpLE a b \<Longrightarrow> index a = Ok i \<Longrightarrow> index b = Ok j \<Longrightarrow> lo \<le> i \<Longrightarrow> i \<in> set (makeList lo (j + 1))"
  using le_index [of a b i j] by simp

lemma ge_cut:
  "D a \<Longrightarrow> D b \<Longrightarrow> cmp OpGE a b \<or> cmp OpGT a b \<Longrightarrow> index a = Ok i \<Longrightarrow> index b = Ok j \<Longrightarrow> i \<le> hi \<Longrightarrow>
     i \<in> set (makeList j (hi + 1))"
  using ge_index [of a b i j] by simp

lemma between_cut:
  assumes "D a" "D l" "D r" "cmp OpGE a l" "cmp OpLE a r" "index a = Ok i" "index l = Ok s" "index r = Ok t"
  shows "i \<in> set (makeList (min s t) (max s t + 1))"
  using assms ge_index [of a l i s] le_index [of a r i t] by (simp add: min_def max_def)

end

locale strict_range_column = range_column +
  fixes starts :: "Datum \<Rightarrow> int \<Rightarrow> bool res"
  assumes lt_index: "D a \<Longrightarrow> D b \<Longrightarrow> cmp OpLT a b \<Longrightarrow> index a = Ok i \<Longrightarrow> index b = Ok j \<Longrightarrow> starts b j = Ok True \<Longrightarrow> i < j"
begin

definition adjusted :: "Datum \<Rightarrow> int \<Rightarrow> int res" where
  "adjusted b j = andThen (starts b j) (\<lambda>eq. Ok (if eq then j - 1 else j))"

lemma lt_adjusted:
  assumes "D a" "D b" "cmp OpLT a b" "index a = Ok i" "index b = Ok j" "adjusted b j = Ok k"
  shows "i \<le> k"
  using assms lt_index [of a b i j] le_index [of a b i j] by (auto simp: adjusted_def split: if_splits)

lemma lt_cut:
  assumes "D a" "D b" "cmp OpLT a b" "index a = Ok i" "index b = Ok j" "adjusted b j = Ok k" "lo \<le> i"
  shows "i \<in> set (makeList lo (k + 1))"
  using assms lt_adjusted [of a b i j k] by simp

text \<open>\<^verbatim>\<open>NOT BETWEEN l AND r\<close> with bounds in order: below the first or above the second.\<close>

lemma not_between_cut:
  assumes "D a" "D l" "D r" "cmp OpLT a l \<or> cmp OpGT a r" "index a = Ok i" "index l = Ok s" "index r = Ok t"
    "adjusted l s = Ok k" "lo \<le> i" "i \<le> hi"
  shows "i \<in> set (makeList lo (k + 1)) \<union> set (makeList t (hi + 1))"
  using assms lt_adjusted [of a l i s k] ge_index [of a r i t] by auto

end

text \<open>The laws speak of the comparison on the domain only.\<close>

lemma column_order_cong:
  assumes "column_order cmp' D index" "\<And>op a b. D a \<Longrightarrow> D b \<Longrightarrow> is_cmp op \<Longrightarrow> cmp op a b \<longleftrightarrow> cmp' op a b"
  shows "column_order cmp D index"
proof
  fix a b op
  assume ab: "D a" "D b"
  have "is_cmp op \<Longrightarrow> is_cmp (inverseOperator op)" by (cases op) (auto simp: is_cmp_def)
  then show "is_cmp op \<Longrightarrow> cmp op a b \<longleftrightarrow> cmp (inverseOperator op) b a"
    using column_order.swap [OF assms(1) ab, of op] assms(2) [OF ab, of op] assms(2) [OF ab(2,1), of "inverseOperator op"]
    by blast
  show "cmp OpEQ a b \<Longrightarrow> index a = index b"
    using column_order.eq_index [OF assms(1) ab] assms(2) [OF ab, of OpEQ] by (simp add: is_cmp_def)
qed

lemma range_column_cong:
  assumes "range_column cmp' D index" "\<And>op a b. D a \<Longrightarrow> D b \<Longrightarrow> is_cmp op \<Longrightarrow> cmp op a b \<longleftrightarrow> cmp' op a b"
  shows "range_column cmp D index"
proof -
  have "column_order cmp D index"
    using assms(1) by (intro column_order_cong [OF _ assms(2)]) (simp add: range_column_def)
  moreover have "i \<le> j" if "D a" "D b" "cmp OpLE a b \<or> cmp OpLT a b" "index a = Ok i" "index b = Ok j" for a b i j
    using range_column.le_index [OF assms(1) that(1,2) _ that(4,5)] that(3) assms(2) [OF that(1,2)]
    by (auto simp: is_cmp_def)
  ultimately show ?thesis by (intro range_column.intro range_column_axioms.intro) blast+
qed

lemma strict_range_column_cong:
  assumes "strict_range_column cmp' D index starts" "\<And>op a b. D a \<Longrightarrow> D b \<Longrightarrow> is_cmp op \<Longrightarrow> cmp op a b \<longleftrightarrow> cmp' op a b"
  shows "strict_range_column cmp D index starts"
proof -
  have "range_column cmp D index"
    using assms(1) by (intro range_column_cong [OF _ assms(2)]) (simp add: strict_range_column_def)
  moreover have "i < j" if "D a" "D b" "cmp OpLT a b" "index a = Ok i" "index b = Ok j" "starts b j = Ok True" for a b i j
    using strict_range_column.lt_index [OF assms(1) that(1,2) _ that(4-6)] that(3) assms(2) [OF that(1,2)]
    by (auto simp: is_cmp_def)
  ultimately show ?thesis by (intro strict_range_column.intro strict_range_column_axioms.intro) blast+
qed

section \<open>Integer keys\<close>

definition key_of :: "Datum \<Rightarrow> key" where
  "key_of d = (case value_key d of Ok k \<Rightarrow> k | _ \<Rightarrow> KOther)"

fun int_datum :: "Datum \<Rightarrow> bool" where
  "int_datum (DInt64 n b) \<longleftrightarrow> in_i64 n"
| "int_datum _ \<longleftrightarrow> False"

fun int_rel :: "Op \<Rightarrow> int \<Rightarrow> int \<Rightarrow> bool" where
  "int_rel OpEQ x y \<longleftrightarrow> x = y"
| "int_rel OpNE x y \<longleftrightarrow> x \<noteq> y"
| "int_rel OpLT x y \<longleftrightarrow> x < y"
| "int_rel OpLE x y \<longleftrightarrow> x \<le> y"
| "int_rel OpGT x y \<longleftrightarrow> x > y"
| "int_rel OpGE x y \<longleftrightarrow> x \<ge> y"
| "int_rel _ x y \<longleftrightarrow> False"

fun int_cmp :: "Op \<Rightarrow> Datum \<Rightarrow> Datum \<Rightarrow> bool" where
  "int_cmp op (DInt64 x b) (DInt64 y c) \<longleftrightarrow> int_rel op x y"
| "int_cmp op _ _ \<longleftrightarrow> False"

lemma key_of_int [simp]: "value_key (DInt64 n b) = Ok (KInt64 n)" "key_of (DInt64 n b) = KInt64 n"
  by (simp_all add: value_key_def key_of_def)

lemma int_datumE: "int_datum d \<Longrightarrow> (\<And>n b. d = DInt64 n b \<Longrightarrow> in_i64 n \<Longrightarrow> P) \<Longrightarrow> P"
  by (cases d) auto

lemma int_order: "column_order int_cmp int_datum (\<lambda>d. f (key_of d))"
proof
  fix a b op
  assume "int_datum a" "int_datum b"
  then show "is_cmp op \<Longrightarrow> int_cmp op a b \<longleftrightarrow> int_cmp (inverseOperator op) b a"
    by (cases op) (auto elim!: int_datumE simp: is_cmp_def)
  show "int_cmp OpEQ a b \<Longrightarrow> f (key_of a) = f (key_of b)"
    using \<open>int_datum a\<close> \<open>int_datum b\<close> by (auto elim!: int_datumE)
qed

interpretation shard_int: column_order int_cmp int_datum "\<lambda>d. FindForKey env shard (key_of d)" for env shard
  by (rule int_order)

section \<open>Numeric ranges\<close>

definition ordered_ranges :: "NumKeyRange list \<Rightarrow> bool" where
  "ordered_ranges rs \<longleftrightarrow>
     sorted_wrt (\<lambda>a b. End a \<le> Start b) rs \<and> list_all (\<lambda>r. Start r < End r \<and> End r < MaxNumKey) rs"

lemma range_index_nth:
  "range_index k rs v = Some i \<Longrightarrow> k \<le> i \<and> nat (i - k) < length rs \<and> nkr_Contains (rs ! nat (i - k)) v"
proof (induction rs arbitrary: k)
  case (Cons r rs)
  show ?case
  proof (cases "nkr_Contains r v")
    case False
    then have "range_index (k + 1) rs v = Some i" using Cons.prems by simp
    from Cons.IH [OF this] have ih: "k + 1 \<le> i" "nat (i - (k + 1)) < length rs" "nkr_Contains (rs ! nat (i - (k + 1))) v" by auto
    then have "nat (i - k) = Suc (nat (i - (k + 1)))" by simp
    then show ?thesis using ih by simp
  qed (use Cons.prems in auto)
qed simp

lemma ordered_contains:
  assumes "ordered_ranges rs" "i < length rs" "nkr_Contains (rs ! i) x" "j < i"
  shows "End (rs ! j) \<le> x"
proof -
  have "End (rs ! j) \<le> Start (rs ! i)" using assms sorted_wrt_nth_less [of "\<lambda>a b. End a \<le> Start b" rs j i] by (simp add: ordered_ranges_def)
  then show ?thesis using assms(3) by (auto simp: nkr_Contains_def)
qed

lemma ordered_contains_less:
  assumes "ordered_ranges rs" "i < length rs" "nkr_Contains (rs ! i) x"
  shows "x < End (rs ! i)"
proof -
  have "End (rs ! i) < MaxNumKey" using assms by (simp add: ordered_ranges_def list_all_length)
  then show ?thesis using assms(3) by (auto simp: nkr_Contains_def)
qed

lemma range_index_mono:
  assumes "ordered_ranges rs" "x \<le> y" "range_index 0 rs x = Some i" "range_index 0 rs y = Some j"
  shows "i \<le> j"
proof (rule ccontr)
  assume "\<not> i \<le> j"
  note i = range_index_nth [OF assms(3)] note j = range_index_nth [OF assms(4)]
  have "nat j < nat i" using \<open>\<not> i \<le> j\<close> i j by simp
  then have "End (rs ! nat j) \<le> x" using ordered_contains [OF assms(1), of "nat i" x "nat j"] i by simp
  moreover have "y < End (rs ! nat j)" using ordered_contains_less [OF assms(1), of "nat j" y] j by simp
  ultimately show False using assms(2) by simp
qed

lemma range_index_start:
  assumes "ordered_ranges rs" "x < y" "range_index 0 rs x = Some i" "range_index 0 rs y = Some j" "Start (rs ! nat j) = y"
  shows "i < j"
proof -
  have "i \<noteq> j" using range_index_nth [OF assms(3)] assms(2,5) by (auto simp: nkr_Contains_def)
  then show ?thesis using range_index_mono [OF assms(1) _ assms(3,4)] assms(2) by simp
qed

interpretation num_range: strict_range_column int_cmp "\<lambda>d. int_datum d \<and> ordered_ranges rs"
  "\<lambda>d. NumRangeShard_FindForKey rs (key_of d)" "\<lambda>d. NumRangeShard_EqualStart rs (key_of d)" for rs
proof
  fix a b op i j
  assume ab: "int_datum a \<and> ordered_ranges rs" "int_datum b \<and> ordered_ranges rs"
  then show "is_cmp op \<Longrightarrow> int_cmp op a b \<longleftrightarrow> int_cmp (inverseOperator op) b a"
    using column_order.swap [OF int_order] by blast
  show "int_cmp OpEQ a b \<Longrightarrow> NumRangeShard_FindForKey rs (key_of a) = NumRangeShard_FindForKey rs (key_of b)"
    using column_order.eq_index [OF int_order] ab by blast
  assume f: "NumRangeShard_FindForKey rs (key_of a) = Ok i" "NumRangeShard_FindForKey rs (key_of b) = Ok j"
  show "int_cmp OpLE a b \<or> int_cmp OpLT a b \<Longrightarrow> i \<le> j"
    using ab f range_index_mono [of rs _ _ i j] order_less_imp_le
    by (auto elim!: int_datumE simp: NumRangeShard_FindForKey_def split: option.splits) blast+
  show "int_cmp OpLT a b \<Longrightarrow> NumRangeShard_EqualStart rs (key_of b) j = Ok True \<Longrightarrow> i < j"
    using ab f range_index_start [of rs]
    by (auto elim!: int_datumE simp: NumRangeShard_FindForKey_def NumRangeShard_EqualStart_def at_def
        split: option.splits if_splits)
qed

lemma limit_ranges_ordered:
  assumes "0 < limit" "n * limit < MaxInt64"
  shows "ordered_ranges (limit_ranges limit n)"
proof -
  have s: "sorted_wrt (\<lambda>a b. End a \<le> Start b) (limit_ranges limit n)"
  proof -
    have "sorted_wrt (\<lambda>i j. (i + 1) * limit \<le> j * limit) [0..n - 1]"
      by (rule sorted_wrt_mono_rel [OF _ ascending_upto]) (use assms(1) in \<open>auto intro: mult_right_mono\<close>)
    then show ?thesis by (simp add: limit_ranges_def sorted_wrt_map)
  qed
  have "i * limit < (i + 1) * limit \<and> (i + 1) * limit < MaxNumKey" if "0 \<le> i" "i \<le> n - 1" for i
  proof -
    have "(i + 1) * limit \<le> n * limit" using that assms(1) by (intro mult_right_mono) auto
    then show ?thesis using assms by (simp add: MaxNumKey_def distrib_right)
  qed
  then show ?thesis using s by (simp add: ordered_ranges_def limit_ranges_def list_all_iff)
qed

section \<open>Date keys\<close>

text \<open>A date literal or column value \<^verbatim>\<open>YYYY-MM-DD\<close>; dates compare as their day numbers.\<close>

definition date_of :: "string \<Rightarrow> date" where
  "date_of s = (digits_val (take 4 s), digits_val (take 2 (drop 5 s)), digits_val (take 2 (drop 8 s)))"

definition dashed_date :: "string \<Rightarrow> bool" where
  "dashed_date s \<longleftrightarrow>
     s = format_dashed (date_of s) \<and> valid_date (date_of s) \<and> 0 \<le> fst (date_of s) \<and> fst (date_of s) < 10000"

fun date_datum :: "Datum \<Rightarrow> bool" where
  "date_datum (DString s cs) \<longleftrightarrow> dashed_date s"
| "date_datum _ \<longleftrightarrow> False"

fun date_cmp :: "Op \<Rightarrow> Datum \<Rightarrow> Datum \<Rightarrow> bool" where
  "date_cmp op (DString s cs) (DString t ct) \<longleftrightarrow> int_rel op (date_num (date_of s)) (date_num (date_of t))"
| "date_cmp op _ _ \<longleftrightarrow> False"

lemma key_of_string [simp]: "value_key (DString s cs) = Ok (KString s)" "key_of (DString s cs) = KString s"
  by (simp_all add: value_key_def key_of_def)

lemma date_datumE: "date_datum d \<Longrightarrow> (\<And>s cs. d = DString s cs \<Longrightarrow> dashed_date s \<Longrightarrow> P) \<Longrightarrow> P"
  by (cases d) auto

text \<open>The year and the month of a date as parts of its day number.\<close>

lemma valid_date_num:
  assumes "valid_date (y, m, d)"
  shows "date_num (y, m, d) div 10000 = y" "date_num (y, m, d) div 100 = y * 100 + m"
proof -
  have b: "1 \<le> m" "m \<le> 12" "1 \<le> d" "d \<le> 31" using assms daysIn_bounds [of m y] by auto
  have "(m * 100 + d + y * 10000) div 10000 = y + (m * 100 + d) div 10000" by (rule div_mult_self1) simp
  moreover have "(m * 100 + d) div 10000 = 0" using b by (intro div_pos_pos_trivial) auto
  ultimately show "date_num (y, m, d) div 10000 = y" by (simp add: algebra_simps)
  have "(d + (y * 100 + m) * 100) div 100 = (y * 100 + m) + d div 100" by (rule div_mult_self1) simp
  moreover have "d div 100 = 0" using b by (intro div_pos_pos_trivial) auto
  ultimately show "date_num (y, m, d) div 100 = y * 100 + m" by (simp add: algebra_simps)
qed

lemma dashed_index:
  assumes "dashed_date s"
  shows "getNumYear env (KString s) = Ok (date_num (date_of s) div 10000)"
    "getNumYearMonth env (KString s) = Ok (date_num (date_of s) div 100)"
    "getNumYearMonthDay env (KString s) = Ok (date_num (date_of s))"
proof -
  obtain y m d where dt: "date_of s = (y, m, d)" by (cases "date_of s") auto
  then have v: "valid_date (y, m, d)" "0 \<le> y" "y < 10000" "s = format_dashed (y, m, d)"
    using assms by (auto simp: dashed_date_def)
  note p = dashed_parts [OF v(1-3)]
  obtain Y M D where Y: "zpad 4 y = Y" "zpad 2 m = M" "zpad 2 d = D" by blast
  have s: "s = Y @ CHR ''-'' # M @ CHR ''-'' # D" using v(4) Y by simp
  have len: "length Y = 4" "length M = 2" "length D = 2" using p(2-4) Y by simp_all
  have a: "slice_of s 0 4 = Ok Y" "slice_of s 5 7 = Ok M" "slice_of s 8 10 = Ok D" "\<not> length s < 10"
    unfolding s using len by (simp_all add: slice_of_def)
  have n: "atoi Y = Ok y" "atoi (Y @ M) = Ok (y * 100 + m)" "atoi (Y @ M @ D) = Ok (date_num (y, m, d))"
    using p(5,6) atoi_format_ymd [OF v(1-3)] Y by simp_all
  note simps = a n valid_date_num [OF v(1)] dt getNumYear_def getNumYearMonth_def getNumYearMonthDay_def
    day_digits_def month_digits_def atoi_date_def Let_def
  show "getNumYear env (KString s) = Ok (date_num (date_of s) div 10000)"
    "getNumYearMonth env (KString s) = Ok (date_num (date_of s) div 100)"
    "getNumYearMonthDay env (KString s) = Ok (date_num (date_of s))"
    by (simp_all add: simps del: date_num.simps)
qed

lemma date_order:
  assumes "\<And>s. dashed_date s \<Longrightarrow> f (KString s) = Ok (date_num (date_of s) div n)" "0 < n"
  shows "range_column date_cmp date_datum (\<lambda>d. f (key_of d))"
proof
  fix a b op i j
  assume ab: "date_datum a" "date_datum b"
  then show "is_cmp op \<Longrightarrow> date_cmp op a b \<longleftrightarrow> date_cmp (inverseOperator op) b a"
    by (cases op) (auto elim!: date_datumE simp: is_cmp_def)
  show "date_cmp OpEQ a b \<Longrightarrow> f (key_of a) = f (key_of b)" using ab assms(1) by (auto elim!: date_datumE)
  assume "f (key_of a) = Ok i" "f (key_of b) = Ok j"
  then show "date_cmp OpLE a b \<or> date_cmp OpLT a b \<Longrightarrow> i \<le> j"
    using ab assms by (auto elim!: date_datumE intro: zdiv_mono1 zdiv_mono1 [OF order_less_imp_le])
qed

interpretation date_year: range_column date_cmp date_datum "\<lambda>d. getNumYear env (key_of d)" for env
  by (rule date_order [where n = 10000]) (auto simp: dashed_index)

interpretation date_month: range_column date_cmp date_datum "\<lambda>d. getNumYearMonth env (key_of d)" for env
  by (rule date_order [where n = 100]) (auto simp: dashed_index)

interpretation date_day: range_column date_cmp date_datum "\<lambda>d. getNumYearMonthDay env (key_of d)" for env
  by (rule date_order [where n = 1]) (auto simp: dashed_index)

end
