(* ===== verification/Plan_Sound.thy ===== *)
theory Plan_Sound
  imports Plan_Order
begin

text \<open>
  Routing by conditions loses no rows: when a condition holds of a row, the handlers keep the index
  of the table in which the row lies.

  \<open>holds\<close> is what the database evaluates: \<open>cmp\<close> is its comparison of two values, \<open>val\<close> the
  values of the columns in the row, and \<open>tv\<close> the truth of the conditions that the handlers do not
  look into. A row that joins several tables lies in the tables with one index; \<open>routed\<close> says so.
\<close>

section \<open>The meaning of a condition\<close>

fun literal_holds :: "(Op \<Rightarrow> Datum \<Rightarrow> Datum \<Rightarrow> bool) \<Rightarrow> (ExprNode \<Rightarrow> bool) \<Rightarrow> Op \<Rightarrow> ColumnName \<Rightarrow> Datum \<Rightarrow> ExprNode \<Rightarrow> bool" where
  "literal_holds cmp tv op c x (EValue d) \<longleftrightarrow> cmp op x d"
| "literal_holds cmp tv op c x e \<longleftrightarrow> tv (EBinary op (EColumn c) e)"

fun holds :: "(Op \<Rightarrow> Datum \<Rightarrow> Datum \<Rightarrow> bool) \<Rightarrow> (ExprNode \<Rightarrow> bool) \<Rightarrow> (ColumnName \<Rightarrow> Datum) \<Rightarrow> ExprNode \<Rightarrow> bool" where
  "holds cmp tv val (EBinary op l r) \<longleftrightarrow>
     (if op = OpLogicAnd then holds cmp tv val l \<and> holds cmp tv val r
      else if op = OpLogicOr then holds cmp tv val l \<or> holds cmp tv val r
      else if \<not> is_cmp op then tv (EBinary op l r)
      else case (getExprNodeTypeInBinaryOperation l, getExprNodeTypeInBinaryOperation r) of
        (ColumnNameExpr c, ValueExpr d) \<Rightarrow> cmp op (val c) d
      | (ValueExpr d, ColumnNameExpr c) \<Rightarrow> cmp op d (val c)
      | _ \<Rightarrow> tv (EBinary op l r))"
| "holds cmp tv val (EPatternIn e vs isNot sel) \<longleftrightarrow>
     (case e of
        EColumn c \<Rightarrow>
          if isNot \<or> sel \<noteq> None then tv (EPatternIn e vs isNot sel)
          else list_ex (literal_holds cmp tv OpEQ c (val c)) vs
      | _ \<Rightarrow> tv (EPatternIn e vs isNot sel))"
| "holds cmp tv val (EBetween e l r isNot) \<longleftrightarrow>
     (case e of
        EColumn c \<Rightarrow>
          if isNot then literal_holds cmp tv OpLT c (val c) l \<or> literal_holds cmp tv OpGT c (val c) r
          else literal_holds cmp tv OpGE c (val c) l \<and> literal_holds cmp tv OpLE c (val c) r
      | _ \<Rightarrow> tv (EBetween e l r isNot))"
| "holds cmp tv val (EParen e) \<longleftrightarrow> holds cmp tv val e"
| "holds cmp tv val e \<longleftrightarrow> tv e"

section \<open>What the routing theorem asks of a condition\<close>

definition sharding_rule :: "TableAliasStmtInfo \<Rightarrow> ColumnName \<Rightarrow> Rule option" where
  "sharding_rule p c =
     (case needCreateColumnNameDecorator p c of
        Ok (Some (rule, isAlias)) \<Rightarrow>
          if GetType rule \<noteq> ShardGlobal \<and> GetShardingColumn rule = ci_L (cn_Name c) then Some rule else None
      | _ \<Rightarrow> None)"

definition of_global :: "TableAliasStmtInfo \<Rightarrow> ColumnName \<Rightarrow> bool" where
  "of_global p c =
     (case needCreateColumnNameDecorator p c of Ok (Some (rule, isAlias)) \<Rightarrow> GetType rule = ShardGlobal | _ \<Rightarrow> False)"

fun literal_in :: "(Datum \<Rightarrow> bool) \<Rightarrow> ExprNode \<Rightarrow> bool" where
  "literal_in D (EValue d) \<longleftrightarrow> D d"
| "literal_in D _ \<longleftrightarrow> True"

text \<open>
  The literals compared with a sharding column are in the domain; no \<^verbatim>\<open>IN\<close> and no
  \<^verbatim>\<open>BETWEEN\<close> is on a column of a global table; the strict comparisons occur only when the shard
  functions keep the strict law, and the bounds of a \<^verbatim>\<open>NOT BETWEEN\<close> are in order.
\<close>

fun covered :: "(Op \<Rightarrow> Datum \<Rightarrow> Datum \<Rightarrow> bool) \<Rightarrow> (Datum \<Rightarrow> bool) \<Rightarrow> bool \<Rightarrow> TableAliasStmtInfo \<Rightarrow> ExprNode \<Rightarrow> bool" where
  "covered cmp D strict p (EBinary op l r) \<longleftrightarrow>
     (if op = OpLogicAnd \<or> op = OpLogicOr then covered cmp D strict p l \<and> covered cmp D strict p r
      else case (getExprNodeTypeInBinaryOperation l, getExprNodeTypeInBinaryOperation r) of
        (ColumnNameExpr c, ValueExpr d) \<Rightarrow> sharding_rule p c = None \<or> D d \<and> (strict \<or> op \<noteq> OpLT)
      | (ValueExpr d, ColumnNameExpr c) \<Rightarrow> sharding_rule p c = None \<or> D d \<and> (strict \<or> op \<noteq> OpGT)
      | _ \<Rightarrow> True)"
| "covered cmp D strict p (EPatternIn e vs isNot sel) \<longleftrightarrow>
     (case e of
        EColumn c \<Rightarrow> \<not> of_global p c \<and> (sharding_rule p c = None \<or> list_all (literal_in D) vs)
      | _ \<Rightarrow> True)"
| "covered cmp D strict p (EBetween e l r isNot) \<longleftrightarrow>
     (case e of
        EColumn c \<Rightarrow> \<not> of_global p c \<and>
          (sharding_rule p c = None \<or> literal_in D l \<and> literal_in D r \<and>
            (isNot \<longrightarrow> strict \<and> (case (l, r) of (EValue a, EValue b) \<Rightarrow> cmp OpLE a b | _ \<Rightarrow> True)))
      | _ \<Rightarrow> True)"
| "covered cmp D strict p (EParen e) \<longleftrightarrow> covered cmp D strict p e"
| "covered cmp D strict p e \<longleftrightarrow> True"

definition rule_index :: "Env \<Rightarrow> Rule \<Rightarrow> Datum \<Rightarrow> int res" where
  "rule_index env rule d = FindTableIndex env rule (key_of d)"

definition rule_starts :: "Env \<Rightarrow> Rule \<Rightarrow> Datum \<Rightarrow> int \<Rightarrow> bool res" where
  "rule_starts env rule d = EqualStart env (GetShard rule) (key_of d)"

definition rule_ok :: "Env \<Rightarrow> (Op \<Rightarrow> Datum \<Rightarrow> Datum \<Rightarrow> bool) \<Rightarrow> (Datum \<Rightarrow> bool) \<Rightarrow> bool \<Rightarrow> Rule \<Rightarrow> bool" where
  "rule_ok env cmp D strict rule \<longleftrightarrow>
     column_order cmp D (rule_index env rule) \<and> ascending (GetSubTableIndexes rule) \<and>
     (IsRangeShard (GetShard rule) \<longrightarrow> range_column cmp D (rule_index env rule) \<and>
        (strict \<longrightarrow> strict_range_column cmp D (rule_index env rule) (rule_starts env rule)))"

definition wf_info :: "'a StmtInfo_scheme \<Rightarrow> bool" where
  "wf_info p \<longleftrightarrow>
     list_all (\<lambda>(t, r). GetType r \<noteq> ShardGlobal) (si_tableRules p) \<and>
     list_all (\<lambda>(t, r). GetType r = ShardGlobal) (si_globalTableRules p)"

definition routed ::
  "Env \<Rightarrow> (Op \<Rightarrow> Datum \<Rightarrow> Datum \<Rightarrow> bool) \<Rightarrow> (Datum \<Rightarrow> bool) \<Rightarrow> bool \<Rightarrow> TableAliasStmtInfo \<Rightarrow> (ColumnName \<Rightarrow> Datum) \<Rightarrow> int \<Rightarrow> bool" where
  "routed env cmp D strict p val i \<longleftrightarrow>
     wf_info p \<and>
     (\<forall>(t, r) \<in> set (si_tableRules p). rule_ok env cmp D strict r \<and> i \<in> set (GetSubTableIndexes r)) \<and>
     (\<forall>c rule. sharding_rule p c = Some rule \<longrightarrow> D (val c) \<and> rule_index env rule (val c) = Ok i)"

section \<open>The rule of a column is one of the statement's\<close>

lemma need_rule_in:
  assumes "needCreateColumnNameDecorator p c = Ok (Some (rule, isAlias))" "wf_info p"
  shows "GetType rule = ShardGlobal \<or> rule \<in> snd ` set (si_tableRules p)"
proof -
  have g: "GetType r = ShardGlobal" if "map_of (si_globalTableRules p) t = Some r" for t r
    using assms(2) map_of_SomeD [OF that] by (auto simp: wf_info_def list_all_iff)
  have t: "r \<in> snd ` set (si_tableRules p)" if "map_of (si_tableRules p) t = Some r" for t r
    using map_of_SomeD [OF that] by force
  have f: "r \<in> snd ` set (si_tableRules p)" if "filter P (si_tableRules p) = (t, r) # xs" for P t r xs
    using that filter_set [of P "si_tableRules p"] by force
  show ?thesis
    using assms(1) g t f
    by (auto simp: needCreateColumnNameDecorator_def getColumnInfoFromColumnName_def GetSettedRuleFromColumnInfo_def
        getSettedRuleByColumnName_def getSettedRuleFromTable_def Let_def
        split: if_splits option.splits list.splits prod.splits)
qed

lemma routed_rule:
  assumes "routed env cmp D strict p val i" "needCreateColumnNameDecorator p c = Ok (Some (rule, isAlias))" "GetType rule \<noteq> ShardGlobal"
  shows "rule_ok env cmp D strict rule" "i \<in> set (GetSubTableIndexes rule)"
    "GetShardingColumn rule = ci_L (cn_Name c) \<Longrightarrow> sharding_rule p c = Some rule"
    "GetShardingColumn rule = ci_L (cn_Name c) \<Longrightarrow> D (val c) \<and> rule_index env rule (val c) = Ok i"
proof -
  have "rule \<in> snd ` set (si_tableRules p)" using need_rule_in [OF assms(2)] assms(1,3) by (simp add: routed_def)
  then show "rule_ok env cmp D strict rule" "i \<in> set (GetSubTableIndexes rule)"
    using assms(1) by (auto simp: routed_def)
  show s: "GetShardingColumn rule = ci_L (cn_Name c) \<Longrightarrow> sharding_rule p c = Some rule"
    using assms(2,3) by (simp add: sharding_rule_def)
  then show "GetShardingColumn rule = ci_L (cn_Name c) \<Longrightarrow> D (val c) \<and> rule_index env rule (val c) = Ok i"
    using assms(1) by (simp add: routed_def)
qed

section \<open>Comparisons\<close>

lemma value_key_of: "value_key d = Ok v \<Longrightarrow> v = key_of d"
  by (simp add: key_of_def)

lemma first_le:
  assumes "GetFirstTableIndex rule = Ok lo" "ascending (GetSubTableIndexes rule)" "i \<in> set (GetSubTableIndexes rule)"
  shows "lo \<le> i"
  using assms by (cases "GetSubTableIndexes rule") (auto simp: rule_methods br_GetFirstTableIndex_def at_def)

lemma le_last:
  assumes "GetLastTableIndex rule = Ok hi" "ascending (GetSubTableIndexes rule)" "i \<in> set (GetSubTableIndexes rule)"
  shows "i \<le> hi"
proof -
  let ?xs = "GetSubTableIndexes rule"
  obtain k where k: "k < length ?xs" "?xs ! k = i" using assms(3) by (auto simp: in_set_conv_nth)
  have hi: "hi = ?xs ! (length ?xs - 1)"
    using assms(1,3) by (auto simp: rule_methods br_GetLastTableIndex_def at_def nat_diff_distrib' split: if_splits)
  show ?thesis
  proof (cases "k = length ?xs - 1")
    case False
    then have "?xs ! k < ?xs ! (length ?xs - 1)" using sorted_wrt_nth_less [OF assms(2), of k "length ?xs - 1"] k(1) by simp
    then show ?thesis using hi k(2) by simp
  qed (use hi k in simp)
qed

lemma find_indexes_sound:
  assumes g: "getFindTableIndexesFunc env op rule col (key_of d) = Ok result" and ok: "rule_ok env cmp D strict rule"
    and i: "i \<in> set (GetSubTableIndexes rule)" and lt: "op = OpLT \<longrightarrow> strict"
    and row: "GetShardingColumn rule = col \<Longrightarrow> D x \<and> D d \<and> rule_index env rule x = Ok i \<and> cmp op x d"
  shows "i \<in> set result"
proof -
  have c: "column_order cmp D (rule_index env rule)" and asc: "ascending (GetSubTableIndexes rule)"
    and r: "IsRangeShard (GetShard rule) \<Longrightarrow> range_column cmp D (rule_index env rule)"
    and st: "IsRangeShard (GetShard rule) \<Longrightarrow> strict \<Longrightarrow> strict_range_column cmp D (rule_index env rule) (rule_starts env rule)"
    using ok by (auto simp: rule_ok_def)
  {
    assume col: "GetShardingColumn rule = col" and op: "op = OpEQ"
    then have "rule_index env rule d = Ok i" using row column_order.eq_index [OF c, of x d] by simp
    then have ?thesis using g col op by (auto simp: getFindTableIndexesFunc_def rule_index_def)
  }
  moreover {
    assume col: "GetShardingColumn rule = col" and rg: "IsRangeShard (GetShard rule)" and op: "op \<in> {OpGT, OpGE, OpLT, OpLE}"
    then obtain j where j: "rule_index env rule d = Ok j" using g
      by (auto simp: getFindTableIndexesFunc_def rule_index_def)
    note hx = row [OF col]
    have fj: "FindTableIndex env rule (key_of d) = Ok j" using j by (simp add: rule_index_def)
    have ?thesis
    proof (cases "op = OpLT")
      case True
      then have str: "strict" using lt by simp
      obtain k lo where k: "adjustShardIndex env (GetShard rule) (key_of d) j = Ok k" "GetFirstTableIndex rule = Ok lo"
        "result = makeList lo (k + 1)"
        using g col rg True fj by (auto simp: getFindTableIndexesFunc_def)
      have "strict_range_column.adjusted (rule_starts env rule) d j = Ok k"
        using k(1) by (simp only: strict_range_column.adjusted_def [OF st [OF rg str]] adjustShardIndex_def rule_starts_def)
      from strict_range_column.lt_cut [OF st [OF rg str] _ _ _ _ j this, of x i lo] show ?thesis
        using hx True k first_le [OF k(2) asc i] by simp
    next
      case False
      then show ?thesis
        using g col rg op fj j hx first_le [OF _ asc i] le_last [OF _ asc i]
          range_column.le_cut [OF r [OF rg], of x d i j] range_column.ge_cut [OF r [OF rg], of x d i j]
        by (auto simp: getFindTableIndexesFunc_def)
    qed
  }
  ultimately show ?thesis using g i by (auto simp: getFindTableIndexesFunc_def split: if_splits)
qed

lemma find_indexes_ascending:
  assumes "getFindTableIndexesFunc env op rule col v = Ok result" "ascending (GetSubTableIndexes rule)"
  shows "ascending result"
  using assms by (auto simp: getFindTableIndexesFunc_def split: if_splits)

lemma column_value_need:
  assumes "column_value_route env p op c d rb = Ok (True, result, e', p')"
  obtains rule isAlias where "needCreateColumnNameDecorator p c = Ok (Some (rule, isAlias))" "GetType rule \<noteq> ShardGlobal"
    "getFindTableIndexesFunc env op rule (ci_L (cn_Name c)) (key_of d) = Ok result"
proof -
  obtain need where nd: "needCreateColumnNameDecorator p c = Ok need"
    using assms by (auto simp: column_value_route_def NeedCreateColumnNameExprDecoratorInCondition_def)
  note unf = assms [unfolded column_value_route_def NeedCreateColumnNameExprDecoratorInCondition_def nd wrap.simps andThen.simps]
  obtain rule isAlias where r: "need = Some (rule, isAlias)" using unf by (cases need) auto
  have g: "GetType rule \<noteq> ShardGlobal" using unf r by (auto split: if_splits)
  obtain v where v: "value_key d = Ok v" "getFindTableIndexesFunc env op rule (ci_L (cn_Name c)) v = Ok result"
    using unf r g by auto
  show ?thesis using that [of rule isAlias] nd r g v value_key_of [OF v(1)] by simp
qed

lemma column_value_sound:
  assumes h: "column_value_route env p op c d rb = Ok (True, result, e', p')"
    and rt: "routed env cmp D strict p val i" and lit: "sharding_rule p c = None \<or> D d \<and> (strict \<or> op \<noteq> OpLT)"
    and cmp: "cmp op (val c) d"
  shows "i \<in> set result"
proof -
  obtain rule isAlias where n: "needCreateColumnNameDecorator p c = Ok (Some (rule, isAlias))" "GetType rule \<noteq> ShardGlobal"
    "getFindTableIndexesFunc env op rule (ci_L (cn_Name c)) (key_of d) = Ok result"
    by (rule column_value_need [OF h])
  note r = routed_rule [OF rt n(1,2)]
  show ?thesis
  proof (cases "GetShardingColumn rule = ci_L (cn_Name c)")
    case True
    then show ?thesis using find_indexes_sound [OF n(3) r(1,2), of "val c"] r(3,4) lit cmp by auto
  next
    case False
    then show ?thesis using n(3) r(2) by (simp add: getFindTableIndexesFunc_def)
  qed
qed

lemma column_value_ascending:
  assumes "column_value_route env p op c d rb = Ok (True, result, e', p')" "routed env cmp D strict p val i"
  shows "ascending result"
proof -
  obtain rule isAlias where n: "needCreateColumnNameDecorator p c = Ok (Some (rule, isAlias))" "GetType rule \<noteq> ShardGlobal"
    "getFindTableIndexesFunc env op rule (ci_L (cn_Name c)) (key_of d) = Ok result"
    by (rule column_value_need [OF assms(1)])
  show ?thesis
    using find_indexes_ascending [OF n(3)] routed_rule(1) [OF assms(2) n(1,2)] by (simp add: rule_ok_def)
qed

section \<open>IN lists\<close>

text \<open>The loop over the values: the indexes are those of the values, each once, and the values of an
  index are those that it routes, in their order.\<close>

lemma in_loop_spec:
  assumes "in_loop f vs indexes m = Ok (indexes', m')" "distinct indexes" "set indexes = dom (map_of m)"
  shows "distinct indexes' \<and> set indexes' = set indexes \<union> {i. \<exists>v \<in> set vs. f v = Ok i} \<and>
    list_all (\<lambda>v. is_ok (f v)) vs \<and> (\<forall>i. values_at m' i = values_at m i @ filter (\<lambda>v. f v = Ok i) vs)"
  using assms
proof (induction vs arbitrary: indexes m)
  case (Cons v vs)
  let ?m = "\<lambda>idx. AList.update idx (values_at m idx @ [v]) m"
  let ?is = "\<lambda>idx. if map_of m idx = None then indexes @ [idx] else indexes"
  obtain idx where idx: "f v = Ok idx" "in_loop f vs (?is idx) (?m idx) = Ok (indexes', m')"
    using Cons.prems(1) by auto
  have new: "map_of m idx = None \<longleftrightarrow> idx \<notin> set indexes" using Cons.prems(3) by auto
  have d: "distinct (?is idx)" using Cons.prems(2) new by simp
  have s: "set (?is idx) = insert idx (set indexes)" using new by auto
  have "set (?is idx) = dom (map_of (?m idx))" unfolding s using Cons.prems(3) by (auto simp: update_conv')
  note ih = Cons.IH [OF idx(2) d this]
  have v: "values_at (?m idx) i = values_at m i @ (if i = idx then [v] else [])" for i
    by (simp add: values_at_def update_conv')
  have "{i. \<exists>w \<in> set (v # vs). f w = Ok i} = insert idx {i. \<exists>w \<in> set vs. f w = Ok i}" using idx(1) by auto
  then show ?case using ih idx(1) unfolding s v by auto
qed simp

lemma sort_ascending: "distinct xs \<Longrightarrow> ascending (sort xs)"
  by (simp add: strict_sorted_iff)

lemma pattern_in_need:
  assumes "handlePatternInExpr env p e vs isNot sel = Ok (True, result, e', p')"
  obtains c rule isAlias vm where "e = EColumn c" "sel = None" "needCreateColumnNameDecorator p c = Ok (Some (rule, isAlias))"
    "getPatternInRouteResult env c isNot rule vs = Ok (result, vm)"
    "e' = EPatternInDec (EColumnDec c rule isAlias) vs isNot result vm rule"
proof -
  obtain c rule isAlias where n: "NeedCreatePatternInExprDecorator p e sel = Ok (Some (c, rule, isAlias))"
    using assms by (auto simp: handlePatternInExpr_def split: option.splits)
  then have "e = EColumn c" "sel = None" "needCreateColumnNameDecorator p c = Ok (Some (rule, isAlias))"
    by (auto simp: NeedCreatePatternInExprDecorator_def NeedCreateColumnNameExprDecoratorInCondition_def
        split: if_splits ExprNode.splits)
  moreover obtain vm where "getPatternInRouteResult env c isNot rule vs = Ok (result, vm)"
    "e' = EPatternInDec (EColumnDec c rule isAlias) vs isNot result vm rule"
    using assms n by (auto simp: handlePatternInExpr_def)
  ultimately show ?thesis using that by blast
qed

lemma in_route_values:
  assumes "getPatternInRouteResult env c False rule vs = Ok (result, vm)" "GetType rule \<noteq> ShardGlobal"
    "GetShardingColumn rule = ci_L (cn_Name c)"
  shows "ascending result" "set result = {i. \<exists>v \<in> set vs. in_route env rule v = Ok i}"
    "values_at vm i = filter (\<lambda>v. in_route env rule v = Ok i) vs"
proof -
  obtain xs where l: "in_loop (in_route env rule) vs [] [] = Ok (xs, vm)" "result = sort xs"
    using assms by (auto simp: getPatternInRouteResult_def Let_def)
  from in_loop_spec [OF l(1)] show "ascending result" "set result = {i. \<exists>v \<in> set vs. in_route env rule v = Ok i}"
    "values_at vm i = filter (\<lambda>v. in_route env rule v = Ok i) vs"
    using l(2) by (auto simp: sort_ascending values_at_def)
qed

lemma in_broadcast:
  assumes "getPatternInRouteResult env c isNot rule vs = Ok (result, vm)"
    "GetType rule = ShardGlobal \<or> isNot \<or> GetShardingColumn rule \<noteq> ci_L (cn_Name c)"
  shows "result = GetSubTableIndexes rule"
  using assms by (auto simp: getPatternInRouteResult_def Let_def split: if_splits)

lemma literals_checked:
  assumes "getPatternInRouteResult env c isNot rule vs = Ok (result, vm)" "GetType rule \<noteq> ShardGlobal" "v \<in> set vs"
  shows "\<exists>d. v = EValue d"
proof -
  have "checkValueType vs = Ok ()" using assms(1,2) by (auto simp: getPatternInRouteResult_def Let_def)
  then show ?thesis using assms(3) by (induction vs rule: checkValueType.induct) auto
qed

text \<open>A value that the column equals is routed to the table of the row.\<close>

lemma in_literal_route:
  assumes "getPatternInRouteResult env c isNot rule vs = Ok (result, vm)" "GetType rule \<noteq> ShardGlobal" "\<not> isNot"
    "GetShardingColumn rule = ci_L (cn_Name c)" "rule_ok env cmp D strict rule" "list_all (literal_in D) vs"
    "D x" "rule_index env rule x = Ok i" "v \<in> set vs" "literal_holds cmp tv OpEQ c x v"
  shows "in_route env rule v = Ok i"
proof -
  obtain d where d: "v = EValue d" using literals_checked [OF assms(1,2,9)] by blast
  have "D d" using assms(6,9) d by (auto simp: list_all_iff)
  then have "rule_index env rule d = Ok i"
    using column_order.eq_index [of cmp D "rule_index env rule" x d] assms(5,7,8,10) d by (simp add: rule_ok_def)
  moreover have "is_ok (in_route env rule v)"
    using in_loop_spec [of "in_route env rule" vs "[]" "[]"] assms(1-4,9)
    by (auto simp: getPatternInRouteResult_def Let_def list_all_iff)
  ultimately show ?thesis using d by (auto simp: in_route_def rule_index_def is_ok_iff dest: value_key_of)
qed

lemma pattern_in_sound:
  assumes h: "handlePatternInExpr env p e vs isNot sel = Ok (True, result, e', p')"
    and rt: "routed env cmp D strict p val i" and cov: "covered cmp D strict p (EPatternIn e vs isNot sel)"
  shows "ascending result" "holds cmp tv val (EPatternIn e vs isNot sel) \<Longrightarrow> i \<in> set result"
proof -
  obtain c rule isAlias vm where n: "e = EColumn c" "sel = None" "needCreateColumnNameDecorator p c = Ok (Some (rule, isAlias))"
    "getPatternInRouteResult env c isNot rule vs = Ok (result, vm)"
    by (rule pattern_in_need [OF h])
  have g: "GetType rule \<noteq> ShardGlobal" using cov n(1,3) by (auto simp: of_global_def)
  note r = routed_rule [OF rt n(3) g]
  show "ascending result"
  proof (cases "isNot \<or> GetShardingColumn rule \<noteq> ci_L (cn_Name c)")
    case True
    then show ?thesis using in_broadcast [OF n(4)] r(1) by (auto simp: rule_ok_def)
  next
    case False
    then show ?thesis using in_route_values(1) [of env c rule vs result vm] n(4) g by simp
  qed
  assume hold: "holds cmp tv val (EPatternIn e vs isNot sel)"
  show "i \<in> set result"
  proof (cases "isNot \<or> GetShardingColumn rule \<noteq> ci_L (cn_Name c)")
    case True
    then show ?thesis using in_broadcast [OF n(4)] r(2) by auto
  next
    case False
    then obtain v where v: "v \<in> set vs" "literal_holds cmp tv OpEQ c (val c) v"
      using hold n(1,2) by (auto simp: list_ex_iff)
    have "in_route env rule v = Ok i"
      using in_literal_route [OF n(4) g _ _ r(1)] r(3,4) False cov n(1) v by auto
    then show ?thesis using in_route_values(2) [of env c rule vs result vm] n(4) g False v(1) by auto
  qed
qed

section \<open>BETWEEN\<close>

lemma between_need:
  assumes "handleBetweenExpr env p e l r isNot = Ok (True, result, e', p')"
  obtains c rule isAlias where "e = EColumn c" "needCreateColumnNameDecorator p c = Ok (Some (rule, isAlias))"
    "getBetweenExprRouteResult env rule c l r isNot = Ok result"
proof -
  obtain c rule isAlias where n: "NeedCreateBetweenExprDecorator p e = Ok (Some (c, rule, isAlias))"
    using assms by (auto simp: handleBetweenExpr_def split: option.splits)
  then have "e = EColumn c" "needCreateColumnNameDecorator p c = Ok (Some (rule, isAlias))"
    by (auto simp: NeedCreateBetweenExprDecorator_def NeedCreateColumnNameExprDecoratorInCondition_def
        split: if_splits ExprNode.splits)
  moreover have "getBetweenExprRouteResult env rule c l r isNot = Ok result"
    using assms n by (auto simp: handleBetweenExpr_def)
  ultimately show ?thesis using that by blast
qed

lemma between_bounds:
  assumes "getShardBetweenExprRouteResult env rule l r isNot = Ok result"
  obtains a b s t where "l = EValue a" "r = EValue b" "rule_index env rule a = Ok s" "rule_index env rule b = Ok t"
proof -
  obtain u v s t where b: "between_bound l = Ok u" "between_bound r = Ok v" "FindTableIndex env rule u = Ok s" "FindTableIndex env rule v = Ok t"
    using assms by (auto simp: getShardBetweenExprRouteResult_def)
  obtain a where a: "l = EValue a" "u = key_of a" using b(1) by (auto simp: between_bound_def value_key_of split: ExprNode.splits)
  obtain c where c: "r = EValue c" "v = key_of c" using b(2) by (auto simp: between_bound_def value_key_of split: ExprNode.splits)
  show ?thesis using that [OF a(1) c(1)] b a(2) c(2) by (simp add: rule_index_def)
qed

text \<open>\<^verbatim>\<open>NOT BETWEEN\<close> with the indexes of the bounds in order.\<close>

lemma not_between_result:
  assumes "getShardBetweenExprRouteResult env rule (EValue a) (EValue b) True = Ok result"
    "rule_index env rule a = Ok s" "rule_index env rule b = Ok t" "s \<le> t"
  obtains k lo hi where "adjustShardIndex env (GetShard rule) (key_of a) s = Ok k" "GetFirstTableIndex rule = Ok lo"
    "GetLastTableIndex rule = Ok hi" "result = unionList (makeList lo (k + 1)) (makeList t (hi + 1))"
proof -
  obtain u v where uv: "value_key a = Ok u" "value_key b = Ok v" using assms(1)
    by (auto simp: getShardBetweenExprRouteResult_def between_bound_def)
  then have k: "u = key_of a" "v = key_of b" by (simp_all add: value_key_of)
  show ?thesis
    using assms that unfolding getShardBetweenExprRouteResult_def between_bound_def ExprNode.case uv wrap.simps andThen.simps k
    by (auto simp: rule_index_def)
qed

lemma between_result:
  assumes "getShardBetweenExprRouteResult env rule (EValue a) (EValue b) False = Ok result"
    "rule_index env rule a = Ok s" "rule_index env rule b = Ok t"
  shows "result = makeList (min s t) (max s t + 1)"
proof -
  obtain u v where uv: "value_key a = Ok u" "value_key b = Ok v" using assms(1)
    by (auto simp: getShardBetweenExprRouteResult_def between_bound_def)
  then have k: "u = key_of a" "v = key_of b" by (simp_all add: value_key_of)
  show ?thesis
    using assms unfolding getShardBetweenExprRouteResult_def between_bound_def ExprNode.case uv wrap.simps andThen.simps k
    by (auto simp: rule_index_def)
qed

lemma between_sound:
  assumes h: "handleBetweenExpr env p e l r isNot = Ok (True, result, e', p')"
    and rt: "routed env cmp D strict p val i" and cov: "covered cmp D strict p (EBetween e l r isNot)"
  shows "ascending result" "holds cmp tv val (EBetween e l r isNot) \<Longrightarrow> i \<in> set result"
proof -
  obtain c rule isAlias where n: "e = EColumn c" "needCreateColumnNameDecorator p c = Ok (Some (rule, isAlias))"
    "getBetweenExprRouteResult env rule c l r isNot = Ok result"
    by (rule between_need [OF h])
  have g: "GetType rule \<noteq> ShardGlobal" using cov n(1,2) by (auto simp: of_global_def)
  note ru = routed_rule [OF rt n(2) g]
  have asc: "ascending (GetSubTableIndexes rule)" using ru(1) by (simp add: rule_ok_def)
  let ?col = "GetShardingColumn rule = ci_L (cn_Name c) \<and> IsRangeShard (GetShard rule)"
  have all: "result = GetSubTableIndexes rule" if "\<not> ?col"
    using n(3) that by (auto simp: getBetweenExprRouteResult_def split: if_splits)
  have btw: "getShardBetweenExprRouteResult env rule l r isNot = Ok result" if ?col
    using n(3) that g by (auto simp: getBetweenExprRouteResult_def split: if_splits)
  show "ascending result"
    using all btw asc ascending_unionList
    by (cases ?col) (auto simp: getShardBetweenExprRouteResult_def split: if_splits)
  assume hold: "holds cmp tv val (EBetween e l r isNot)"
  show "i \<in> set result"
  proof (cases ?col)
    case True
    obtain a b s t where b: "l = EValue a" "r = EValue b" "rule_index env rule a = Ok s" "rule_index env rule b = Ok t"
      by (rule between_bounds [OF btw [OF True]])
    have rc: "range_column cmp D (rule_index env rule)" using ru(1) True by (simp add: rule_ok_def)
    have D: "D a" "D b" "isNot \<Longrightarrow> strict \<and> cmp OpLE a b" using cov n(1) ru(3) True b by auto
    have x: "D (val c)" "rule_index env rule (val c) = Ok i" using ru(4) True by auto
    show ?thesis
    proof (cases isNot)
      case False
      have "result = makeList (min s t) (max s t + 1)"
        using between_result [OF _ b(3,4)] btw [OF True] b(1,2) False by simp
      then show ?thesis using range_column.between_cut [OF rc x(1) D(1,2) _ _ x(2) b(3,4)] hold n(1) b False by simp
    next
      case isNot: True
      have st: "strict_range_column cmp D (rule_index env rule) (rule_starts env rule)"
        using ru(1) True D(3) isNot by (simp add: rule_ok_def)
      have le: "s \<le> t" using range_column.le_index [OF rc D(1,2) _ b(3,4)] D(3) isNot by simp
      obtain k lo hi where k: "adjustShardIndex env (GetShard rule) (key_of a) s = Ok k" "GetFirstTableIndex rule = Ok lo"
        "GetLastTableIndex rule = Ok hi" "result = unionList (makeList lo (k + 1)) (makeList t (hi + 1))"
        using not_between_result [OF _ b(3,4) le] btw [OF True] b(1,2) isNot by metis
      have "strict_range_column.adjusted (rule_starts env rule) a s = Ok k"
        using k(1) by (simp only: strict_range_column.adjusted_def [OF st] adjustShardIndex_def rule_starts_def)
      from strict_range_column.not_between_cut [OF st x(1) D(1,2) _ x(2) b(3,4) this] show ?thesis
        using hold n(1) b isNot k first_le [OF k(2) asc ru(2)] le_last [OF k(3) asc ru(2)] by (simp add: set_unionList)
    qed
  qed (use all ru(2) in simp)
qed

section \<open>Conditions\<close>

lemma handle_logic:
  assumes "handleComparisonExpr env p (EBinary op l r) = Ok (has, result, e', p')" "op = OpLogicAnd \<or> op = OpLogicOr"
  obtains lHas lResult le p1 rHas rResult re where "handleComparisonExpr env p l = Ok (lHas, lResult, le, p1)"
    "handleComparisonExpr env p1 r = Ok (rHas, rResult, re, p')"
    "mergeBinaryOperationRouteResult op lHas lResult rHas rResult = (has, result)" "e' = EBinary op le re"
proof -
  obtain x y where xy: "handleComparisonExpr env p l = Ok x" "handleComparisonExpr env (snd (snd (snd x))) r = Ok y"
    "mergeBinaryOperationRouteResult op (fst x) (fst (snd x)) (fst y) (fst (snd y)) = (has, result)"
    "e' = EBinary op (fst (snd (snd x))) (fst (snd (snd y)))" "p' = snd (snd (snd y))"
    using assms by (auto simp: split_def prod_eq_iff)
  then show ?thesis using that by (cases x; cases y) simp
qed

text \<open>What a comparison can return: no route, or the route of a column compared with a literal.\<close>

lemma hint_self: "\<exists>h. p = p\<lparr>si_hintPhyDB := h\<rparr>"
  by (rule exI [of _ "si_hintPhyDB p"]) simp

lemma math_compare_disj:
  assumes "handleBinaryOperationExprMathCompare env p op l r = Ok (has, result, e', p')"
  shows "(\<not> has \<and> (\<exists>h. p' = p\<lparr>si_hintPhyDB := h\<rparr>)) \<or>
    (\<exists>c d. getExprNodeTypeInBinaryOperation l = ColumnNameExpr c \<and> getExprNodeTypeInBinaryOperation r = ValueExpr d \<and>
       column_value_route env p op c d (\<lambda>l. EBinary op l (EValue d)) = Ok (has, result, e', p')) \<or>
    (\<exists>c d. getExprNodeTypeInBinaryOperation l = ValueExpr d \<and> getExprNodeTypeInBinaryOperation r = ColumnNameExpr c \<and>
       column_value_route env p (inverseOperator op) c d (\<lambda>r. EBinary op (EValue d) r) = Ok (has, result, e', p'))"
proof -
  obtain hint where h: "hint_of op (getExprNodeTypeInBinaryOperation l) (getExprNodeTypeInBinaryOperation r) = Ok hint"
    using assms by (auto simp: handleBinaryOperationExprMathCompare_def Let_def)
  note u = assms [unfolded handleBinaryOperationExprMathCompare_def Let_def h andThen.simps
      handleBinaryOperationExprCompareLeftColumnRightValue_def
      handleBinaryOperationExprCompareLeftValueRightColumn_def handleBinaryOperationExprCompareLeftColumnRightColumn_def]
  show ?thesis
  proof (cases "hint = []")
    case True
    show ?thesis
      using u hint_self [of p] unfolding True
      by (cases "getExprNodeTypeInBinaryOperation l"; cases "getExprNodeTypeInBinaryOperation r") auto
  qed (use u in auto)
qed

lemma math_compare_cases:
  assumes "handleBinaryOperationExprMathCompare env p op l r = Ok (has, result, e', p')"
  obtains (none) h where "\<not> has" "p' = p\<lparr>si_hintPhyDB := h\<rparr>"
  | (left) c d rb where "getExprNodeTypeInBinaryOperation l = ColumnNameExpr c" "getExprNodeTypeInBinaryOperation r = ValueExpr d"
      "column_value_route env p op c d rb = Ok (has, result, e', p')"
  | (right) c d rb where "getExprNodeTypeInBinaryOperation l = ValueExpr d" "getExprNodeTypeInBinaryOperation r = ColumnNameExpr c"
      "column_value_route env p (inverseOperator op) c d rb = Ok (has, result, e', p')"
  using math_compare_disj [OF assms] by blast

lemma column_value_info: "column_value_route env p op c d rb = Ok (has, result, e', p') \<Longrightarrow> p' = p"
  by (auto simp: column_value_route_def split: option.splits if_splits)

text \<open>A handler changes nothing of the statement information but the hint.\<close>

lemma handle_info:
  "handleComparisonExpr env p e = Ok (has, result, e', p') \<Longrightarrow> \<exists>h. p' = p\<lparr>si_hintPhyDB := h\<rparr>"
proof (induction e arbitrary: p has result e' p')
  case (EBinary op l r)
  consider "op = OpLogicAnd \<or> op = OpLogicOr" | "handleBinaryOperationExprMathCompare env p op l r = Ok (has, result, e', p')"
    | "handleBinaryOperationExprOther p op l r = Ok (has, result, e', p')"
    using EBinary.prems by (auto split: if_splits)
  then show ?case
  proof cases
    case 1
    obtain lh lr le p1 rh rr re where lr: "handleComparisonExpr env p l = Ok (lh, lr, le, p1)"
      "handleComparisonExpr env p1 r = Ok (rh, rr, re, p')"
      by (rule handle_logic [OF EBinary.prems 1])
    show ?thesis using EBinary.IH(1) [OF lr(1)] EBinary.IH(2) [OF lr(2)] by auto
  next
    case 2
    then show ?thesis using hint_self [of p] by (cases rule: math_compare_cases) (auto dest: column_value_info)
  next
    case 3
    then show ?thesis using hint_self [of p] by (auto simp: handleBinaryOperationExprOther_def)
  qed
next
  case (EPatternIn e vs isNot sel)
  then have "p' = p" by (auto simp: handlePatternInExpr_def split: option.splits)
  then show ?case using hint_self [of p] by simp
next
  case (EBetween e l r isNot)
  then have "p' = p" by (auto simp: handleBetweenExpr_def split: option.splits)
  then show ?case using hint_self [of p] by simp
next
  case (EParen e)
  then show ?case by auto
qed (use hint_self in auto)

lemma need_hint [simp]: "needCreateColumnNameDecorator (p\<lparr>si_hintPhyDB := h\<rparr>) c = needCreateColumnNameDecorator p c"
  by (simp add: needCreateColumnNameDecorator_def getColumnInfoFromColumnName_def GetSettedRuleFromColumnInfo_def
      getSettedRuleByColumnName_def getSettedRuleFromTable_def checkAndGetDB_def getAliasTable_def Let_def
      cong: option.case_cong)

lemma sharding_rule_hint [simp]: "sharding_rule (p\<lparr>si_hintPhyDB := h\<rparr>) c = sharding_rule p c"
  "of_global (p\<lparr>si_hintPhyDB := h\<rparr>) c = of_global p c"
  by (simp_all add: sharding_rule_def of_global_def)

lemma covered_hint [simp]: "covered cmp D strict (p\<lparr>si_hintPhyDB := h\<rparr>) e = covered cmp D strict p e"
  by (induction e) (simp_all cong: BinaryOperationFieldtype.case_cong ExprNode.case_cong)

lemma routed_hint [simp]: "routed env cmp D strict (p\<lparr>si_hintPhyDB := h\<rparr>) val i = routed env cmp D strict p val i"
  by (simp add: routed_def wf_info_def)

lemma merge_sound:
  assumes "mergeBinaryOperationRouteResult op lHas lResult rHas rResult = (True, result)"
    "lHas \<Longrightarrow> ascending lResult" "rHas \<Longrightarrow> ascending rResult"
  shows "ascending result"
    "op = OpLogicAnd \<Longrightarrow> (lHas \<Longrightarrow> i \<in> set lResult) \<Longrightarrow> (rHas \<Longrightarrow> i \<in> set rResult) \<Longrightarrow> i \<in> set result"
    "op = OpLogicOr \<Longrightarrow> (lHas \<and> i \<in> set lResult) \<or> (rHas \<and> i \<in> set rResult) \<Longrightarrow> i \<in> set result"
  using assms il.inter_sound [of lResult rResult i] il.union_sound [of lResult rResult i] ascending_interList ascending_unionList
  by (auto simp: mergeBinaryOperationRouteResult_def split: if_splits)

lemma math_compare_sound:
  assumes h: "handleBinaryOperationExprMathCompare env p op l r = Ok (True, result, e', p')" and op: "is_cmp op"
    and rt: "routed env cmp D strict p val i" and cov: "covered cmp D strict p (EBinary op l r)"
  shows "ascending result" "holds cmp tv val (EBinary op l r) \<Longrightarrow> i \<in> set result"
proof -
  have o: "op \<noteq> OpLogicAnd" "op \<noteq> OpLogicOr" using op by (auto simp: is_cmp_def)
  show "ascending result" using h rt by (cases rule: math_compare_cases) (auto dest: column_value_ascending)
  assume hold: "holds cmp tv val (EBinary op l r)"
  from h show "i \<in> set result"
  proof (cases rule: math_compare_cases)
    case (left c d rb)
    then show ?thesis using column_value_sound [OF left(3) rt] cov hold o op by auto
  next
    case (right c d rb)
    have lit: "sharding_rule p c = None \<or> D d \<and> (strict \<or> inverseOperator op \<noteq> OpLT)"
      using cov right o by (cases op) auto
    have cmp: "cmp op d (val c)" using hold right o op by auto
    obtain rule isAlias where n: "needCreateColumnNameDecorator p c = Ok (Some (rule, isAlias))" "GetType rule \<noteq> ShardGlobal"
      "getFindTableIndexesFunc env (inverseOperator op) rule (ci_L (cn_Name c)) (key_of d) = Ok result"
      by (rule column_value_need [OF right(3)])
    note r = routed_rule [OF rt n(1,2)]
    show ?thesis
    proof (cases "GetShardingColumn rule = ci_L (cn_Name c)")
      case True
      have "D d" "D (val c)" using lit r(3,4) True by auto
      then have "cmp (inverseOperator op) (val c) d"
        using column_order.swap [of cmp D "rule_index env rule" d "val c" op] r(1) cmp op by (simp add: rule_ok_def)
      then show ?thesis using column_value_sound [OF right(3) rt lit] by simp
    next
      case False
      then show ?thesis using n(3) r(2) by (simp add: getFindTableIndexesFunc_def)
    qed
  qed simp
qed

lemma handle_sound:
  assumes "handleComparisonExpr env p e = Ok (True, result, e', p')" "routed env cmp D strict p val i" "covered cmp D strict p e"
  shows "ascending result \<and> (holds cmp tv val e \<longrightarrow> i \<in> set result)"
  using assms
proof (induction e arbitrary: p result e' p')
  case (EBinary op l r)
  consider "op = OpLogicAnd \<or> op = OpLogicOr"
    | "is_cmp op" "handleBinaryOperationExprMathCompare env p op l r = Ok (True, result, e', p')"
    | "handleBinaryOperationExprOther p op l r = Ok (True, result, e', p')"
    using EBinary.prems(1) by (auto simp: is_cmp_def split: if_splits)
  then show ?case
  proof cases
    case 1
    obtain lh lr le p1 rh rr re where lr: "handleComparisonExpr env p l = Ok (lh, lr, le, p1)"
      "handleComparisonExpr env p1 r = Ok (rh, rr, re, p')" "mergeBinaryOperationRouteResult op lh lr rh rr = (True, result)"
      by (rule handle_logic [OF EBinary.prems(1) 1])
    obtain h where h: "p1 = p\<lparr>si_hintPhyDB := h\<rparr>" using handle_info [OF lr(1)] by blast
    have c: "covered cmp D strict p l" "covered cmp D strict p r" using EBinary.prems(3) 1 by auto
    have L: "lh \<Longrightarrow> ascending lr \<and> (holds cmp tv val l \<longrightarrow> i \<in> set lr)"
      using EBinary.IH(1) [of p lr le p1] lr(1) EBinary.prems(2) c by simp
    have R: "rh \<Longrightarrow> ascending rr \<and> (holds cmp tv val r \<longrightarrow> i \<in> set rr)"
      using EBinary.IH(2) [of p1 rr re p'] lr(2) EBinary.prems(2) c h by simp
    have asc: "lh \<Longrightarrow> ascending lr" "rh \<Longrightarrow> ascending rr" using L R by auto
    have both: "op = OpLogicOr \<Longrightarrow> lh \<and> rh"
      using lr(3) by (auto simp: mergeBinaryOperationRouteResult_def split: if_splits)
    show ?thesis
      using merge_sound(1) [OF lr(3) asc] merge_sound(2,3) [OF lr(3) asc, of i] L R 1 both by auto
  next
    case 2
    then show ?thesis using math_compare_sound [OF 2(2,1) EBinary.prems(2,3)] by blast
  next
    case 3
    then show ?thesis by (auto simp: handleBinaryOperationExprOther_def)
  qed
next
  case (EPatternIn e vs isNot sel)
  from EPatternIn.prems(1) have "handlePatternInExpr env p e vs isNot sel = Ok (True, result, e', p')" by simp
  from pattern_in_sound [OF this EPatternIn.prems(2,3)] show ?case by blast
next
  case (EBetween e l r isNot)
  from EBetween.prems(1) have "handleBetweenExpr env p e l r isNot = Ok (True, result, e', p')" by simp
  from between_sound [OF this EBetween.prems(2,3)] show ?case by blast
next
  case (EParen e)
  then show ?case by auto
qed auto

end
