(* ===== verification/Plan_Exact.thy ===== *)
theory Plan_Exact
  imports Plan_Sound
begin

text \<open>
  The rewritten condition selects the same rows. \<open>resolve\<close> is the plain condition that a decorated
  one prints for a table: columns without their decoration, an \<^verbatim>\<open>IN\<close> list with the values of the
  table only. On a row of the table it holds exactly when the original condition does.

  A condition with an empty \<^verbatim>\<open>IN\<close> list is no SQL: the database rejects the whole statement. \<open>evaluates\<close> is
  the value of a condition, \<open>None\<close> for one that is rejected.
\<close>

section \<open>The condition of one table\<close>

fun resolve :: "int \<Rightarrow> ExprNode \<Rightarrow> ExprNode" where
  "resolve i (EFuncCall f es) = EFuncCall f (map (resolve i) es)"
| "resolve i (EAggregate f es b) = EAggregate f (map (resolve i) es) b"
| "resolve i (EBinary op l r) = EBinary op (resolve i l) (resolve i r)"
| "resolve i (EUnary op e) = EUnary op (resolve i e)"
| "resolve i (EPatternIn e es isNot sel) = EPatternIn (resolve i e) (map (resolve i) es) isNot (map_option (resolve i) sel)"
| "resolve i (EBetween e l r isNot) = EBetween (resolve i e) (resolve i l) (resolve i r) isNot"
| "resolve i (EIsNull e isNot) = EIsNull (resolve i e) isNot"
| "resolve i (EParen e) = EParen (resolve i e)"
| "resolve i (EOther ps es) = EOther ps (map (resolve i) es)"
| "resolve i (EColumnDec c rule isAlias) = EColumn c"
| "resolve i (EPatternInDec e vs isNot indexes valueMap rule) = EPatternIn (resolve i e) (values_at valueMap i) isNot None"
| "resolve i (EBetweenDec e l r isNot indexes rule) = EBetween (resolve i e) l r isNot"
| "resolve i e = e"

text \<open>The trees of the parser have no decorators.\<close>

fun plain :: "ExprNode \<Rightarrow> bool" where
  "plain (EFuncCall f es) \<longleftrightarrow> list_all plain es"
| "plain (EAggregate f es b) \<longleftrightarrow> list_all plain es"
| "plain (EBinary op l r) \<longleftrightarrow> plain l \<and> plain r"
| "plain (EUnary op e) \<longleftrightarrow> plain e"
| "plain (EPatternIn e es isNot sel) \<longleftrightarrow> plain e \<and> list_all plain es \<and> (case sel of None \<Rightarrow> True | Some s \<Rightarrow> plain s)"
| "plain (EBetween e l r isNot) \<longleftrightarrow> plain e \<and> plain l \<and> plain r"
| "plain (EIsNull e isNot) \<longleftrightarrow> plain e"
| "plain (EParen e) \<longleftrightarrow> plain e"
| "plain (EOther ps es) \<longleftrightarrow> list_all plain es"
| "plain (EColumn c) \<longleftrightarrow> True"
| "plain (EValue d) \<longleftrightarrow> True"
| "plain _ \<longleftrightarrow> False"

lemma resolve_plain: "plain e \<Longrightarrow> resolve i e = e"
proof (induction e)
  case (EPatternIn e es isNot sel)
  then show ?case by (cases sel) (auto simp: list_all_iff intro: map_idI)
qed (auto simp: list_all_iff intro: map_idI)

lemma all_ok_map: "all_ok (map f xs) = Ok ys \<Longrightarrow> list_all2 (\<lambda>x y. f x = Ok y) xs ys"
  by (induction xs arbitrary: ys) auto

lemma all_ok_resolve:
  assumes "all_ok (map (visit_columns p) es) = Ok es'" "\<And>e e'. e \<in> set es \<Longrightarrow> visit_columns p e = Ok e' \<Longrightarrow> resolve i e' = e"
  shows "map (resolve i) es' = es"
proof -
  have "list_all2 (\<lambda>e e'. visit_columns p e = Ok e') es es'" by (rule all_ok_map [OF assms(1)])
  then show ?thesis using assms(2) by (induction rule: list_all2_induct) auto
qed

lemma visit_resolve: "visit_columns p e = Ok e' \<Longrightarrow> plain e \<Longrightarrow> resolve i e' = e"
proof (induction e arbitrary: e')
  case (EColumn c)
  then show ?case by (auto simp: rewrite_column_def split: res.splits option.splits)
next
  case (EFuncCall f es)
  then show ?case using all_ok_resolve [of p es _ i] by (fastforce simp: list_all_iff)
next
  case (EAggregate f es b)
  then show ?case using all_ok_resolve [of p es _ i] by (fastforce simp: list_all_iff)
next
  case (EOther ps es)
  then show ?case using all_ok_resolve [of p es _ i] by (fastforce simp: list_all_iff)
next
  case (EPatternIn e es isNot sel)
  obtain e1 es1 where v: "visit_columns p e = Ok e1" "all_ok (map (visit_columns p) es) = Ok es1"
    using EPatternIn.prems(1) by auto
  have r: "resolve i e1 = e" "map (resolve i) es1 = es"
    using EPatternIn v all_ok_resolve [OF v(2), of i] by (auto simp: list_all_iff)
  show ?case using EPatternIn.prems v r EPatternIn.IH(3) by (cases sel) auto
qed auto

section \<open>Rewriting keeps the meaning\<close>

lemma broadcast_values:
  assumes "distinct indexes"
  shows "values_at (getBroadcastValueMap indexes vs) i = (if i \<in> set indexes then vs else [])"
proof -
  let ?step = "\<lambda>ret idx. AList.update idx (values_at ret idx @ vs) ret"
  have "values_at (foldl ?step m indexes) i = (if i \<in> set indexes then values_at m i @ vs else values_at m i)" for m
    using assms
  proof (induction indexes arbitrary: m)
    case (Cons idx indexes)
    have "values_at (?step m idx) i = (if i = idx then values_at m i @ vs else values_at m i)"
      by (simp add: values_at_def update_conv')
    then show ?case using Cons.IH [of "?step m idx"] Cons.prems by auto
  qed simp
  then show ?thesis by (simp add: getBroadcastValueMap_def values_at_def)
qed

lemma decorate_resolve: "decorate_column msg p c = Ok e' \<Longrightarrow> resolve i e' = EColumn c"
  by (auto simp: decorate_column_def split: option.splits)

lemma operand_node:
  "getExprNodeTypeInBinaryOperation e = ColumnNameExpr c \<Longrightarrow> e = EColumn c"
  "getExprNodeTypeInBinaryOperation e = ValueExpr d \<Longrightarrow> e = EValue d"
  by (cases e; simp)+

lemma column_value_resolve:
  assumes "column_value_route env p op c d rb = Ok (has, result, e', p')"
  shows "e' = rb (EColumn c) \<or> (\<exists>rule isAlias. e' = rb (EColumnDec c rule isAlias))"
proof -
  obtain need where nd: "NeedCreateColumnNameExprDecoratorInCondition p c = Ok need"
    using assms by (auto simp: column_value_route_def)
  note unf = assms [unfolded column_value_route_def nd wrap.simps andThen.simps]
  show ?thesis using unf by (cases need) (fastforce split: if_splits)+
qed

lemma math_compare_resolve:
  assumes "handleBinaryOperationExprMathCompare env p op l r = Ok (has, result, e', p')" "plain l" "plain r"
  shows "resolve i e' = EBinary op l r"
proof -
  obtain hint where h: "hint_of op (getExprNodeTypeInBinaryOperation l) (getExprNodeTypeInBinaryOperation r) = Ok hint"
    using assms(1) by (auto simp: handleBinaryOperationExprMathCompare_def Let_def)
  note u = assms(1) [unfolded handleBinaryOperationExprMathCompare_def Let_def h andThen.simps
      handleBinaryOperationExprCompareLeftColumnRightValue_def
      handleBinaryOperationExprCompareLeftValueRightColumn_def handleBinaryOperationExprCompareLeftColumnRightColumn_def]
  note pl = resolve_plain [OF assms(2), of i] resolve_plain [OF assms(3), of i]
  show ?thesis
  proof (cases "hint = []")
    case True
    show ?thesis
      using u pl unfolding True
      by (cases "getExprNodeTypeInBinaryOperation l"; cases "getExprNodeTypeInBinaryOperation r")
         (auto dest!: operand_node decorate_resolve [of _ _ _ _ i] column_value_resolve)
  qed (use u pl in auto)
qed

lemma other_resolve:
  assumes "handleBinaryOperationExprOther p op l r = Ok (has, result, e', p')" "plain l" "plain r"
  shows "resolve i e' = EBinary op l r"
proof -
  have "resolve i e' = e" if "decorate_operand msg p e = Ok e'" "plain e" for msg e e'
    using that resolve_plain [OF that(2), of i] decorate_resolve [of _ p _ e' i]
    by (auto simp: decorate_operand_def split: ExprNode.splits)
  then show ?thesis using assms by (auto simp: handleBinaryOperationExprOther_def)
qed

lemma accept_resolve:
  assumes "accept_rewriter p e = Ok e'" "plain e"
  shows "resolve i e' = e"
proof -
  obtain v where v: "visit_columns p e = Ok v" "e' = (case e of EColumn c \<Rightarrow> e | _ \<Rightarrow> v)"
    using assms(1) by (auto simp: accept_rewriter_def)
  have "resolve i v = e" by (rule visit_resolve [OF v(1) assms(2)])
  then show ?thesis using v(2) by (cases e) simp_all
qed

text \<open>The \<^verbatim>\<open>IN\<close> printed for a table is the original one, or it is on the sharding column and has the
  values that belong to the table.\<close>

lemma pattern_in_values:
  assumes h: "handlePatternInExpr env p e vs isNot sel = Ok (has, result, e', p')"
    and rt: "routed env cmp D strict p val i" and cov: "covered cmp D strict p (EPatternIn e vs isNot sel)"
    and pl: "plain (EPatternIn e vs isNot sel)"
  obtains (same) "resolve i e' = EPatternIn e vs isNot sel"
    | (split) c rule where "e = EColumn c" "sel = None" "\<not> isNot" "has" "sharding_rule p c = Some rule"
        "resolve i e' = EPatternIn (EColumn c) (filter (\<lambda>v. in_route env rule v = Ok i) vs) False None"
        "set result = {i. \<exists>v \<in> set vs. in_route env rule v = Ok i}"
        "\<And>tv v. v \<in> set vs \<Longrightarrow> literal_holds cmp tv OpEQ c (val c) v \<Longrightarrow> in_route env rule v = Ok i"
proof (cases has)
  case False
  then have "e' = EPatternIn e vs isNot sel" using h by (auto simp: handlePatternInExpr_def split: option.splits)
  then show ?thesis using resolve_plain [OF pl] same by simp
next
  case True
  obtain c rule isAlias vm where n: "e = EColumn c" "sel = None" "needCreateColumnNameDecorator p c = Ok (Some (rule, isAlias))"
    "getPatternInRouteResult env c isNot rule vs = Ok (result, vm)"
    "e' = EPatternInDec (EColumnDec c rule isAlias) vs isNot result vm rule"
    using pattern_in_need [of env p e vs isNot sel result e' p'] h True by metis
  have g: "GetType rule \<noteq> ShardGlobal" using cov n(1,3) by (auto simp: of_global_def)
  note r = routed_rule [OF rt n(3) g]
  have e': "resolve i e' = EPatternIn (EColumn c) (values_at vm i) isNot None" using n(5) by simp
  show ?thesis
  proof (cases "isNot \<or> GetShardingColumn rule \<noteq> ci_L (cn_Name c)")
    case True
    then have "vm = getBroadcastValueMap (GetSubTableIndexes rule) vs"
      using n(4) g by (auto simp: getPatternInRouteResult_def Let_def split: if_splits)
    moreover have "distinct (GetSubTableIndexes rule)" using r(1) by (simp add: rule_ok_def strict_sorted_iff)
    ultimately have "values_at vm i = vs" using broadcast_values [of "GetSubTableIndexes rule" vs i] r(2) by simp
    then show ?thesis using e' n(1,2) same by simp
  next
    case False
    note vals = in_route_values [of env c rule vs result vm]
    show ?thesis
    proof (rule split [OF n(1,2)])
      show "\<not> isNot" "has" "sharding_rule p c = Some rule" using False True r(3) by auto
      show "resolve i e' = EPatternIn (EColumn c) (filter (\<lambda>v. in_route env rule v = Ok i) vs) False None"
        using e' vals(3) n(4) g False by simp
      show "set result = {i. \<exists>v \<in> set vs. in_route env rule v = Ok i}" using vals(2) n(4) g False by simp
      show "in_route env rule v = Ok i" if "v \<in> set vs" "literal_holds cmp tv OpEQ c (val c) v" for tv v
        using in_literal_route [OF n(4) g _ _ r(1)] r(3,4) False cov n(1) that by auto
    qed
  qed
qed

lemma pattern_in_exact:
  assumes "handlePatternInExpr env p e vs isNot sel = Ok (has, result, e', p')" "routed env cmp D strict p val i"
    "covered cmp D strict p (EPatternIn e vs isNot sel)" "plain (EPatternIn e vs isNot sel)"
  shows "holds cmp tv val (resolve i e') \<longleftrightarrow> holds cmp tv val (EPatternIn e vs isNot sel)"
  using assms
proof (cases rule: pattern_in_values)
  case (split c rule)
  then show ?thesis by (auto simp: list_ex_iff)
qed simp

lemma between_resolve:
  assumes "handleBetweenExpr env p e l r isNot = Ok (has, result, e', p')" "plain (EBetween e l r isNot)"
  shows "resolve i e' = EBetween e l r isNot"
proof -
  obtain need where n: "NeedCreateBetweenExprDecorator p e = Ok need" using assms(1) by (auto simp: handleBetweenExpr_def)
  note u = assms(1) [unfolded handleBetweenExpr_def n wrap.simps andThen.simps]
  have col: "e = EColumn c" if "need = Some (c, rule, isAlias)" for c rule isAlias
    using n that by (cases e) (auto simp: NeedCreateBetweenExprDecorator_def)
  show ?thesis using u col resolve_plain [OF assms(2), of i] by (cases need) auto
qed

text \<open>The remaining conditions are printed as they were.\<close>

lemma handle_resolve:
  assumes "handleComparisonExpr env p e = Ok (has, result, e', p')" "plain e"
    "\<And>op l r. e = EBinary op l r \<Longrightarrow> op \<noteq> OpLogicAnd \<and> op \<noteq> OpLogicOr"
    "\<And>a vs isNot sel. e \<noteq> EPatternIn a vs isNot sel" "\<And>a. e \<noteq> EParen a"
  shows "resolve i e' = e"
proof (cases e)
  case (EBinary op l r)
  consider "handleBinaryOperationExprMathCompare env p op l r = Ok (has, result, e', p')"
    | "handleBinaryOperationExprOther p op l r = Ok (has, result, e', p')"
    using assms(1,3) EBinary by (auto split: if_splits)
  then show ?thesis using math_compare_resolve [of env p op l r] other_resolve [of p op l r] assms(2) EBinary by cases auto
next
  case (EBetween a l r isNot)
  then show ?thesis using between_resolve [of env p a l r isNot] assms(1,2) by simp
qed (use assms accept_resolve [of p e e' i] in auto)

lemma handle_exact:
  assumes "handleComparisonExpr env p e = Ok (has, result, e', p')" "routed env cmp D strict p val i"
    "covered cmp D strict p e" "plain e"
  shows "holds cmp tv val (resolve i e') \<longleftrightarrow> holds cmp tv val e"
  using assms
proof (induction e arbitrary: p has result e' p')
  case (EBinary op l r)
  have pl: "plain l" "plain r" using EBinary.prems(4) by auto
  show ?case
  proof (cases "op = OpLogicAnd \<or> op = OpLogicOr")
    case True
    obtain lh lr le p1 rh rr re where lr: "handleComparisonExpr env p l = Ok (lh, lr, le, p1)"
      "handleComparisonExpr env p1 r = Ok (rh, rr, re, p')" "e' = EBinary op le re"
      by (rule handle_logic [OF EBinary.prems(1) True])
    obtain h where h: "p1 = p\<lparr>si_hintPhyDB := h\<rparr>" using handle_info [OF lr(1)] by blast
    have c: "covered cmp D strict p l" "covered cmp D strict p r" using EBinary.prems(3) True by auto
    show ?thesis
      using EBinary.IH(1) [OF lr(1) EBinary.prems(2) c(1) pl(1)] EBinary.IH(2) [OF lr(2)] EBinary.prems(2) c(2) pl(2) h lr(3) True
      by auto
  next
    case False
    then have "resolve i e' = EBinary op l r" by (intro handle_resolve [OF EBinary.prems(1,4)]) auto
    then show ?thesis by simp
  qed
next
  case (EPatternIn e vs isNot sel)
  from EPatternIn.prems(1) have "handlePatternInExpr env p e vs isNot sel = Ok (has, result, e', p')" by simp
  from pattern_in_exact [OF this EPatternIn.prems(2-4)] show ?case .
next
  case (EParen e)
  from EParen.prems(1) obtain e1 where "handleComparisonExpr env p e = Ok (has, result, e1, p')" "e' = EParen e1" by auto
  with EParen.IH [of p has result e1 p'] EParen.prems show ?case by simp
qed (drule (1) handle_resolve [where i = i]; simp)+

section \<open>Conditions that the database accepts\<close>

text \<open>The grammar of MySQL has no empty \<^verbatim>\<open>IN\<close> list.\<close>

fun accepted :: "ExprNode \<Rightarrow> bool" where
  "accepted (EFuncCall f es) \<longleftrightarrow> list_all accepted es"
| "accepted (EAggregate f es b) \<longleftrightarrow> list_all accepted es"
| "accepted (EBinary op l r) \<longleftrightarrow> accepted l \<and> accepted r"
| "accepted (EUnary op e) \<longleftrightarrow> accepted e"
| "accepted (EPatternIn e es isNot sel) \<longleftrightarrow>
     accepted e \<and> list_all accepted es \<and> (case sel of None \<Rightarrow> es \<noteq> [] | Some s \<Rightarrow> accepted s)"
| "accepted (EBetween e l r isNot) \<longleftrightarrow> accepted e \<and> accepted l \<and> accepted r"
| "accepted (EIsNull e isNot) \<longleftrightarrow> accepted e"
| "accepted (EParen e) \<longleftrightarrow> accepted e"
| "accepted (EOther ps es) \<longleftrightarrow> list_all accepted es"
| "accepted e \<longleftrightarrow> True"

definition evaluates ::
  "(Op \<Rightarrow> Datum \<Rightarrow> Datum \<Rightarrow> bool) \<Rightarrow> (ExprNode \<Rightarrow> bool) \<Rightarrow> (ColumnName \<Rightarrow> Datum) \<Rightarrow> ExprNode \<Rightarrow> bool option" where
  "evaluates cmp tv val e = (if accepted e then Some (holds cmp tv val e) else None)"

text \<open>
  No \<^verbatim>\<open>IN\<close> on a sharding column; and none below an \<^verbatim>\<open>OR\<close>, where the route may have tables without a value
  of the list.
\<close>

fun no_sharded_in :: "TableAliasStmtInfo \<Rightarrow> ExprNode \<Rightarrow> bool" where
  "no_sharded_in p (EBinary op l r) \<longleftrightarrow> op \<noteq> OpLogicAnd \<and> op \<noteq> OpLogicOr \<or> no_sharded_in p l \<and> no_sharded_in p r"
| "no_sharded_in p (EPatternIn e vs isNot sel) \<longleftrightarrow>
     (case e of EColumn c \<Rightarrow> isNot \<or> sharding_rule p c = None | _ \<Rightarrow> True)"
| "no_sharded_in p (EParen e) \<longleftrightarrow> no_sharded_in p e"
| "no_sharded_in p e \<longleftrightarrow> True"

fun in_outside_or :: "TableAliasStmtInfo \<Rightarrow> ExprNode \<Rightarrow> bool" where
  "in_outside_or p (EBinary op l r) \<longleftrightarrow>
     (if op = OpLogicAnd then in_outside_or p l \<and> in_outside_or p r
      else if op = OpLogicOr then no_sharded_in p l \<and> no_sharded_in p r
      else True)"
| "in_outside_or p (EParen e) \<longleftrightarrow> in_outside_or p e"
| "in_outside_or p e \<longleftrightarrow> True"

lemma in_hint [simp]:
  "no_sharded_in (p\<lparr>si_hintPhyDB := h\<rparr>) e = no_sharded_in p e"
  "in_outside_or (p\<lparr>si_hintPhyDB := h\<rparr>) e = in_outside_or p e"
proof -
  show n: "no_sharded_in (p\<lparr>si_hintPhyDB := h\<rparr>) e = no_sharded_in p e" for e
    by (induction e) (auto split: ExprNode.splits)
  show "in_outside_or (p\<lparr>si_hintPhyDB := h\<rparr>) e = in_outside_or p e" by (induction e) (simp_all add: n)
qed

lemma pattern_in_accepted:
  assumes "handlePatternInExpr env p e vs isNot sel = Ok (has, result, e', p')" "routed env cmp D strict p val i"
    "covered cmp D strict p (EPatternIn e vs isNot sel)" "plain (EPatternIn e vs isNot sel)" "accepted (EPatternIn e vs isNot sel)"
    "no_sharded_in p (EPatternIn e vs isNot sel) \<or> (has \<longrightarrow> i \<in> set result)"
  shows "accepted (resolve i e')"
  using assms(1-4)
proof (cases rule: pattern_in_values)
  case (split c rule)
  then show ?thesis using assms(5,6) by (auto simp: list_all_iff filter_empty_conv)
qed (use assms(5) in simp)

lemma handle_accepted:
  assumes "handleComparisonExpr env p e = Ok (has, result, e', p')" "routed env cmp D strict p val i"
    "covered cmp D strict p e" "plain e" "accepted e"
    "no_sharded_in p e \<or> in_outside_or p e \<and> (has \<longrightarrow> i \<in> set result)"
  shows "accepted (resolve i e')"
  using assms
proof (induction e arbitrary: p has result e' p')
  case (EBinary op l r)
  have pl: "plain l" "plain r" "accepted l" "accepted r" using EBinary.prems(4,5) by auto
  show ?case
  proof (cases "op = OpLogicAnd \<or> op = OpLogicOr")
    case True
    obtain lh lr le p1 rh rr re where lr: "handleComparisonExpr env p l = Ok (lh, lr, le, p1)"
      "handleComparisonExpr env p1 r = Ok (rh, rr, re, p')" "mergeBinaryOperationRouteResult op lh lr rh rr = (has, result)"
      "e' = EBinary op le re"
      by (rule handle_logic [OF EBinary.prems(1) True])
    obtain h where h: "p1 = p\<lparr>si_hintPhyDB := h\<rparr>" using handle_info [OF lr(1)] by blast
    have c: "covered cmp D strict p l" "covered cmp D strict p r" using EBinary.prems(3) True by auto
    have asc: "lh \<Longrightarrow> ascending lr" "rh \<Longrightarrow> ascending rr"
      using handle_sound [of env p l lr le p1] handle_sound [of env p1 r rr re p'] lr(1,2) EBinary.prems(2) c h by auto
    have "(lh \<longrightarrow> i \<in> set lr) \<and> (rh \<longrightarrow> i \<in> set rr)" if "op = OpLogicAnd" "has \<longrightarrow> i \<in> set result"
      using that lr(3) asc by (auto simp: mergeBinaryOperationRouteResult_def set_interList split: if_splits)
    then have "no_sharded_in p l \<or> in_outside_or p l \<and> (lh \<longrightarrow> i \<in> set lr)"
      "no_sharded_in p r \<or> in_outside_or p r \<and> (rh \<longrightarrow> i \<in> set rr)"
      using EBinary.prems(6) True by auto
    then show ?thesis
      using EBinary.IH(1) [OF lr(1) EBinary.prems(2) c(1) pl(1,3)] EBinary.IH(2) [OF lr(2)] EBinary.prems(2) c(2) pl(2,4) h lr(4)
      by auto
  next
    case False
    then have "resolve i e' = EBinary op l r" by (intro handle_resolve [OF EBinary.prems(1,4)]) auto
    then show ?thesis using EBinary.prems(5) by simp
  qed
next
  case (EPatternIn e vs isNot sel)
  from EPatternIn.prems(1) have "handlePatternInExpr env p e vs isNot sel = Ok (has, result, e', p')" by simp
  from pattern_in_accepted [OF this EPatternIn.prems(2-5)] EPatternIn.prems(6) show ?case by blast
next
  case (EParen e)
  from EParen.prems(1) obtain e1 where "handleComparisonExpr env p e = Ok (has, result, e1, p')" "e' = EParen e1" by auto
  with EParen.IH [of p has result e1 p'] EParen.prems show ?case by simp
qed (drule (1) handle_resolve [where i = i]; simp)+

text \<open>The whole condition: on a table of the route the database evaluates the rewritten condition to the value
  of the original one, which is false of the rows of the other tables.\<close>

lemma condition_exact:
  assumes h: "handle_condition env p e = Ok (e', p')" and rt: "routed env cmp D strict p val i"
    and cov: "covered cmp D strict p e" and pl: "plain e" "accepted e" "in_outside_or p e"
    and idx: "ascending (rr_indexes (si_result p))" "i \<in> set (rr_indexes (si_result p))"
  shows "if i \<in> set (rr_indexes (si_result p')) then evaluates cmp tv val (resolve i e') = Some (holds cmp tv val e)
    else \<not> holds cmp tv val e"
proof -
  obtain has result q where c: "handleComparisonExpr env p e = Ok (has, result, e', q)"
    "p' = (if has then q\<lparr>si_result := rr_Inter (si_result q) result\<rparr> else q)"
    using h by (auto simp: handle_condition_def)
  obtain hint where q: "q = p\<lparr>si_hintPhyDB := hint\<rparr>" using handle_info [OF c(1)] by blast
  have snd: "has \<Longrightarrow> ascending result \<and> (holds cmp tv val e \<longrightarrow> i \<in> set result)"
    using handle_sound [of env p e result e' q cmp D strict val i tv] c(1) rt cov by simp
  then have route: "i \<in> set (rr_indexes (si_result p')) \<longleftrightarrow> (has \<longrightarrow> i \<in> set result)"
    using c(2) q idx by (cases has) (auto simp: rr_Inter_def set_interList)
  then show ?thesis
    using snd handle_exact [OF c(1) rt cov pl(1)] handle_accepted [OF c(1) rt cov pl(1,2)] pl(3) by (auto simp: evaluates_def)
qed

section \<open>Rules of numbers and dates\<close>

lemma rule_index_eq: "rule_index env r = (\<lambda>d. FindForKey env (GetShard r) (key_of d))"
  by (simp add: rule_index_def FindTableIndex_def fun_eq_iff)

definition number_shard :: "Shard \<Rightarrow> bool" where
  "number_shard s \<longleftrightarrow> (case s of NumRangeShard rs \<Rightarrow> ordered_ranges rs | _ \<Rightarrow> \<not> IsRangeShard s)"

lemma number_rule_ok:
  assumes "number_shard (GetShard r)" "ascending (GetSubTableIndexes r)"
    "\<And>op x y b c. is_cmp op \<Longrightarrow> cmp op (DInt64 x b) (DInt64 y c) \<longleftrightarrow> int_rel op x y"
  shows "rule_ok env cmp int_datum True r"
proof -
  have agree: "cmp op a b \<longleftrightarrow> int_cmp op a b" if "int_datum a" "int_datum b" "is_cmp op" for op a b
    using that assms(3) by (auto elim!: int_datumE)
  have "column_order cmp int_datum (rule_index env r)"
    unfolding rule_index_eq by (rule column_order_cong [OF shard_int.column_order_axioms agree])
  moreover have "strict_range_column cmp int_datum (rule_index env r) (rule_starts env r)" if rg: "IsRangeShard (GetShard r)"
  proof -
    obtain rs where rs: "GetShard r = NumRangeShard rs" "ordered_ranges rs"
      using rg assms(1) by (cases "GetShard r") (auto simp: number_shard_def)
    have s: "strict_range_column int_cmp int_datum (\<lambda>d. NumRangeShard_FindForKey rs (key_of d))
        (\<lambda>d. NumRangeShard_EqualStart rs (key_of d))"
      using num_range.strict_range_column_axioms [of rs] rs(2) by simp
    have "rule_starts env r = (\<lambda>d. NumRangeShard_EqualStart rs (key_of d))"
      using rs(1) by (simp add: rule_starts_def fun_eq_iff)
    then show ?thesis using strict_range_column_cong [OF s agree] rs(1) by (simp add: rule_index_eq)
  qed
  ultimately show ?thesis using assms(2) by (auto simp: rule_ok_def strict_range_column_def)
qed

lemma date_rule_ok:
  assumes "GetShard r \<in> {DateYearShard, DateMonthShard, DateDayShard}" "ascending (GetSubTableIndexes r)"
    "\<And>op s t b c. is_cmp op \<Longrightarrow> dashed_date s \<Longrightarrow> dashed_date t \<Longrightarrow>
       cmp op (DString s b) (DString t c) \<longleftrightarrow> int_rel op (date_num (date_of s)) (date_num (date_of t))"
  shows "rule_ok env cmp date_datum False r"
proof -
  have agree: "cmp op a b \<longleftrightarrow> date_cmp op a b" if "date_datum a" "date_datum b" "is_cmp op" for op a b
    using that assms(3) by (auto elim!: date_datumE)
  have "range_column date_cmp date_datum (rule_index env r)"
    using assms(1) date_year.range_column_axioms [of env] date_month.range_column_axioms [of env]
      date_day.range_column_axioms [of env]
    by (auto simp: rule_index_eq)
  from range_column_cong [OF this agree] have "range_column cmp date_datum (rule_index env r)" .
  then show ?thesis using assms(2) by (auto simp: rule_ok_def range_column_def)
qed

end
