(* ===== verification/Plan_Where.thy ===== *)
theory Plan_Where
  imports Plan_Exact
begin

text \<open>
  The properties of routing by conditions, for rules as the configuration gives them: on integer keys
  under every numbered rule and on date keys under the date rules; and the conditions for which the
  routing loses rows or panics.
\<close>

section \<open>Configured rules keep the contract\<close>

definition number_config :: "ShardCfg \<Rightarrow> bool" where
  "number_config cfg \<longleftrightarrow>
     numbered_type (cfg_Type cfg) \<and> list_all (\<lambda>l. 0 \<le> l) (cfg_Locations cfg) \<and> sum_list (cfg_Locations cfg) \<le> MaxInt64 \<and>
     (cfg_Type cfg = ShardRange \<longrightarrow>
        0 < cfg_TableRowLimit cfg \<and> sum_list (cfg_Locations cfg) * cfg_TableRowLimit cfg < MaxInt64)"

definition date_config :: "ShardCfg \<Rightarrow> bool" where
  "date_config cfg \<longleftrightarrow> cfg_Type cfg \<in> {ShardDay, ShardMonth, ShardYear}"

lemma number_config_rule:
  assumes "parseRule cfg = Ok r" "number_config cfg"
  shows "number_shard (br_shard r)" "ascending (br_subTableIndexes r)"
proof -
  note f = parseRule_fields [OF assms(1)]
  have c: "numbered_type (cfg_Type cfg)" "\<forall>l \<in> set (cfg_Locations cfg). 0 \<le> l" "sum_list (cfg_Locations cfg) \<le> MaxInt64"
    "cfg_Type cfg = ShardRange \<Longrightarrow>
       0 < cfg_TableRowLimit cfg \<and> sum_list (cfg_Locations cfg) * cfg_TableRowLimit cfg < MaxInt64"
    using assms(2) by (auto simp: number_config_def list_all_iff)
  show "ascending (br_subTableIndexes r)"
    using parseHash_tables(1) [OF numbered_slice_infos [OF f(1) c(1)] c(2,3)] ascending_upto by simp
  show "number_shard (br_shard r)"
  proof (cases "cfg_Type cfg = ShardRange")
    case True
    let ?limit = "cfg_TableRowLimit cfg" and ?n = "sum_list (cfg_Locations cfg)"
    have "ParseNumSharding (cfg_Locations cfg) ?limit = Ok (limit_ranges ?limit ?n)"
      using ParseNumSharding_ranges [OF c(2)] c(4) [OF True] by (simp add: limit_ranges_def)
    then have "br_shard r = NumRangeShard (limit_ranges ?limit ?n)"
      using f(1) True by (auto simp: parseRuleSliceInfos_def Let_def shard_types split: if_splits)
    then show ?thesis using limit_ranges_ordered c(4) [OF True] by (simp add: number_shard_def)
  next
    case False
    have "\<not> IsRangeShard s" if "parseRuleSliceInfos cfg = Ok (sub, m, s)" for sub m s
      using that c(1) False
      by (auto simp: parseRuleSliceInfos_def numbered_type_def IsMycatShardingRule_def Let_def shard_types split: if_splits)
    from this [OF f(1)] show ?thesis by (cases "br_shard r") (simp_all add: number_shard_def)
  qed
qed

text \<open>A row of the statement's tables with index \<open>i\<close>: its sharding columns have values of the
  domain that their rules place in table \<open>i\<close>.\<close>

definition row_in :: "Env \<Rightarrow> (Datum \<Rightarrow> bool) \<Rightarrow> TableAliasStmtInfo \<Rightarrow> (ColumnName \<Rightarrow> Datum) \<Rightarrow> int \<Rightarrow> bool" where
  "row_in env D p val i \<longleftrightarrow>
     (\<forall>(t, r) \<in> set (si_tableRules p). i \<in> set (GetSubTableIndexes r)) \<and>
     (\<forall>c rule. sharding_rule p c = Some rule \<longrightarrow> D (val c) \<and> FindTableIndex env rule (key_of (val c)) = Ok i)"

lemma number_routed:
  assumes "wf_info p" "\<forall>(t, r) \<in> set (si_tableRules p). \<exists>cfg. parseRule cfg = Ok (base_of r) \<and> number_config cfg"
    "row_in env int_datum p val i"
    "\<And>op x y b c. is_cmp op \<Longrightarrow> cmp op (DInt64 x b) (DInt64 y c) \<longleftrightarrow> int_rel op x y"
  shows "routed env cmp int_datum True p val i"
proof -
  have "rule_ok env cmp int_datum True r" if "(t, r) \<in> set (si_tableRules p)" for t r
  proof -
    obtain cfg where "parseRule cfg = Ok (base_of r)" "number_config cfg" using assms(2) \<open>(t, r) \<in> _\<close> by blast
    from number_config_rule [OF this] show ?thesis by (intro number_rule_ok) (simp_all add: rule_methods assms(4))
  qed
  then show ?thesis using assms(1,3) unfolding routed_def row_in_def rule_index_def by fast
qed

lemma date_routed:
  assumes "wf_info p" "\<forall>(t, r) \<in> set (si_tableRules p). \<exists>cfg. parseRule cfg = Ok (base_of r) \<and> date_config cfg"
    "row_in env date_datum p val i"
    "\<And>op s t b c. is_cmp op \<Longrightarrow> dashed_date s \<Longrightarrow> dashed_date t \<Longrightarrow>
       cmp op (DString s b) (DString t c) \<longleftrightarrow> int_rel op (date_num (date_of s)) (date_num (date_of t))"
  shows "routed env cmp date_datum False p val i"
proof -
  have "rule_ok env cmp date_datum False r" if "(t, r) \<in> set (si_tableRules p)" for t r
  proof -
    obtain cfg where c: "parseRule cfg = Ok (base_of r)" "date_config cfg" using assms(2) \<open>(t, r) \<in> _\<close> by blast
    show ?thesis
      using date_rule_sorted [OF c(1)] c(2) by (intro date_rule_ok) (simp_all add: rule_methods date_config_def assms(4))
  qed
  then show ?thesis using assms(1,3) unfolding routed_def row_in_def rule_index_def by fast
qed

section \<open>Routing selects exactly the rows of the condition\<close>


definition example_base :: BaseRule where
  "example_base =
     \<lparr>br_db = ''db'', br_table = ''tbl'', br_shardingColumn = ''id'', br_ruleType = ShardMycatMod,
      br_slices = [''slice-0'', ''slice-1''], br_subTableIndexes = [0, 1, 2, 3],
      br_tableToSlice = [(0, 0), (1, 0), (2, 1), (3, 1)], br_shard = MycatModShard 4,
      br_mycatDatabases = [''db_0'', ''db_1'', ''db_2'', ''db_3''],
      br_mycatDatabaseToTableIndexMap = [(''db_0'', 0), (''db_1'', 1), (''db_2'', 2), (''db_3'', 3)]\<rparr>"

definition example_info :: "BaseRule \<Rightarrow> TableAliasStmtInfo" where
  "example_info r =
     \<lparr>si_db = ''db'', si_sql = [], si_router = \<lparr>rt_rules = Map.empty, rt_defaultRule = NewDefaultRule ''slice-0''\<rparr>,
      si_tableRules = [(''tbl'', RBase r)], si_globalTableRules = [],
      si_result = NewRouteResult ''db'' ''tbl'' (br_subTableIndexes r), si_tableAlias = [], si_hintPhyDB = []\<rparr>"

definition col :: "string \<Rightarrow> ColumnName" where
  "col c = \<lparr>cn_Schema = NewCIStr [], cn_Table = NewCIStr [], cn_Name = NewCIStr c\<rparr>"

abbreviation int_lit :: "int \<Rightarrow> ExprNode" where
  "int_lit n \<equiv> EValue (DInt64 n False)"

definition example_cond :: ExprNode where
  "example_cond = EBinary OpLogicAnd
     (EPatternIn (EColumn (col ''id'')) [int_lit 1, int_lit 7, int_lit 10] False None)
     (EBinary OpLT (EColumn (col ''id'')) (int_lit 9))"

lemma sharding_rule_in:
  assumes "wf_info p" "sharding_rule p c = Some r"
  shows "r \<in> snd ` set (si_tableRules p)"
  using assms(2) need_rule_in [OF _ assms(1), of c r]
  by (auto simp: sharding_rule_def split: res.splits option.splits if_splits)

lemma handleWhere_Some:
  assumes "is_ok (handleWhere env p (Some e))"
  obtains e' p' where "handleWhere env p (Some e) = Ok (Some e', p')"
  using assms by (auto simp: handleWhere_def is_ok_iff is_ok_andThen split: prod.splits)

lemma example_info_row:
  assumes "br_ruleType r \<noteq> ShardGlobal" "i \<in> set (br_subTableIndexes r)" "D d" "FindForKey env (br_shard r) (key_of d) = Ok i"
  shows "wf_info (example_info r)" "row_in env D (example_info r) (\<lambda>_. d) i"
proof -
  show w: "wf_info (example_info r)" using assms(1) by (simp add: wf_info_def example_info_def rule_methods)
  have "rule = RBase r" if "sharding_rule (example_info r) c = Some rule" for c rule
    using sharding_rule_in [OF w that] by (simp add: example_info_def)
  moreover have "si_tableRules (example_info r) = [(''tbl'', RBase r)]" by (simp add: example_info_def)
  ultimately show "row_in env D (example_info r) (\<lambda>_. d) i"
    using assms(2-4) unfolding row_in_def by (fastforce simp: rule_methods)
qed



definition example_date_base :: BaseRule where
  "example_date_base =
     \<lparr>br_db = ''db'', br_table = ''tbl'', br_shardingColumn = ''id'', br_ruleType = ShardMonth,
      br_slices = [''slice-0'', ''slice-1''], br_subTableIndexes = [201511, 201512, 201601, 201602],
      br_tableToSlice = [(201511, 0), (201512, 0), (201601, 0), (201602, 1)], br_shard = DateMonthShard,
      br_mycatDatabases = [], br_mycatDatabaseToTableIndexMap = []\<rparr>"

abbreviation str_lit :: "string \<Rightarrow> ExprNode" where
  "str_lit s \<equiv> EValue (DString s [])"

definition example_date_cond :: ExprNode where
  "example_date_cond = EBinary OpLogicAnd
     (EBinary OpGE (EColumn (col ''id'')) (str_lit ''2015-12-15''))
     (EBetween (EColumn (col ''id'')) (str_lit ''2015-12-20'') (str_lit ''2016-01-31'') False)"

lemma example_date_rule: "parseRule example_date_cfg = Ok example_date_base"
  by code_simp


section \<open>Conditions that lose rows\<close>

text \<open>
  The date shards report every key as the first of its table, so that the bound of \<^verbatim>\<open>column < date\<close>
  is moved down one table: the table of the date itself is dropped, with all its earlier rows.
\<close>

lemma date_less_drops_table:
  assumes "GetShard rule \<in> {DateYearShard, DateMonthShard, DateDayShard}" "FindTableIndex env rule v = Ok j"
    "getFindTableIndexesFunc env OpLT rule (GetShardingColumn rule) v = Ok result"
  shows "j \<notin> set result"
proof -
  have "EqualStart env (GetShard rule) v j = Ok True"
    using assms(1,2) by (auto simp: FindTableIndex_def equal_start_of_def)
  then have "adjustShardIndex env (GetShard rule) v j = Ok (j - 1)" by (simp add: adjustShardIndex_def)
  moreover have "IsRangeShard (GetShard rule)" using assms(1) by auto
  ultimately show ?thesis using assms(2,3) by (auto simp: getFindTableIndexesFunc_def)
qed

lemma date_less_gap:
  "(case handleWhere list_treemap (example_info example_date_base)
          (Some (EBinary OpLT (EColumn (col ''id'')) (str_lit ''2016-01-20''))) of
      Ok (e', p') \<Rightarrow> rr_indexes (si_result p') = [201511, 201512] | _ \<Rightarrow> False) \<and>
   holds date_cmp (\<lambda>_. False) (\<lambda>_. DString ''2016-01-05'' []) (EBinary OpLT (EColumn (col ''id'')) (str_lit ''2016-01-20'')) \<and>
   FindTableIndex list_treemap (RBase example_date_base) (KString ''2016-01-05'') = Ok 201601"
  by (intro conjI; code_simp)

definition example_range_base :: BaseRule where
  "example_range_base = example_base\<lparr>br_ruleType := ShardRange, br_shard := NumRangeShard (limit_ranges 100 4)\<rparr>"

text \<open>\<^verbatim>\<open>NOT BETWEEN\<close> with the larger bound first holds of every value, but is routed as if the bounds
  were in order.\<close>

lemma not_between_gap:
  "(case handleWhere list_treemap (example_info example_range_base)
          (Some (EBetween (EColumn (col ''id'')) (int_lit 350) (int_lit 50) True)) of
      Ok (e', p') \<Rightarrow> rr_indexes (si_result p') = [0, 3] | _ \<Rightarrow> False) \<and>
   holds int_cmp (\<lambda>_. False) (\<lambda>_. DInt64 150 False) (EBetween (EColumn (col ''id'')) (int_lit 350) (int_lit 50) True) \<and>
   FindTableIndex list_treemap (RBase example_range_base) (KInt64 150) = Ok 1"
  by (intro conjI; code_simp)

definition example_global_base :: BaseRule where
  "example_global_base = example_base\<lparr>br_table := ''g'', br_ruleType := ShardGlobal, br_subTableIndexes := [0, 1],
     br_shard := GlobalTableShard\<rparr>"

definition example_joined :: TableAliasStmtInfo where
  "example_joined = (example_info example_base)\<lparr>si_globalTableRules := [(''g'', RBase example_global_base)]\<rparr>"

definition qcol :: "string \<Rightarrow> string \<Rightarrow> ColumnName" where
  "qcol t c = (col c)\<lparr>cn_Table := NewCIStr t\<rparr>"

text \<open>An \<^verbatim>\<open>IN\<close> on a column of a joined global table restricts the route to the indexes of the copies of
  the global table, although the copies hold the same rows.\<close>

lemma global_in_gap:
  "(case handleWhere list_treemap example_joined
          (Some (EPatternIn (EColumn (qcol ''g'' ''kind'')) [int_lit 1] False None)) of
      Ok (e', p') \<Rightarrow> rr_indexes (si_result p') = [0, 1] | _ \<Rightarrow> False) \<and>
   rr_indexes (si_result example_joined) = [0, 1, 2, 3]"
  by (intro conjI; code_simp)

text \<open>
  An \<^verbatim>\<open>IN\<close> on the sharding column below an \<^verbatim>\<open>OR\<close> is printed without values for the tables that none of its
  values belongs to. The database rejects the statement for such a table, although rows of it may satisfy the
  other side of the \<^verbatim>\<open>OR\<close>.
\<close>

definition or_in_cond :: ExprNode where
  "or_in_cond = EBinary OpLogicOr (EPatternIn (EColumn (col ''id'')) [int_lit 7] False None)
     (EBinary OpEQ (EColumn (col ''v'')) (int_lit 1))"

lemma or_in_empty_list:
  "(case handleWhere list_treemap (example_info example_base) (Some or_in_cond) of
      Ok (Some e', p') \<Rightarrow> rr_indexes (si_result p') = [0, 1, 2, 3] \<and>
        out_res (Restore (si_result p') e') = Ok ''`id` IN () OR `v`=1'' \<and>
        evaluates int_cmp (\<lambda>_. False) (\<lambda>_. DInt64 1 False) (resolve 0 e') = None | _ \<Rightarrow> False) \<and>
   holds int_cmp (\<lambda>_. False) (\<lambda>_. DInt64 1 False) or_in_cond"
  by (intro conjI; code_simp)

text \<open>A \<^verbatim>\<open>NULL\<close> literal compared with the sharding column panics in the shard function, and so does a
  column of an unknown table below a node that only the column visitor sees.\<close>

lemma null_key_panics:
  "is_panic (handleWhere list_treemap (example_info example_base) (Some (EBinary OpEQ (EColumn (col ''id'')) (EValue DNull))))"
  by code_simp

lemma unknown_table_panics:
  "is_panic (handleWhere list_treemap (example_info example_base) (Some (EIsNull (EColumn (qcol ''x'' ''a'')) False)))"
  by code_simp

end
