(* ===== verification/Sql_Stmt.thy ===== *)
theory Sql_Stmt
  imports Plan_Info
begin

text \<open>
  The statements of \<^verbatim>\<open>src/parser/ast/dml.go\<close> that the plans handle, and how they are printed.

  \<^item> A nil pointer is \<open>None\<close>; a \<^verbatim>\<open>TableRefsClause\<close> is its join.
  \<^item> Optimizer hints, index hints and window specifications are the texts they print.
  \<^item> \<open>RUnion\<close> is a union in the place of a table, which the plans reject.
  \<^item> \<^verbatim>\<open>RestoreCtx.JoinLevel\<close> is an argument of the printing functions.
\<close>

section \<open>Statements\<close>

datatype JoinType = CrossJoin | LeftJoin | RightJoin

record WildCardField =
  wc_Table :: CIStr
  wc_Schema :: CIStr

record SelectField =
  sf_WildCard :: "WildCardField option"
  sf_Expr :: "ExprNode option"
  sf_AsName :: CIStr

record ByItem =
  bi_Expr :: ExprNode
  bi_Desc :: bool

record Limit =
  lm_Count :: ExprNode
  lm_Offset :: "ExprNode option"

record Assignment =
  as_Column :: ColumnName
  as_Expr :: ExprNode

datatype SelectLockType = SelectLockNone | SelectLockForUpdate | SelectLockInShareMode

datatype PriorityEnum = NoPriority | LowPriority | HighPriority | DelayedPriority | BadPriority int

datatype ResultSetNode =
    RTableName TableName
  | RTableNameDec TableName Rule
  | RTableSource ResultSetNode CIStr
  | RJoin (jn_Left: "ResultSetNode option") (jn_Right: "ResultSetNode option") (jn_Tp: JoinType)
      (jn_On: "ExprNode option") (jn_Using: "ColumnName list") (jn_Natural: bool) (jn_Straight: bool)
  | RSelect SelectStmt
  | RUnion string
and SelectStmt =
    SelectStmt (st_Priority: PriorityEnum) (st_SQLCache: bool) (st_StraightJoin: bool) (st_TableHints: "string list")
      (st_Distinct: bool) (st_From: "ResultSetNode option") (st_Where: "ExprNode option")
      (st_Fields: "SelectField list option") (st_GroupBy: "ByItem list option") (st_Having: "ExprNode option")
      (st_WindowSpecs: "string list option") (st_OrderBy: "ByItem list option") (st_Limit: "Limit option")
      (st_LockTp: SelectLockType)

record UpdateStmt =
  us_TableRefs :: "ResultSetNode option"
  us_List :: "Assignment list"
  us_Where :: "ExprNode option"
  us_Order :: "ByItem list option"
  us_Limit :: "Limit option"
  us_Priority :: PriorityEnum
  us_IgnoreErr :: bool
  us_TableHints :: "string list"

record DeleteStmt =
  ds_TableRefs :: "ResultSetNode option"
  ds_Tables :: "TableName list option"
  ds_Where :: "ExprNode option"
  ds_Order :: "ByItem list option"
  ds_Limit :: "Limit option"
  ds_Priority :: PriorityEnum
  ds_IgnoreErr :: bool
  ds_Quick :: bool
  ds_IsMultiTable :: bool
  ds_BeforeFrom :: bool
  ds_TableHints :: "string list"

text \<open>\<open>is_ListsAssist\<close> is the \<^verbatim>\<open>InsertValuesExprDecorator\<close> that the plan puts in place of the rows.\<close>

record InsertStmt =
  is_IsReplace :: bool
  is_IgnoreErr :: bool
  is_Table :: ResultSetNode
  is_Columns :: "ColumnName list"
  is_Lists :: "ExprNode list list"
  is_Setlist :: "Assignment list"
  is_Priority :: PriorityEnum
  is_OnDuplicate :: "Assignment list"
  is_Select :: "ResultSetNode option"
  is_ListsAssist :: "(int \<times> ExprNode list list) list option"

section \<open>Printing clauses\<close>

fun PriorityEnum_Restore :: "PriorityEnum \<Rightarrow> out" where
  "PriorityEnum_Restore NoPriority = wr []"
| "PriorityEnum_Restore LowPriority = wr ''LOW_PRIORITY''"
| "PriorityEnum_Restore HighPriority = wr ''HIGH_PRIORITY''"
| "PriorityEnum_Restore DelayedPriority = wr ''DELAYED''"
| "PriorityEnum_Restore (BadPriority n) = fail (Err (ErrMsg ''undefined PriorityEnum Type''))"

definition priority_space :: "PriorityEnum \<Rightarrow> out" where
  "priority_space p = outs [PriorityEnum_Restore p, wr (if p = NoPriority then [] else '' '')]"

definition as_name :: "CIStr \<Rightarrow> out" where
  "as_name n = (if ci_O n = [] then wr [] else wr ('' AS '' @ WriteName (ci_O n)))"

definition WildCardField_Restore :: "WildCardField \<Rightarrow> out" where
  "WildCardField_Restore w = outs [write_opt (ci_O (wc_Schema w)), write_opt (ci_O (wc_Table w)), wr ''*'']"

definition out_opt :: "('a \<Rightarrow> out) \<Rightarrow> 'a option \<Rightarrow> out" where
  "out_opt f x = (case x of None \<Rightarrow> wr [] | Some y \<Rightarrow> f y)"

definition SelectField_Restore :: "RouteResult \<Rightarrow> SelectField \<Rightarrow> out" where
  "SelectField_Restore rr f =
     outs [out_opt WildCardField_Restore (sf_WildCard f), out_opt (Restore rr) (sf_Expr f), as_name (sf_AsName f)]"

definition ByItem_Restore :: "RouteResult \<Rightarrow> ByItem \<Rightarrow> out" where
  "ByItem_Restore rr i = outs [Restore rr (bi_Expr i), wr (if bi_Desc i then '' DESC'' else [])]"

definition GroupByClause_Restore :: "RouteResult \<Rightarrow> ByItem list \<Rightarrow> out" where
  "GroupByClause_Restore rr items = outs [wr ''GROUP BY '', sep_outs '','' (map (ByItem_Restore rr) items)]"

definition OrderByClause_Restore :: "RouteResult \<Rightarrow> ByItem list \<Rightarrow> out" where
  "OrderByClause_Restore rr items = outs [wr ''ORDER BY '', sep_outs '','' (map (ByItem_Restore rr) items)]"

definition HavingClause_Restore :: "RouteResult \<Rightarrow> ExprNode \<Rightarrow> out" where
  "HavingClause_Restore rr e = outs [wr ''HAVING '', Restore rr e]"

definition Limit_Restore :: "RouteResult \<Rightarrow> Limit \<Rightarrow> out" where
  "Limit_Restore rr l =
     outs [wr ''LIMIT '', out_opt (\<lambda>e. outs [Restore rr e, wr '','']) (lm_Offset l), Restore rr (lm_Count l)]"

definition Assignment_Restore :: "RouteResult \<Rightarrow> Assignment \<Rightarrow> out" where
  "Assignment_Restore rr a = outs [ColumnName_Restore (as_Column a), wr ''='', Restore rr (as_Expr a)]"

definition hints_out :: "string list \<Rightarrow> out" where
  "hints_out hs = (if hs = [] then wr [] else wr (''/*+ '' @ concat hs @ ''*/ ''))"

definition Join_Restore ::
  "RouteResult \<Rightarrow> nat \<Rightarrow> out option \<Rightarrow> out option \<Rightarrow> JoinType \<Rightarrow> ExprNode option \<Rightarrow> ColumnName list \<Rightarrow> bool \<Rightarrow> bool \<Rightarrow> out" where
  "Join_Restore rr level l r tp on using natural straight =
     (let body = outs
        [(case l of None \<Rightarrow> fail (Panic PNil) | Some w \<Rightarrow> w),
         (case r of
            None \<Rightarrow> wr []
          | Some w \<Rightarrow> outs
              [wr (if natural then '' NATURAL'' else []),
               wr (case tp of LeftJoin \<Rightarrow> '' LEFT'' | RightJoin \<Rightarrow> '' RIGHT'' | CrossJoin \<Rightarrow> []),
               wr (if straight then '' STRAIGHT_JOIN '' else '' JOIN ''), w,
               out_opt (\<lambda>e. outs [wr '' ON '', Restore rr e]) on,
               (if using = [] then wr [] else outs [wr '' USING ('', sep_outs '','' (map ColumnName_Restore using), wr '')''])])]
      in if level \<noteq> 0 then (case body of (t, e) \<Rightarrow> (''('' @ t @ '')'', e)) else body)"

fun lock_text :: "SelectLockType \<Rightarrow> string" where
  "lock_text SelectLockNone = []"
| "lock_text SelectLockForUpdate = '' FOR UPDATE''"
| "lock_text SelectLockInShareMode = '' LOCK IN SHARE MODE''"

definition priority_hint :: "PriorityEnum \<Rightarrow> string" where
  "priority_hint p = (case p of LowPriority \<Rightarrow> ''LOW_PRIORITY '' | HighPriority \<Rightarrow> ''HIGH_PRIORITY ''
     | DelayedPriority \<Rightarrow> ''DELAYED '' | NoPriority \<Rightarrow> [] | BadPriority n \<Rightarrow> if n > 0 then '' '' else [])"

section \<open>Printing statements\<close>

text \<open>\<^verbatim>\<open>SelectStmt.Restore\<close> drops the errors of its clauses: what follows is appended to what the failed
  clause had written.\<close>

fun ResultSetNode_Restore :: "RouteResult \<Rightarrow> nat \<Rightarrow> ResultSetNode \<Rightarrow> out"
and SelectStmt_Restore :: "RouteResult \<Rightarrow> nat \<Rightarrow> SelectStmt \<Rightarrow> out" where
  "ResultSetNode_Restore rr level (RTableName n) = TableName_Restore n"
| "ResultSetNode_Restore rr level (RTableNameDec n rule) = TableNameDecorator_Restore rr n rule"
| "ResultSetNode_Restore rr level (RTableSource source asName) =
     (let needParen = (case source of RSelect _ \<Rightarrow> True | RUnion _ \<Rightarrow> True | _ \<Rightarrow> False)
      in outs [wr (if needParen then ''('' else []), ResultSetNode_Restore rr level source,
               wr (if needParen then '')'' else []), as_name asName])"
| "ResultSetNode_Restore rr level (RJoin l r tp on us natural straight) =
     Join_Restore rr level (map_option (ResultSetNode_Restore rr (Suc level)) l)
       (map_option (ResultSetNode_Restore rr (Suc level)) r) tp on us natural straight"
| "ResultSetNode_Restore rr level (RSelect s) = SelectStmt_Restore rr level s"
| "ResultSetNode_Restore rr level (RUnion t) = wr t"
| "SelectStmt_Restore rr level
     (SelectStmt priority cache straight hints dist from wher flds groupBy having windows orderBy limit lock) =
     outs
       [wr ''SELECT '', wr (priority_hint priority), wr (if cache then [] else ''SQL_NO_CACHE ''), hints_out hints,
        wr (if dist then ''DISTINCT '' else []), wr (if straight then ''STRAIGHT_JOIN '' else []),
        out_opt (\<lambda>fs. sep_outs '','' (map (\<lambda>f. drop_error (SelectField_Restore rr f)) fs)) flds,
        (case map_option (ResultSetNode_Restore rr level) from of
           Some w \<Rightarrow> outs [wr '' FROM '', drop_error w]
         | None \<Rightarrow> wr (if wher \<noteq> None then '' FROM DUAL'' else [])),
        out_opt (\<lambda>e. outs [wr '' WHERE '', drop_error (Restore rr e)]) wher,
        out_opt (\<lambda>g. outs [wr '' '', drop_error (GroupByClause_Restore rr g)]) groupBy,
        out_opt (\<lambda>h. outs [wr '' '', drop_error (HavingClause_Restore rr h)]) having,
        out_opt (\<lambda>ws. outs [wr '' WINDOW '', sep_outs '','' (map wr ws)]) windows,
        out_opt (\<lambda>b. outs [wr '' '', drop_error (OrderByClause_Restore rr b)]) orderBy,
        out_opt (\<lambda>l. outs [wr '' '', drop_error (Limit_Restore rr l)]) limit,
        wr (lock_text lock)]"

definition from_out :: "RouteResult \<Rightarrow> ResultSetNode option \<Rightarrow> out" where
  "from_out rr refs = (case refs of None \<Rightarrow> fail (Panic PNil) | Some j \<Rightarrow> ResultSetNode_Restore rr 0 j)"

definition where_order_limit :: "RouteResult \<Rightarrow> ExprNode option \<Rightarrow> ByItem list option \<Rightarrow> Limit option \<Rightarrow> out" where
  "where_order_limit rr wher order limit =
     outs [out_opt (\<lambda>e. outs [wr '' WHERE '', Restore rr e]) wher,
           out_opt (\<lambda>b. outs [wr '' '', OrderByClause_Restore rr b]) order,
           out_opt (\<lambda>l. outs [wr '' '', Limit_Restore rr l]) limit]"

definition UpdateStmt_Restore :: "RouteResult \<Rightarrow> UpdateStmt \<Rightarrow> out" where
  "UpdateStmt_Restore rr u =
     outs [wr ''UPDATE '', hints_out (us_TableHints u), priority_space (us_Priority u),
           wr (if us_IgnoreErr u then ''IGNORE '' else []), from_out rr (us_TableRefs u), wr '' SET '',
           sep_outs '', '' (map (Assignment_Restore rr) (us_List u)),
           where_order_limit rr (us_Where u) (us_Order u) (us_Limit u)]"

definition DeleteTableList_Restore :: "TableName list option \<Rightarrow> out" where
  "DeleteTableList_Restore ts = (case ts of None \<Rightarrow> fail (Panic PNil) | Some ts \<Rightarrow> sep_outs '','' (map TableName_Restore ts))"

definition DeleteStmt_Restore :: "RouteResult \<Rightarrow> DeleteStmt \<Rightarrow> out" where
  "DeleteStmt_Restore rr d =
     outs [wr ''DELETE '', hints_out (ds_TableHints d), priority_space (ds_Priority d),
           wr (if ds_Quick d then ''QUICK '' else []), wr (if ds_IgnoreErr d then ''IGNORE '' else []),
           (if ds_IsMultiTable d then
              if ds_BeforeFrom d
              then outs [DeleteTableList_Restore (ds_Tables d), wr '' FROM '', from_out rr (ds_TableRefs d)]
              else outs [wr ''FROM '', DeleteTableList_Restore (ds_Tables d), wr '' USING '', from_out rr (ds_TableRefs d)]
            else outs [wr ''FROM '', from_out rr (ds_TableRefs d)]),
           where_order_limit rr (ds_Where d) (ds_Order d) (ds_Limit d)]"

definition rows_out :: "RouteResult \<Rightarrow> ExprNode list list \<Rightarrow> out" where
  "rows_out rr rows =
     outs [wr '' VALUES '', sep_outs '','' (map (\<lambda>row. outs [wr ''('', sep_outs '','' (map (Restore rr) row), wr '')'']) rows)]"

definition InsertValuesExprDecorator_Restore :: "RouteResult \<Rightarrow> (int \<times> ExprNode list list) list \<Rightarrow> out" where
  "InsertValuesExprDecorator_Restore rr indexValueMap =
     at_table rr (\<lambda>tableIndex. rows_out rr (values_at indexValueMap tableIndex))"

text \<open>An empty slice counts as nil here: the parser leaves an absent part nil, and the plan rejects a
  statement with an empty column list before it is printed.\<close>

definition InsertStmt_Restore :: "RouteResult \<Rightarrow> InsertStmt \<Rightarrow> out" where
  "InsertStmt_Restore rr n =
     outs [wr (if is_IsReplace n then ''REPLACE '' else ''INSERT ''), priority_space (is_Priority n),
           wr (if is_IgnoreErr n then ''IGNORE '' else []), wr ''INTO '', ResultSetNode_Restore rr 0 (is_Table n),
           (if is_Columns n = [] then wr []
            else outs [wr '' ('', sep_outs '','' (map ColumnName_Restore (is_Columns n)), wr '')'']),
           (case is_ListsAssist n of
              Some m \<Rightarrow> drop_error (InsertValuesExprDecorator_Restore rr m)
            | None \<Rightarrow> if is_Lists n = [] then wr [] else rows_out rr (is_Lists n)),
           out_opt (\<lambda>s. outs [wr '' '',
              (case s of RSelect _ \<Rightarrow> ResultSetNode_Restore rr 0 s | RUnion _ \<Rightarrow> ResultSetNode_Restore rr 0 s
                       | _ \<Rightarrow> fail (Err (ErrMsg ''Incorrect type for InsertStmt.Select'')))]) (is_Select n),
           (if is_Setlist n = [] then wr []
            else outs [wr '' SET '', sep_outs '','' (map (Assignment_Restore rr) (is_Setlist n))]),
           (if is_OnDuplicate n = [] then wr []
            else outs [wr '' ON DUPLICATE KEY UPDATE '', sep_outs '','' (map (Assignment_Restore rr) (is_OnDuplicate n))])]"

end
