(* ===== verification/Sequence.thy ===== *)
theory Sequence
  imports Go_Base
begin

text \<open>
  \<^verbatim>\<open>src/proxy/sequence\<close>: global sequence numbers. A sequence reserves a segment of numbers in the
  database with one query and hands them out one by one.

  The database is a parameter: \<open>answers k\<close> is the outcome of the \<open>k\<close>-th query of any sequence object,
  the text in the first field of the first row or an error of the connection. A lock makes every
  \<^verbatim>\<open>NextSeq\<close> one step, so that a run is a list of calls on the objects of all proxies.
\<close>

section \<open>One sequence\<close>

record MySQLSequence =
  sq_pkName :: string
  sq_seqName :: string
  sq_curr :: int
  sq_max :: int
  sq_sql :: string

definition NewMySQLSequence :: "string \<Rightarrow> string \<Rightarrow> MySQLSequence" where
  "NewMySQLSequence seqName pkName =
     \<lparr>sq_pkName = pkName, sq_seqName = seqName, sq_curr = 0, sq_max = 0,
      sq_sql = ''SELECT mycat_seq_nextval('' @ [CHR 39] @ seqName @ [CHR 39] @ '') as seq_val''\<rparr>"

definition GetPKName :: "MySQLSequence \<Rightarrow> string" where
  "GetPKName s = sq_pkName s"

text \<open>The errors of \<^verbatim>\<open>strconv.ParseInt\<close> are dropped.\<close>

definition getSeqFromDB :: "string res \<Rightarrow> MySQLSequence \<Rightarrow> MySQLSequence res" where
  "getSeqFromDB answer s =
     andThen answer (\<lambda>ret.
       case split_on (CHR '','') ret of
         [a, b] \<Rightarrow>
           let curr = fst (parseInt10 a); incr = fst (parseInt10 b)
           in Ok (s\<lparr>sq_max := i64 (curr + incr), sq_curr := curr\<rparr>)
       | _ \<Rightarrow> Err (ErrMsg ''invalid mycat sequence value''))"

definition exhausted :: "MySQLSequence \<Rightarrow> bool" where
  "exhausted s \<longleftrightarrow> sq_curr s \<ge> sq_max s"

definition NextSeq :: "string res \<Rightarrow> MySQLSequence \<Rightarrow> (int \<times> MySQLSequence) res" where
  "NextSeq answer s =
     andThen (if exhausted s then getSeqFromDB answer s else Ok s) (\<lambda>s.
       let n = i64 (sq_curr s + 1) in Ok (n, s\<lparr>sq_curr := n\<rparr>))"

section \<open>The sequences of a namespace\<close>

type_synonym SequenceManager = "string \<rightharpoonup> (string \<rightharpoonup> MySQLSequence)"

definition NewSequenceManager :: SequenceManager where
  "NewSequenceManager = Map.empty"

definition SetSequence :: "SequenceManager \<Rightarrow> string \<Rightarrow> string \<Rightarrow> MySQLSequence \<Rightarrow> SequenceManager res" where
  "SetSequence m db table seq =
     (let m = (if m db = None then m(db \<mapsto> Map.empty) else m)
      in case m db of
           None \<Rightarrow> Panic PNil
         | Some t \<Rightarrow>
             if t table \<noteq> None then Err (ErrMsg ''already set sequence'')
             else Ok (m(db \<mapsto> t(table \<mapsto> seq))))"

definition GetSequence :: "SequenceManager \<Rightarrow> string \<Rightarrow> string \<Rightarrow> MySQLSequence option" where
  "GetSequence m db table = (case m db of None \<Rightarrow> None | Some t \<Rightarrow> t table)"

lemma GetSequence_SetSequence:
  "SetSequence m db table seq = Ok m' \<Longrightarrow>
   GetSequence m' db' table' = (if db' = db \<and> table' = table then Some seq else GetSequence m db' table')"
  by (auto simp: SetSequence_def GetSequence_def Let_def split: option.splits if_splits)

section \<open>Many callers\<close>

text \<open>Any number of sequence objects share the database. A call that needs no segment makes no query.\<close>

record SeqWorld =
  sw_queries :: nat
  sw_seqs :: "nat \<Rightarrow> MySQLSequence"

definition call :: "(nat \<Rightarrow> string res) \<Rightarrow> SeqWorld \<Rightarrow> nat \<Rightarrow> int res \<times> SeqWorld" where
  "call answers w i =
     (let s = sw_seqs w i; w1 = (if exhausted s then w\<lparr>sw_queries := Suc (sw_queries w)\<rparr> else w)
      in case NextSeq (answers (sw_queries w)) s of
           Ok (n, s') \<Rightarrow> (Ok n, w1\<lparr>sw_seqs := (sw_seqs w)(i := s')\<rparr>)
         | Err e \<Rightarrow> (Err e, w1)
         | Panic q \<Rightarrow> (Panic q, w1))"

fun calls :: "(nat \<Rightarrow> string res) \<Rightarrow> SeqWorld \<Rightarrow> nat list \<Rightarrow> int res list" where
  "calls answers w [] = []"
| "calls answers w (i # is) = (case call answers w i of (r, w) \<Rightarrow> r # calls answers w is)"

definition fresh_world :: "(nat \<Rightarrow> MySQLSequence) \<Rightarrow> SeqWorld" where
  "fresh_world seqs = \<lparr>sw_queries = 0, sw_seqs = seqs\<rparr>"

fun numbers :: "int res list \<Rightarrow> int list" where
  "numbers [] = []"
| "numbers (Ok n # rs) = n # numbers rs"
| "numbers (_ # rs) = numbers rs"

section \<open>Uniqueness\<close>

text \<open>
  What the proxy relies on: an answer is a pair of numbers \<open>c,n\<close> with which the database reserves the
  \<open>n\<close> numbers after \<open>c\<close>, at least one, and no number is reserved twice.
\<close>

definition reserves :: "string res \<Rightarrow> int \<Rightarrow> int \<Rightarrow> bool" where
  "reserves a c n \<longleftrightarrow> a = Ok (itoa c @ '','' @ itoa n) \<and> 0 \<le> c \<and> 0 < n \<and> in_i64 (c + n)"

definition segment :: "string res \<Rightarrow> int set" where
  "segment a = \<Union> {{c<..c + n} | c n. reserves a c n}"

definition serves :: "string res \<Rightarrow> bool" where
  "serves a \<longleftrightarrow> \<not> is_ok a \<or> (\<exists>c n. reserves a c n)"

lemma itoa_chars: "ch \<in> set (itoa n) \<Longrightarrow> is_digit ch \<or> ch = CHR ''-''"
  by (auto simp: itoa_def dest: nat_str_digits [rotated] split: if_splits)

lemma comma_itoa: "CHR '','' \<notin> set (itoa n)"
  using itoa_chars [of "CHR '',''" n] by (auto simp: is_digit_def)

lemma split_on_append: "c \<notin> set s \<Longrightarrow> split_on c (s @ c # t) = s # split_on c t"
  by (induction s) (auto split: list.splits)

lemma getSeqFromDB_reserves:
  assumes "reserves a c n"
  shows "getSeqFromDB a s = Ok (s\<lparr>sq_max := c + n, sq_curr := c\<rparr>)"
proof -
  have b: "in_i64 n" "in_i64 c" "in_i64 (c + n)" using assms by (auto simp: reserves_def in_i64_bounds)
  have "split_on (CHR '','') (itoa c @ '','' @ itoa n) = [itoa c, itoa n]"
    by (simp add: split_on_append split_on_no_sep comma_itoa)
  then show ?thesis using assms b by (simp add: getSeqFromDB_def reserves_def parseInt10_itoa Let_def i64_id)
qed

lemma reserves_unique:
  assumes "reserves a c n" "reserves a c' n'"
  shows "c = c' \<and> n = n'"
proof -
  let ?s = "NewMySQLSequence [] []"
  have e: "?s\<lparr>sq_max := c + n, sq_curr := c\<rparr> = ?s\<lparr>sq_max := c' + n', sq_curr := c'\<rparr>"
    using getSeqFromDB_reserves [OF assms(1), of ?s] getSeqFromDB_reserves [OF assms(2), of ?s] by simp
  show ?thesis using arg_cong [OF e, of sq_curr] arg_cong [OF e, of sq_max] by simp
qed

lemma segment_reserves: "reserves a c n \<Longrightarrow> segment a = {c<..c + n}"
  unfolding segment_def using reserves_unique [of a c n] by blast

definition remaining :: "MySQLSequence \<Rightarrow> int set" where
  "remaining s = {sq_curr s<..sq_max s}"

definition reserved :: "(nat \<Rightarrow> string res) \<Rightarrow> nat \<Rightarrow> int set" where
  "reserved answers q = (\<Union>k<q. segment (answers k))"

definition seq_inv :: "(nat \<Rightarrow> string res) \<Rightarrow> SeqWorld \<Rightarrow> int set \<Rightarrow> bool" where
  "seq_inv answers w used \<longleftrightarrow>
     used \<subseteq> reserved answers (sw_queries w) \<and>
     (\<forall>i. remaining (sw_seqs w i) \<subseteq> reserved answers (sw_queries w) - used \<and> in_i64 (sq_curr (sw_seqs w i)) \<and> in_i64 (sq_max (sw_seqs w i))) \<and>
     (\<forall>i j. i \<noteq> j \<longrightarrow> remaining (sw_seqs w i) \<inter> remaining (sw_seqs w j) = {})"

lemma segment_cases:
  assumes "serves a" "getSeqFromDB a s = Ok s'"
  shows "\<exists>c n. reserves a c n \<and> s' = s\<lparr>sq_max := c + n, sq_curr := c\<rparr>"
  using assms by (auto simp: serves_def is_ok_iff getSeqFromDB_reserves) (auto simp: getSeqFromDB_def)

text \<open>One call, with the segment it starts from: that of its object, or the one it reserves.\<close>

lemma take_least: "c < m \<Longrightarrow> c + 1 \<in> {c<..m} \<and> {c + 1<..m} = {c<..m} - {c + 1}" for c m :: int
  by force

lemma NextSeq_step:
  assumes "NextSeq a s = Ok (n, s')" "serves a" "in_i64 (sq_curr s)" "in_i64 (sq_max s)"
  shows "n \<in> (if exhausted s then segment a else remaining s) \<and>
     remaining s' = (if exhausted s then segment a else remaining s) - {n} \<and> in_i64 (sq_curr s') \<and> in_i64 (sq_max s')"
proof (cases "exhausted s")
  case True
  then obtain s1 where s1: "getSeqFromDB a s = Ok s1" "n = i64 (sq_curr s1 + 1)" "s' = s1\<lparr>sq_curr := n\<rparr>"
    using assms(1) by (auto simp: NextSeq_def Let_def)
  obtain c k where r: "reserves a c k" "s1 = s\<lparr>sq_max := c + k, sq_curr := c\<rparr>"
    using segment_cases [OF assms(2) s1(1)] by blast
  have k: "0 \<le> c" "0 < k" "in_i64 (c + k)" using r(1) by (simp_all add: reserves_def)
  then have b: "in_i64 (c + 1)" "in_i64 (c + k)" "0 < k" unfolding in_i64_bounds by linarith+
  then have n: "n = c + 1" "sq_curr s' = c + 1" "sq_max s' = c + k" using s1 r(2) by (simp_all add: i64_id)
  show ?thesis using True b take_least [of c "c + k"] by (simp add: remaining_def n segment_reserves [OF r(1)])
next
  case False
  then have l: "sq_curr s < sq_max s" by (simp add: exhausted_def)
  have b: "in_i64 (sq_curr s + 1)" using l assms(3,4) unfolding in_i64_bounds by linarith
  then have n: "n = sq_curr s + 1" "s' = s\<lparr>sq_curr := sq_curr s + 1\<rparr>"
    using assms(1) False by (auto simp: NextSeq_def Let_def i64_id)
  show ?thesis using False b assms(4) take_least [OF l] by (simp add: remaining_def n)
qed

definition fair :: "(nat \<Rightarrow> string res) \<Rightarrow> bool" where
  "fair answers \<longleftrightarrow> (\<forall>k. serves (answers k)) \<and> (\<forall>j k. j \<noteq> k \<longrightarrow> segment (answers j) \<inter> segment (answers k) = {})"

lemma reserved_Suc: "reserved answers (Suc q) = reserved answers q \<union> segment (answers q)"
  by (auto simp: reserved_def less_Suc_eq)

lemma reserved_fresh:
  assumes "fair answers"
  shows "segment (answers q) \<inter> reserved answers q = {}"
proof -
  have "segment (answers q) \<inter> segment (answers k) = {}" if "k < q" for k
    using assms that by (simp add: fair_def)
  then show ?thesis unfolding reserved_def by (simp add: Int_UN_distrib)
qed

lemma seq_inv_queries: "seq_inv answers w used \<Longrightarrow> seq_inv answers (w\<lparr>sw_queries := Suc (sw_queries w)\<rparr>) used"
  by (auto simp: seq_inv_def reserved_Suc)

text \<open>A number leaves the segment \<open>base\<close> of caller \<open>i\<close>, which no other caller and no earlier number has.\<close>

lemma seq_inv_take:
  assumes inv: "seq_inv answers w used" and q: "sw_queries w \<le> q" and n: "n \<in> base" "remaining s' = base - {n}"
    and base: "base \<inter> used = {}" "base \<subseteq> reserved answers q" "\<And>j. j \<noteq> i \<Longrightarrow> base \<inter> remaining (sw_seqs w j) = {}"
    and b: "in_i64 (sq_curr s')" "in_i64 (sq_max s')"
  shows "n \<notin> used \<and> seq_inv answers (w\<lparr>sw_queries := q, sw_seqs := (sw_seqs w)(i := s')\<rparr>) (insert n used)"
proof -
  have mono: "reserved answers (sw_queries w) \<subseteq> reserved answers q" unfolding reserved_def using q by (intro UN_mono) auto
  have old: "remaining (sw_seqs w j) \<subseteq> reserved answers q - insert n used" if "j \<noteq> i" for j
    using inv mono n(1) base(3) [OF that] unfolding seq_inv_def by blast
  have new: "remaining s' \<subseteq> reserved answers q - insert n used" using n base by blast
  have apart: "remaining s' \<inter> remaining (sw_seqs w j) = {}" if "j \<noteq> i" for j using n(2) base(3) [OF that] by blast
  have "insert n used \<subseteq> reserved answers q" using inv mono n(1) base(2) unfolding seq_inv_def by blast
  moreover have "n \<notin> used" using n(1) base(1) by blast
  moreover have "remaining (((sw_seqs w)(i := s')) j) \<inter> remaining (((sw_seqs w)(i := s')) k) = {}" if "j \<noteq> k" for j k
    using that apart [of j] apart [of k] inv by (cases "j = i"; cases "k = i") (auto simp: seq_inv_def)
  ultimately show ?thesis using inv old new b by (simp add: seq_inv_def)
qed

lemma call_inv:
  assumes "seq_inv answers w used" "call answers w i = (Ok n, w')" "fair answers"
  shows "n \<notin> used \<and> seq_inv answers w' (insert n used)"
proof -
  let ?s = "sw_seqs w i" and ?a = "answers (sw_queries w)"
  have inv: "in_i64 (sq_curr ?s)" "in_i64 (sq_max ?s)" "remaining ?s \<subseteq> reserved answers (sw_queries w) - used"
    "\<And>j. j \<noteq> i \<Longrightarrow> remaining ?s \<inter> remaining (sw_seqs w j) = {}"
    "used \<subseteq> reserved answers (sw_queries w)" "\<And>j. remaining (sw_seqs w j) \<subseteq> reserved answers (sw_queries w)"
    using assms(1) unfolding seq_inv_def by blast+
  have a: "serves ?a" using assms(3) by (simp add: fair_def)
  show ?thesis
  proof (cases "exhausted ?s")
    case True
    then obtain s' where s': "NextSeq ?a ?s = Ok (n, s')" "w' = w\<lparr>sw_queries := Suc (sw_queries w), sw_seqs := (sw_seqs w)(i := s')\<rparr>"
      using assms(2) by (auto simp: call_def Let_def split: res.splits)
    have st: "n \<in> segment ?a" "remaining s' = segment ?a - {n}" "in_i64 (sq_curr s')" "in_i64 (sq_max s')"
      using NextSeq_step [OF s'(1) a inv(1,2)] True by simp_all
    have fresh: "segment ?a \<inter> reserved answers (sw_queries w) = {}" by (rule reserved_fresh [OF assms(3)])
    have "segment ?a \<inter> used = {}" using fresh inv(5) by blast
    moreover have "segment ?a \<subseteq> reserved answers (Suc (sw_queries w))" by (simp add: reserved_Suc)
    moreover have "segment ?a \<inter> remaining (sw_seqs w j) = {}" for j using fresh inv(6) [of j] by blast
    ultimately show ?thesis unfolding s'(2)
      using seq_inv_take [OF assms(1) _ st(1,2) _ _ _ st(3,4), of "Suc (sw_queries w)" i] by simp
  next
    case False
    then obtain s' where s': "NextSeq ?a ?s = Ok (n, s')" "w' = w\<lparr>sw_queries := sw_queries w, sw_seqs := (sw_seqs w)(i := s')\<rparr>"
      using assms(2) by (auto simp: call_def Let_def split: res.splits)
    have st: "n \<in> remaining ?s" "remaining s' = remaining ?s - {n}" "in_i64 (sq_curr s')" "in_i64 (sq_max s')"
      using NextSeq_step [OF s'(1) a inv(1,2)] False by simp_all
    show ?thesis unfolding s'(2)
      by (rule seq_inv_take [OF assms(1) order.refl st(1,2) _ _ inv(4) st(3,4)]) (use inv(3) in blast)+
  qed
qed

lemma call_inv_fail:
  assumes "seq_inv answers w used" "call answers w i = (r, w')" "\<not> is_ok r"
  shows "seq_inv answers w' used"
  using assms seq_inv_queries [OF assms(1)]
  by (auto simp: call_def Let_def split: res.splits if_splits)

lemma calls_distinct:
  assumes "fair answers" "seq_inv answers w used"
  shows "distinct (numbers (calls answers w cs)) \<and> set (numbers (calls answers w cs)) \<inter> used = {}"
  using assms(2)
proof (induction cs arbitrary: w used)
  case (Cons i cs)
  obtain r w' where c: "call answers w i = (r, w')" by fastforce
  show ?case
  proof (cases r)
    case (Ok n)
    then have "n \<notin> used" "seq_inv answers w' (insert n used)" using call_inv [OF Cons.prems _ assms(1)] c by auto
    with Cons.IH [of w' "insert n used"] Ok c show ?thesis by auto
  qed (use Cons.IH call_inv_fail [OF Cons.prems c] c in auto)
qed simp

lemma seq_inv_fresh:
  assumes "\<And>i. sq_curr (seqs i) = 0 \<and> sq_max (seqs i) = 0"
  shows "seq_inv answers (fresh_world seqs) {}"
  using assms by (simp add: seq_inv_def fresh_world_def remaining_def in_i64_bounds)

text \<open>A call fails only with the error of its query.\<close>

lemma call_fails:
  assumes "call answers w i = (r, w')" "\<not> is_ok r" "serves (answers (sw_queries w))"
  shows "r \<in> {Err e | e. answers (sw_queries w) = Err e} \<union> {Panic q | q. answers (sw_queries w) = Panic q}"
proof -
  have "\<not> is_ok (getSeqFromDB (answers (sw_queries w)) (sw_seqs w i))"
    using assms(1,2) by (auto simp: call_def NextSeq_def Let_def is_ok_iff split: res.splits if_splits)
  then have "\<not> is_ok (answers (sw_queries w))" using assms(3) getSeqFromDB_reserves by (fastforce simp: serves_def is_ok_iff)
  then show ?thesis using assms(1,2)
    by (cases "answers (sw_queries w)") (auto simp: call_def NextSeq_def getSeqFromDB_def Let_def split: res.splits if_splits)
qed

lemma call_queries: "call answers w i = (r, w') \<Longrightarrow> sw_queries w \<le> sw_queries w' \<and> sw_queries w' \<le> Suc (sw_queries w)"
  by (auto simp: call_def Let_def split: res.splits if_splits)

lemma calls_ok:
  assumes "\<And>k. serves (answers k)" "\<And>k. k < sw_queries w + length cs \<Longrightarrow> is_ok (answers k)" "r \<in> set (calls answers w cs)"
  shows "is_ok r"
  using assms(2,3)
proof (induction cs arbitrary: w)
  case (Cons i cs)
  obtain r' w' where c: "call answers w i = (r', w')" by fastforce
  have "is_ok r'" using call_fails [OF c _ assms(1)] Cons.prems(1) [of "sw_queries w"] by (cases "is_ok r'") auto
  moreover have "is_ok r" if "r \<in> set (calls answers w' cs)"
    using Cons.IH [of w'] Cons.prems(1) call_queries [OF c] that by auto
  ultimately show ?case using Cons.prems(2) c by auto
qed simp

text \<open>
  C17: any number of sequence objects, in any number of proxies, that start without a segment and draw
  on one database whose answers reserve disjoint segments never hand out a number twice, in whatever
  order they are called; and as long as the database answers, every call returns a number.
\<close>

theorem sequence_numbers_unique:
  assumes "fair answers" "\<forall>i. sq_curr (seqs i) = 0 \<and> sq_max (seqs i) = 0"
  shows "distinct (numbers (calls answers (fresh_world seqs) cs)) \<and>
     ((\<forall>k < length cs. is_ok (answers k)) \<longrightarrow> length (numbers (calls answers (fresh_world seqs) cs)) = length cs)"
proof -
  have d: "distinct (numbers (calls answers (fresh_world seqs) cs))"
    using calls_distinct [OF assms(1) seq_inv_fresh] assms(2) by blast
  have len: "length (calls answers w cs) = length cs" for w
    by (induction cs arbitrary: w) (auto split: prod.splits)
  have num: "\<forall>r \<in> set rs. is_ok r \<Longrightarrow> length (numbers rs) = length rs" for rs
    by (induction rs rule: numbers.induct) auto
  have "\<forall>r \<in> set (calls answers (fresh_world seqs) cs). is_ok r" if "\<forall>k < length cs. is_ok (answers k)"
    using calls_ok [of answers "fresh_world seqs" cs] assms(1) that by (simp add: fair_def fresh_world_def)
  with d len num show ?thesis by metis
qed

definition example_answers :: "nat \<Rightarrow> string res" where
  "example_answers k = (if k = 0 then Ok ''100,2'' else if k = 1 then Ok ''102,100'' else Err (ErrMsg ''connection refused''))"

lemma example_reserves: "reserves (Ok ''100,2'') 100 2" "reserves (Ok ''102,100'') 102 100"
  by (intro reserves_def [THEN iffD2]; code_simp)+

lemma example_fair: "fair example_answers"
proof -
  have "segment (Err e) = {}" for e by (auto simp: segment_def reserves_def)
  then have "segment (example_answers k) = (if k = 0 then {100<..102} else if k = 1 then {102<..202} else {})" for k
    by (simp add: example_answers_def segment_reserves [OF example_reserves(1)] segment_reserves [OF example_reserves(2)])
  moreover have "serves (example_answers k)" for k
    using example_reserves unfolding example_answers_def serves_def by auto
  ultimately show ?thesis by (auto simp: fair_def)
qed

theorem sequence_numbers_unique_witness:
  "distinct (numbers (calls example_answers (fresh_world (\<lambda>_. NewMySQLSequence ''S'' ''id'')) [0, 1, 0, 1, 0])) \<and>
   numbers (calls example_answers (fresh_world (\<lambda>_. NewMySQLSequence ''S'' ''id'')) [0, 1, 0, 1, 0]) = [101, 103, 102, 104]"
proof -
  have "\<forall>i::nat. sq_curr (NewMySQLSequence ''S'' ''id'') = 0 \<and> sq_max (NewMySQLSequence ''S'' ''id'') = 0"
    by (simp add: NewMySQLSequence_def)
  note u = sequence_numbers_unique [OF example_fair, of "\<lambda>_. NewMySQLSequence ''S'' ''id''" "[0, 1, 0, 1, 0]", OF this]
  have "numbers (calls example_answers (fresh_world (\<lambda>_. NewMySQLSequence ''S'' ''id'')) [0, 1, 0, 1, 0]) = [101, 103, 102, 104]"
    by code_simp
  with u show ?thesis by blast
qed

text \<open>
  The errors of the conversions are dropped: an answer whose increment does not parse, such as
  \<^verbatim>\<open>-999999999,null\<close>, reserves nothing, and every call returns the same number.
\<close>

lemma missing_sequence_repeats:
  "map (\<lambda>r. r = Ok (- 999999998)) (calls (\<lambda>_. Ok ''-999999999,null'') (fresh_world (\<lambda>_. NewMySQLSequence ''S'' ''id'')) [0, 0, 0])
     = [True, True, True]"
  by code_simp

end
