(* ===== verification/Plan_Insert.thy ===== *)
theory Plan_Insert
  imports Plan_Route Sql_Stmt Sequence Rule_Props "HOL-Library.Multiset"
begin

text \<open>
  \<^verbatim>\<open>src/proxy/plan/plan_insert.go\<close>: the plan of an \<^verbatim>\<open>INSERT\<close> or \<^verbatim>\<open>REPLACE\<close> statement. The rows are
  sorted into the tables of their sharding values, and each table gets a statement with its rows.

  The handlers change the plan and its statement in place; here each returns the plan. The outcomes
  of the sequence queries are the parameter \<open>answers\<close> of \<open>Sequence\<close>, counted by \<open>ip_queries\<close>.
\<close>

section \<open>The plan\<close>

record InsertPlan =
  ip_info :: StmtInfo
  ip_stmt :: InsertStmt
  ip_table :: string
  ip_isAssignmentMode :: bool
  ip_shardingColumnIndex :: int
  ip_sequences :: SequenceManager
  ip_queries :: nat
  ip_sqls :: sqls

definition NewInsertPlan :: "string \<Rightarrow> string \<Rightarrow> Router \<Rightarrow> SequenceManager \<Rightarrow> InsertStmt \<Rightarrow> InsertPlan" where
  "NewInsertPlan db sql r seq stmt =
     \<lparr>ip_info = NewStmtInfo db sql r, ip_stmt = stmt, ip_table = [], ip_isAssignmentMode = False,
      ip_shardingColumnIndex = - 1, ip_sequences = seq, ip_queries = 0, ip_sqls = []\<rparr>"

definition precheckInsertStmt :: "InsertPlan \<Rightarrow> InsertPlan res" where
  "precheckInsertStmt p =
     (let stmt = ip_stmt p
      in if is_Select stmt \<noteq> None then Err (ErrMsg ''select in insert not allowed'')
         else if is_Setlist stmt \<noteq> [] then Ok (p\<lparr>ip_isAssignmentMode := True\<rparr>)
         else if is_Columns stmt = [] then Err (ErrMsg ''insert or replace must specify columns'')
         else andThen (at (is_Lists stmt) 0) (\<lambda>values.
           if length (is_Columns stmt) \<noteq> length values then Err (ErrMsg ''column count doesn't match value count'')
           else Ok p))"

text \<open>The statements of a plan.\<close>

definition insert_sqls :: "InsertPlan \<Rightarrow> InsertPlan res" where
  "insert_sqls p =
     andThen (generateShardingSQLs (\<lambda>rr. out_res (InsertStmt_Restore rr (ip_stmt p))) (si_result (ip_info p)) (si_router (ip_info p)))
       (\<lambda>(sqls, result). Ok (p\<lparr>ip_sqls := sqls, ip_info := (ip_info p)\<lparr>si_result := result\<rparr>\<rparr>))"

definition handleInsertTableRefs :: "InsertPlan \<Rightarrow> (bool \<times> InsertPlan) res" where
  "handleInsertTableRefs p =
     (case is_Table (ip_stmt p) of
        RJoin left right tp on us natural straight \<Rightarrow>
          if right \<noteq> None then Err (ErrMsg ''have multi tables in insert'')
          else (case left of
            Some (RTableSource source asName) \<Rightarrow>
              (case source of
                 RTableName tableName \<Rightarrow>
                   let p = p\<lparr>ip_table := ci_L (tn_Name tableName)\<rparr>
                   in andThen (wrap ''check table name need to decorate error''
                        (NeedCreateTableNameDecoratorWithoutAlias (ip_info p) tableName)) (\<lambda>(rule, info).
                      andThen (wrap ''create table name decorator error'' (CreateTableNameDecorator tableName rule)) (\<lambda>(n, rule).
                        let table = RJoin (Some (RTableSource (RTableNameDec n rule) asName)) right tp on us natural straight;
                            p = p\<lparr>ip_info := info, ip_stmt := (ip_stmt p)\<lparr>is_Table := table\<rparr>\<rparr>
                        in if GetType rule = ShardGlobal then
                             andThen (wrap ''generate global table insert sql error''
                               (insert_sqls (p\<lparr>ip_info := info\<lparr>si_result := (si_result info)\<lparr>rr_db := GetDB rule,
                                  rr_table := GetTable rule, rr_indexes := GetSubTableIndexes rule\<rparr>\<rparr>\<rparr>))) (\<lambda>p. Ok (True, p))
                           else Ok (False, p)))
               | _ \<Rightarrow> Panic (PMsg ''interface conversion''))
          | _ \<Rightarrow> Err (ErrMsg ''not a table source''))
      | _ \<Rightarrow> Panic PNil)"

definition plan_rule :: "InsertPlan \<Rightarrow> Rule res" where
  "plan_rule p = (case map_of (si_tableRules (ip_info p)) (ip_table p) of None \<Rightarrow> Panic PNil | Some rule \<Rightarrow> Ok rule)"

section \<open>Sequence values\<close>

fun is_nextval :: "ExprNode \<Rightarrow> bool" where
  "is_nextval (EFuncCall f args) \<longleftrightarrow> ci_L f = ''nextval''"
| "is_nextval _ \<longleftrightarrow> False"

text \<open>A call of \<^verbatim>\<open>seq.NextSeq\<close>; a query is counted when the sequence needs a segment.\<close>

definition next_id :: "(nat \<Rightarrow> string res) \<Rightarrow> nat \<times> MySQLSequence \<Rightarrow> (ExprNode \<times> nat \<times> MySQLSequence) res" where
  "next_id answers qs =
     (case qs of (q, seq) \<Rightarrow>
        andThen (wrap ''get next seq error'' (NextSeq (answers q) seq)) (\<lambda>(n, seq').
          Ok (EValue (DInt64 n False), if exhausted seq then Suc q else q, seq')))"

fun seq_assignments ::
  "(nat \<Rightarrow> string res) \<Rightarrow> string \<Rightarrow> nat \<times> MySQLSequence \<Rightarrow> Assignment list \<Rightarrow> (Assignment list \<times> nat \<times> MySQLSequence) res" where
  "seq_assignments answers pkName qs [] = Ok ([], qs)"
| "seq_assignments answers pkName qs (a # as) =
     (if ci_L (cn_Name (as_Column a)) = pkName \<and> is_nextval (as_Expr a)
      then andThen (next_id answers qs) (\<lambda>(e, qs). Ok (a\<lparr>as_Expr := e\<rparr> # as, qs))
      else andThen (seq_assignments answers pkName qs as) (\<lambda>(as, qs). Ok (a # as, qs)))"

fun seq_rows ::
  "(nat \<Rightarrow> string res) \<Rightarrow> nat \<Rightarrow> nat \<times> MySQLSequence \<Rightarrow> ExprNode list list \<Rightarrow> (ExprNode list list \<times> nat \<times> MySQLSequence) res" where
  "seq_rows answers seqIndex qs [] = Ok ([], qs)"
| "seq_rows answers seqIndex qs (row # rows) =
     andThen (at row (int seqIndex)) (\<lambda>v.
     andThen (if is_nextval v then andThen (next_id answers qs) (\<lambda>(e, qs). Ok (row[seqIndex := e], qs)) else Ok (row, qs)) (\<lambda>(row, qs).
     andThen (seq_rows answers seqIndex qs rows) (\<lambda>(rows, qs). Ok (row # rows, qs))))"

fun index_where :: "('a \<Rightarrow> bool) \<Rightarrow> 'a list \<Rightarrow> nat option" where
  "index_where P [] = None"
| "index_where P (x # xs) = (if P x then Some 0 else map_option Suc (index_where P xs))"

definition put_seq :: "InsertPlan \<Rightarrow> nat \<times> MySQLSequence \<Rightarrow> InsertPlan" where
  "put_seq p qs =
     (let m = ip_sequences p; db = si_db (ip_info p)
      in p\<lparr>ip_queries := fst qs,
           ip_sequences := m(db := map_option (\<lambda>t. t(ip_table p \<mapsto> snd qs)) (m db))\<rparr>)"

definition handleInsertGlobalSequenceValue :: "(nat \<Rightarrow> string res) \<Rightarrow> InsertPlan \<Rightarrow> InsertPlan res" where
  "handleInsertGlobalSequenceValue answers p =
     (case GetSequence (ip_sequences p) (si_db (ip_info p)) (ip_table p) of
        None \<Rightarrow> Ok p
      | Some seq \<Rightarrow>
          let pkName = GetPKName seq; stmt = ip_stmt p; qs = (ip_queries p, seq)
          in if ip_isAssignmentMode p
             then andThen (seq_assignments answers pkName qs (is_Setlist stmt)) (\<lambda>(l, qs).
                    Ok (put_seq (p\<lparr>ip_stmt := stmt\<lparr>is_Setlist := l\<rparr>\<rparr>) qs))
             else case index_where (\<lambda>c. ci_L (cn_Name c) = pkName) (is_Columns stmt) of
                    None \<Rightarrow> Ok p
                  | Some seqIndex \<Rightarrow>
                      andThen (seq_rows answers seqIndex qs (is_Lists stmt)) (\<lambda>(rows, qs).
                        Ok (put_seq (p\<lparr>ip_stmt := stmt\<lparr>is_Lists := rows\<rparr>\<rparr>) qs)))"

section \<open>Columns and values\<close>

text \<open>The last column with the name of the sharding column.\<close>

definition sharding_index :: "string \<Rightarrow> ColumnName list \<Rightarrow> int \<Rightarrow> int" where
  "sharding_index key columns start =
     foldl (\<lambda>j (i, c). if ci_L (cn_Name c) = key then int i else j) start (enumerate 0 columns)"

definition handleInsertColumnNames :: "InsertPlan \<Rightarrow> InsertPlan res" where
  "handleInsertColumnNames p =
     (let stmt = ip_stmt p;
          columns = (if ip_isAssignmentMode p then map as_Column (is_Setlist stmt) else is_Columns stmt);
          strip = removeSchemaAndTableInfoInColumnName;
          stmt' = (if ip_isAssignmentMode p
                   then stmt\<lparr>is_Setlist := map (\<lambda>a. a\<lparr>as_Column := strip (as_Column a)\<rparr>) (is_Setlist stmt)\<rparr>
                   else stmt\<lparr>is_Columns := map strip (is_Columns stmt)\<rparr>)
      in andThen (if columns = [] then Ok (- 1)
                  else andThen (plan_rule p) (\<lambda>rule. Ok (sharding_index (GetShardingColumn rule) columns (ip_shardingColumnIndex p)))) (\<lambda>i.
           if i = - 1 then Err (ErrMsg ''sharding column not found'')
           else Ok (p\<lparr>ip_stmt := stmt', ip_shardingColumnIndex := i\<rparr>)))"

definition handleInsertOnDuplicate :: "InsertPlan \<Rightarrow> InsertPlan res" where
  "handleInsertOnDuplicate p =
     (let stmt = ip_stmt p
      in if is_OnDuplicate stmt = [] then Ok p
         else andThen (plan_rule p) (\<lambda>rule.
           if list_ex (\<lambda>a. ci_L (cn_Name (as_Column a)) = GetShardingColumn rule) (is_OnDuplicate stmt)
           then Err (ErrMsg ''routing key in update expression'')
           else Ok (p\<lparr>ip_stmt := stmt\<lparr>is_OnDuplicate :=
             map (\<lambda>a. a\<lparr>as_Column := removeSchemaAndTableInfoInColumnName (as_Column a)\<rparr>) (is_OnDuplicate stmt)\<rparr>\<rparr>)))"

text \<open>The table of a sharding value; \<open>None\<close> when it is no literal, which the source passes over.\<close>

definition value_table :: "Env \<Rightarrow> Rule \<Rightarrow> ExprNode \<Rightarrow> int option res" where
  "value_table env rule e =
     (case e of
        EValue d \<Rightarrow>
          andThen (wrap ''get value expr result failed'' (GetValueExprResult d)) (\<lambda>v.
            case v of
              None \<Rightarrow> Err (ErrMsg ''sharding value cannot be null'')
            | Some k \<Rightarrow> andThen (wrap ''find table index error'' (FindTableIndex env rule k)) (\<lambda>i. Ok (Some i)))
      | _ \<Rightarrow> Ok None)"

fun values_loop ::
  "(ExprNode list \<Rightarrow> int option res) \<Rightarrow> ExprNode list list \<Rightarrow> int list \<Rightarrow> (int \<times> ExprNode list list) list \<Rightarrow>
   (int list \<times> (int \<times> ExprNode list list) list) res" where
  "values_loop table_of [] indexes valueMap = Ok (indexes, valueMap)"
| "values_loop table_of (row # rows) indexes valueMap =
     andThen (table_of row) (\<lambda>t.
       case t of
         None \<Rightarrow> values_loop table_of rows indexes valueMap
       | Some i \<Rightarrow>
           values_loop table_of rows (if map_of valueMap i = None then indexes @ [i] else indexes)
             (AList.update i (values_at valueMap i @ [row]) valueMap))"

definition row_table :: "Env \<Rightarrow> Rule \<Rightarrow> int \<Rightarrow> ExprNode list \<Rightarrow> int option res" where
  "row_table env rule column row = andThen (at row column) (value_table env rule)"

definition handleInsertValues :: "Env \<Rightarrow> InsertPlan \<Rightarrow> InsertPlan res" where
  "handleInsertValues env p =
     (let stmt = ip_stmt p; info = ip_info p
      in if ip_isAssignmentMode p then
           andThen (at (is_Setlist stmt) (ip_shardingColumnIndex p)) (\<lambda>a.
             case as_Expr a of
               EValue d \<Rightarrow>
                 andThen (plan_rule p) (\<lambda>rule.
                 andThen (value_table env rule (as_Expr a)) (\<lambda>t.
                   Ok (p\<lparr>ip_info := info\<lparr>si_result := rr_Inter (si_result info) (case t of None \<Rightarrow> [] | Some i \<Rightarrow> [i])\<rparr>\<rparr>)))
             | _ \<Rightarrow> Ok p)
         else
           andThen (plan_rule p) (\<lambda>rule.
           andThen (values_loop (row_table env rule (ip_shardingColumnIndex p)) (is_Lists stmt) [] []) (\<lambda>(indexes, valueMap).
             let result = rr_Inter (si_result info) (sort indexes)
             in if rr_indexes result = [] then Err (ErrMsg ''batch insert has cross slice values or no route found'')
                else Ok (p\<lparr>ip_info := info\<lparr>si_result := result\<rparr>, ip_stmt := stmt\<lparr>is_ListsAssist := Some valueMap\<rparr>\<rparr>))))"

definition HandleInsertStmt :: "(nat \<Rightarrow> string res) \<Rightarrow> Env \<Rightarrow> InsertPlan \<Rightarrow> InsertPlan res" where
  "HandleInsertStmt answers env p =
     andThen (precheckInsertStmt p) (\<lambda>p.
     andThen (wrap ''handleInsertTableRefs error'' (handleInsertTableRefs p)) (\<lambda>(fastReturn, p).
       if fastReturn then Ok p
       else
         andThen (wrap ''handleInsertGlobalSequenceValue error'' (handleInsertGlobalSequenceValue answers p)) (\<lambda>p.
         andThen (wrap ''handleInsertColumnNames error'' (handleInsertColumnNames p)) (\<lambda>p.
         andThen (wrap ''handleInsertOnDuplicate error'' (handleInsertOnDuplicate p)) (\<lambda>p.
         andThen (wrap ''handleInsertValues error'' (handleInsertValues env p)) insert_sqls)))))"

section \<open>Sorting rows into tables\<close>

lemma values_loop_spec:
  assumes "values_loop f rows indexes m = Ok (indexes', m')" "distinct indexes" "set indexes = dom (map_of m)"
  shows "distinct indexes' \<and> set indexes' = set indexes \<union> {i. \<exists>row \<in> set rows. f row = Ok (Some i)} \<and>
    list_all (\<lambda>row. is_ok (f row)) rows \<and> (\<forall>i. values_at m' i = values_at m i @ filter (\<lambda>row. f row = Ok (Some i)) rows)"
  using assms
proof (induction rows arbitrary: indexes m)
  case (Cons row rows)
  let ?m = "\<lambda>i. AList.update i (values_at m i @ [row]) m"
  let ?is = "\<lambda>i. if map_of m i = None then indexes @ [i] else indexes"
  obtain t where t: "f row = Ok t" using Cons.prems(1) by auto
  show ?case
  proof (cases t)
    case None
    then show ?thesis using Cons t by auto
  next
    case (Some j)
    then have l: "values_loop f rows (?is j) (?m j) = Ok (indexes', m')" using Cons.prems(1) t by auto
    have new: "map_of m j = None \<longleftrightarrow> j \<notin> set indexes" using Cons.prems(3) by auto
    have d: "distinct (?is j)" using Cons.prems(2) new by simp
    have s: "set (?is j) = insert j (set indexes)" using new by auto
    have "set (?is j) = dom (map_of (?m j))" unfolding s using Cons.prems(3) by (auto simp: update_conv')
    note ih = Cons.IH [OF l d this]
    have v: "values_at (?m j) i = values_at m i @ (if i = j then [row] else [])" for i
      by (simp add: values_at_def update_conv')
    have "{i. \<exists>r \<in> set (row # rows). f r = Ok (Some i)} = insert j {i. \<exists>r \<in> set rows. f r = Ok (Some i)}" using t Some by auto
    then show ?thesis using ih t Some unfolding s v by auto
  qed
qed simp

text \<open>Rows sorted into distinct buckets are the rows that have one of the buckets.\<close>

lemma mset_buckets:
  assumes "distinct is"
  shows "mset (concat (map (\<lambda>i. filter (\<lambda>row. f row = Ok (Some i)) rows) is)) =
    mset (filter (\<lambda>row. \<exists>i \<in> set is. f row = Ok (Some i)) rows)"
  using assms
proof (induction "is")
  case (Cons j js)
  have "mset (filter (\<lambda>row. \<exists>i \<in> set (j # js). f row = Ok (Some i)) rows) =
    mset (filter (\<lambda>row. f row = Ok (Some j)) rows) + mset (filter (\<lambda>row. \<exists>i \<in> set js. f row = Ok (Some i)) rows)"
    using Cons.prems by (induction rows) auto
  with Cons show ?case by simp
qed simp

section \<open>The sharding column, the rows and their statements\<close>

lemma sharding_index_found:
  assumes "sharding_index key columns start \<noteq> start"
  shows "\<exists>c < length columns. sharding_index key columns start = int c \<and> ci_L (cn_Name (columns ! c)) = key"
  using assms
proof (induction columns rule: rev_induct)
  case (snoc x xs)
  have x: "sharding_index key (xs @ [x]) start = (if ci_L (cn_Name x) = key then int (length xs) else sharding_index key xs start)"
    by (simp add: sharding_index_def enumerate_append_eq)
  show ?case
  proof (cases "ci_L (cn_Name x) = key")
    case True
    then show ?thesis using x by (intro exI [of _ "length xs"]) simp
  next
    case False
    then obtain c where "c < length xs" "sharding_index key xs start = int c" "ci_L (cn_Name (xs ! c)) = key"
      using snoc x by auto
    then show ?thesis using False x by (intro exI [of _ c]) (simp add: nth_append)
  qed
qed (simp add: sharding_index_def)

text \<open>A row as given, or with a call of \<^verbatim>\<open>nextval\<close> replaced by a number.\<close>

definition row_filled :: "ExprNode list \<Rightarrow> ExprNode list \<Rightarrow> bool" where
  "row_filled given row \<longleftrightarrow>
     row = given \<or> (\<exists>k n. k < length given \<and> is_nextval (given ! k) \<and> row = given[k := EValue (DInt64 n False)])"

lemma seq_rows_filled:
  "seq_rows answers k qs rows = Ok (rows', qs') \<Longrightarrow> list_all2 row_filled rows rows'"
proof (induction rows arbitrary: qs rows')
  case (Cons row rows)
  then obtain v where v: "at row (int k) = Ok v" by auto
  note p = Cons.prems [unfolded seq_rows.simps v andThen.simps]
  show ?case
  proof (cases "is_nextval v")
    case True
    then obtain e qs1 rows1 where e: "next_id answers qs = Ok (e, qs1)" "seq_rows answers k qs1 rows = Ok (rows1, qs')"
      "rows' = row[k := e] # rows1"
      using p by auto
    obtain n where "e = EValue (DInt64 n False)" using e(1) by (auto simp: next_id_def split: prod.splits)
    then have "row_filled row (row[k := e])" using v True unfolding row_filled_def by (auto simp: at_eq_Ok)
    then show ?thesis using Cons.IH [OF e(2)] e(3) by simp
  next
    case False
    then obtain rows1 where e: "seq_rows answers k qs rows = Ok (rows1, qs')" "rows' = row # rows1" using p by auto
    then show ?thesis using Cons.IH [OF e(1)] by (simp add: row_filled_def)
  qed
qed simp

text \<open>Values that are printed without an error, and an insert of given rows.\<close>

definition prints :: "ExprNode \<Rightarrow> bool" where
  "prints e \<longleftrightarrow> (\<forall>rr. snd (Restore rr e) = Ok ())"

definition insert_for :: "InsertStmt \<Rightarrow> ExprNode list list \<Rightarrow> InsertStmt" where
  "insert_for stmt rows = stmt\<lparr>is_Lists := rows, is_ListsAssist := None\<rparr>"

definition table_rows :: "Env \<Rightarrow> Rule \<Rightarrow> nat \<Rightarrow> ExprNode list list \<Rightarrow> int \<Rightarrow> ExprNode list list" where
  "table_rows env rule c rows i = filter (\<lambda>row. row_table env rule (int c) row = Ok (Some i)) rows"

lemma wr_ok [simp]: "snd (wr s) = Ok ()"
  by (simp add: wr_def)

lemma also_wr_ok: "snd v = Ok () \<Longrightarrow> snd (also_wr v w) = snd w"
  by (cases v; cases w) simp

lemma outs_ok: "list_all (\<lambda>w. snd w = Ok ()) ws \<Longrightarrow> snd (outs ws) = Ok ()"
  by (induction ws) (simp_all add: also_wr_ok)

lemma sep_outs_ok: "list_all (\<lambda>w. snd w = Ok ()) ws \<Longrightarrow> snd (sep_outs sep ws) = Ok ()"
proof (induction sep ws rule: sep_outs.induct)
  case (3 sep w v ws)
  then have "snd (outs [w, wr sep, sep_outs sep (v # ws)]) = Ok ()" by (intro outs_ok) simp
  then show ?case by simp
qed simp_all

lemma rows_out_ok:
  assumes "list_all (list_all prints) rows"
  shows "snd (rows_out rr rows) = Ok ()"
proof -
  have "snd (outs [wr ''('', sep_outs '','' (map (Restore rr) row), wr '')'']) = Ok ()" if "row \<in> set rows" for row
  proof -
    have "list_all (\<lambda>w. snd w = Ok ()) (map (Restore rr) row)" using assms that by (auto simp: list_all_iff prints_def)
    then show ?thesis by (intro outs_ok) (simp add: sep_outs_ok)
  qed
  then have "list_all (\<lambda>w. snd w = Ok ()) (map (\<lambda>row. outs [wr ''('', sep_outs '','' (map (Restore rr) row), wr '')'']) rows)"
    by (simp add: list_all_iff del: outs.simps)
  then show ?thesis unfolding rows_out_def by (intro outs_ok) (simp add: sep_outs_ok)
qed

lemma insert_restore:
  assumes "is_ListsAssist n = Some m" "rr_GetCurrentTableIndex rr = Ok i" "values_at m i \<noteq> []" "list_all (list_all prints) (values_at m i)"
  shows "InsertStmt_Restore rr n = InsertStmt_Restore rr (insert_for n (values_at m i))"
proof -
  have "drop_error (InsertValuesExprDecorator_Restore rr m) = rows_out rr (values_at m i)"
    using assms(2) rows_out_ok [OF assms(4), of rr]
    by (cases "rows_out rr (values_at m i)") (simp add: InsertValuesExprDecorator_Restore_def at_table_def)
  then show ?thesis using assms(1,3) by (simp add: InsertStmt_Restore_def insert_for_def)
qed

lemma filled_prints:
  assumes "row_filled given row" "list_all prints given"
  shows "list_all prints row"
proof -
  have n: "prints (EValue (DInt64 n False))" for n by (simp add: prints_def)
  have "list_all prints (given[k := EValue (DInt64 n False)])" for k n
    using set_update_subset_insert [of given k "EValue (DInt64 n False)"] assms(2) n [of n] unfolding list_all_iff by blast
  then show ?thesis using assms by (auto simp: row_filled_def)
qed

section \<open>What the handlers keep\<close>

lemma gen_loop_indexes: "gen_loop restore router rr ret = Ok (ret', rr') \<Longrightarrow> rr_indexes rr' = rr_indexes rr"
proof (induction restore router rr ret rule: gen_loop.induct)
  case (1 restore router rr ret)
  show ?case
  proof (cases "rr_HasNext rr")
    case True
    then obtain sql index result' rule sn dn where q: "restore rr = Ok sql" "rr_Next rr = Ok (index, result')"
      "GetShardRule router (rr_db result') (rr_table result') = Some rule" "sql_target rule index = Ok (sn, dn)"
      "gen_loop restore router result' (add_sql ret sn dn sql) = Ok (ret', rr')"
      using "1.prems" by (subst (asm) gen_loop.simps) (auto split: option.splits)
    have "rr_indexes result' = rr_indexes rr" using q(2) by (auto simp: rr_Next_def)
    with "1.IH" [OF True q(1,2) refl q(3,4) refl q(5)] show ?thesis by simp
  next
    case False
    then show ?thesis using "1.prems" by (subst (asm) gen_loop.simps) auto
  qed
qed

lemma insert_sqls_keeps:
  assumes "insert_sqls p = Ok p'"
  shows "ip_stmt p' = ip_stmt p" "ip_shardingColumnIndex p' = ip_shardingColumnIndex p"
    "rr_indexes (si_result (ip_info p')) = rr_indexes (si_result (ip_info p))" "plan_rule p' = plan_rule p"
  using assms gen_loop_indexes
  by (fastforce simp: insert_sqls_def generateShardingSQLs_def plan_rule_def rr_Reset_def)+

lemma sequence_keeps:
  assumes "handleInsertGlobalSequenceValue answers p = Ok p'"
  shows "ip_info p' = ip_info p" "ip_table p' = ip_table p" "ip_isAssignmentMode p' = ip_isAssignmentMode p"
    "ip_shardingColumnIndex p' = ip_shardingColumnIndex p" "is_Columns (ip_stmt p') = is_Columns (ip_stmt p)"
    "list_all2 row_filled (is_Lists (ip_stmt p)) (is_Lists (ip_stmt p'))"
  using assms seq_rows_filled [of answers _ _ "is_Lists (ip_stmt p)"] list.rel_refl [of row_filled]
  by (auto simp: handleInsertGlobalSequenceValue_def put_seq_def row_filled_def Let_def split: option.splits if_splits)

lemma columns_keeps:
  assumes "handleInsertColumnNames p = Ok p'"
  shows "ip_info p' = ip_info p" "ip_table p' = ip_table p" "ip_isAssignmentMode p' = ip_isAssignmentMode p"
    "is_Lists (ip_stmt p') = is_Lists (ip_stmt p)"
  using assms by (auto simp: handleInsertColumnNames_def Let_def split: if_splits)

lemma columns_found:
  assumes "handleInsertColumnNames p = Ok p'" "\<not> ip_isAssignmentMode p" "plan_rule p = Ok rule" "ip_shardingColumnIndex p = - 1"
  shows "\<exists>c < length (is_Columns (ip_stmt p)). ip_shardingColumnIndex p' = int c \<and>
      ci_L (cn_Name (is_Columns (ip_stmt p) ! c)) = GetShardingColumn rule"
    "is_Columns (ip_stmt p') = map removeSchemaAndTableInfoInColumnName (is_Columns (ip_stmt p))"
  using assms sharding_index_found [of "GetShardingColumn rule" "is_Columns (ip_stmt p)" "- 1"]
  by (auto simp: handleInsertColumnNames_def Let_def split: if_splits)

lemma on_duplicate_keeps:
  assumes "handleInsertOnDuplicate p = Ok p'"
  shows "ip_info p' = ip_info p" "ip_table p' = ip_table p" "ip_isAssignmentMode p' = ip_isAssignmentMode p"
    "ip_shardingColumnIndex p' = ip_shardingColumnIndex p" "is_Lists (ip_stmt p') = is_Lists (ip_stmt p)"
    "is_Columns (ip_stmt p') = is_Columns (ip_stmt p)"
  using assms by (auto simp: handleInsertOnDuplicate_def Let_def split: if_splits)

lemma record_first_table:
  assumes "StmtInfo_RecordShardTable (NewStmtInfo db sql rt) d t = Ok (rule, info)" "GetType rule \<noteq> ShardGlobal"
  shows "si_tableRules info = [(t, rule)]" "rr_indexes (si_result info) = GetSubTableIndexes rule"
    "rr_currentIndex (si_result info) = 0" "si_router info = rt"
  using assms
  by (auto simp: StmtInfo_RecordShardTable_def getShardRule_def checkStmtRouteResult_def NewStmtInfo_def NewRouteResult_def Let_def
      split: option.splits)

lemma table_refs_route:
  assumes "handleInsertTableRefs p = Ok (False, p')" "ip_info p = NewStmtInfo db sql rt"
  shows "\<exists>rule. plan_rule p' = Ok rule \<and> rr_indexes (si_result (ip_info p')) = GetSubTableIndexes rule \<and>
    rr_currentIndex (si_result (ip_info p')) = 0 \<and> si_router (ip_info p') = rt \<and>
    ip_isAssignmentMode p' = ip_isAssignmentMode p \<and> ip_shardingColumnIndex p' = ip_shardingColumnIndex p \<and>
    is_Columns (ip_stmt p') = is_Columns (ip_stmt p) \<and> is_Lists (ip_stmt p') = is_Lists (ip_stmt p)"
proof -
  obtain left right tp on us natural straight where j: "is_Table (ip_stmt p) = RJoin left right tp on us natural straight"
    using assms(1) by (cases "is_Table (ip_stmt p)") (auto simp: handleInsertTableRefs_def)
  note u = assms(1) [unfolded handleInsertTableRefs_def j ResultSetNode.case]
  obtain tn asName where l: "left = Some (RTableSource (RTableName tn) asName)"
    using u by (cases left) (auto split: if_splits ResultSetNode.splits)
  obtain rule info where r: "StmtInfo_RecordShardTable (NewStmtInfo db sql rt) (ci_O (tn_Schema tn)) (ci_L (tn_Name tn)) = Ok (rule, info)"
    "GetType rule \<noteq> ShardGlobal" "ip_info p' = info" "ip_table p' = ci_L (tn_Name tn)"
    "ip_isAssignmentMode p' = ip_isAssignmentMode p" "is_Lists (ip_stmt p') = is_Lists (ip_stmt p)"
    "ip_shardingColumnIndex p' = ip_shardingColumnIndex p" "is_Columns (ip_stmt p') = is_Columns (ip_stmt p)"
    using u assms(2) unfolding l
    by (auto simp: NeedCreateTableNameDecoratorWithoutAlias_def getTableInfoFromTableName_def CreateTableNameDecorator_def Let_def
        split: if_splits)
  then show ?thesis using record_first_table [OF r(1,2)] by (simp add: plan_rule_def)
qed

lemma insert_values_route:
  assumes "handleInsertValues env p = Ok p'" "\<not> ip_isAssignmentMode p" "plan_rule p = Ok rule"
    "ascending (rr_indexes (si_result (ip_info p)))"
  shows "\<exists>m. is_ListsAssist (ip_stmt p') = Some m \<and> is_Lists (ip_stmt p') = is_Lists (ip_stmt p) \<and>
    is_Columns (ip_stmt p') = is_Columns (ip_stmt p) \<and> si_router (ip_info p') = si_router (ip_info p) \<and>
    rr_currentIndex (si_result (ip_info p')) = rr_currentIndex (si_result (ip_info p)) \<and>
    (\<forall>i. values_at m i = filter (\<lambda>row. row_table env rule (ip_shardingColumnIndex p) row = Ok (Some i)) (is_Lists (ip_stmt p))) \<and>
    list_all (\<lambda>row. is_ok (row_table env rule (ip_shardingColumnIndex p) row)) (is_Lists (ip_stmt p)) \<and>
    ascending (rr_indexes (si_result (ip_info p'))) \<and>
    set (rr_indexes (si_result (ip_info p'))) = {i \<in> set (rr_indexes (si_result (ip_info p))).
       \<exists>row \<in> set (is_Lists (ip_stmt p)). row_table env rule (ip_shardingColumnIndex p) row = Ok (Some i)}"
proof -
  let ?f = "row_table env rule (ip_shardingColumnIndex p)" and ?rows = "is_Lists (ip_stmt p)"
  obtain indexes m where l: "values_loop ?f ?rows [] [] = Ok (indexes, m)"
    "p' = p\<lparr>ip_info := (ip_info p)\<lparr>si_result := rr_Inter (si_result (ip_info p)) (sort indexes)\<rparr>,
            ip_stmt := (ip_stmt p)\<lparr>is_ListsAssist := Some m\<rparr>\<rparr>"
    using assms(1-3) by (auto simp: handleInsertValues_def Let_def split: if_splits)
  note v = values_loop_spec [OF l(1), simplified]
  have a: "ascending (sort indexes)" using v by (simp add: strict_sorted_iff)
  note i = set_interList [OF assms(4) a] ascending_interList [OF assms(4) a]
  show ?thesis using v i l(2) assms(3) by (auto simp: rr_Inter_def plan_rule_def values_at_def)
qed

lemma global_insert_rule:
  assumes "handleInsertTableRefs p = Ok (True, p')" "si_tableRules (ip_info p) = []"
  shows "plan_rule p' = Panic PNil"
proof -
  obtain left right tp on us natural straight where j: "is_Table (ip_stmt p) = RJoin left right tp on us natural straight"
    using assms(1) by (cases "is_Table (ip_stmt p)") (auto simp: handleInsertTableRefs_def)
  note u = assms(1) [unfolded handleInsertTableRefs_def j ResultSetNode.case]
  obtain tn asName where l: "left = Some (RTableSource (RTableName tn) asName)"
    using u by (cases left) (auto split: if_splits ResultSetNode.splits)
  obtain rule info p1 where r: "StmtInfo_RecordShardTable (ip_info p) (ci_O (tn_Schema tn)) (ci_L (tn_Name tn)) = Ok (rule, info)"
    "GetType rule = ShardGlobal" "insert_sqls p1 = Ok p'" "si_tableRules (ip_info p1) = si_tableRules info"
    using u unfolding l
    by (auto simp: NeedCreateTableNameDecoratorWithoutAlias_def getTableInfoFromTableName_def CreateTableNameDecorator_def Let_def
        split: if_splits)
  have "si_tableRules info = []" using r(1,2) assms(2)
    by (auto simp: StmtInfo_RecordShardTable_def getShardRule_def checkStmtRouteResult_def split: option.splits)
  then show ?thesis using insert_sqls_keeps(4) [OF r(3)] r(4) by (simp add: plan_rule_def)
qed

lemma insert_values_rule:
  "handleInsertValues env p = Ok p' \<Longrightarrow> \<not> ip_isAssignmentMode p \<Longrightarrow> plan_rule p' = plan_rule p"
  by (auto simp: handleInsertValues_def plan_rule_def Let_def split: if_splits option.splits)

lemma insert_stages:
  assumes "HandleInsertStmt answers env (NewInsertPlan db sql rt seq stmt) = Ok p" "is_Setlist stmt = []" "plan_rule p = Ok rule"
  obtains c p5 p6 where "plan_rule p5 = Ok rule" "rr_indexes (si_result (ip_info p5)) = GetSubTableIndexes rule"
    "rr_currentIndex (si_result (ip_info p5)) = 0" "si_router (ip_info p5) = rt" "\<not> ip_isAssignmentMode p5"
    "handleInsertValues env p5 = Ok p6" "insert_sqls p6 = Ok p"
    "c < length (is_Columns stmt)" "ip_shardingColumnIndex p5 = int c" "ci_L (cn_Name (is_Columns stmt ! c)) = GetShardingColumn rule"
    "is_Columns (ip_stmt p5) = map removeSchemaAndTableInfoInColumnName (is_Columns stmt)"
    "list_all2 row_filled (is_Lists stmt) (is_Lists (ip_stmt p5))"
proof -
  obtain p1 fast p2 where h1: "precheckInsertStmt (NewInsertPlan db sql rt seq stmt) = Ok p1" "handleInsertTableRefs p1 = Ok (fast, p2)"
    using assms(1) by (auto simp: HandleInsertStmt_def)
  have p1: "p1 = NewInsertPlan db sql rt seq stmt"
    using h1(1) assms(2) by (auto simp: precheckInsertStmt_def NewInsertPlan_def Let_def split: if_splits)
  note rest = assms(1) [unfolded HandleInsertStmt_def h1(1) andThen.simps, unfolded h1(2) wrap.simps andThen.simps prod.case]
  have slow: "\<not> fast"
  proof
    assume f: "fast"
    then have "p = p2" using rest by simp
    then show False using global_insert_rule [of p1 p2] h1(2) f p1 assms(3) by (simp add: NewInsertPlan_def NewStmtInfo_def)
  qed
  obtain p3 p4 p5 p6 where h: "handleInsertGlobalSequenceValue answers p2 = Ok p3" "handleInsertColumnNames p3 = Ok p4"
    "handleInsertOnDuplicate p4 = Ok p5" "handleInsertValues env p5 = Ok p6" "insert_sqls p6 = Ok p"
    using rest slow by auto
  note k = sequence_keeps [OF h(1)] columns_keeps [OF h(2)] on_duplicate_keeps [OF h(3)]
  obtain rule' where r: "plan_rule p2 = Ok rule'" "rr_indexes (si_result (ip_info p2)) = GetSubTableIndexes rule'"
    "rr_currentIndex (si_result (ip_info p2)) = 0" "si_router (ip_info p2) = rt" "\<not> ip_isAssignmentMode p2"
    "ip_shardingColumnIndex p2 = - 1" "is_Columns (ip_stmt p2) = is_Columns stmt" "is_Lists (ip_stmt p2) = is_Lists stmt"
    using table_refs_route [of p1 p2 db sql rt] h1(2) slow p1 by (auto simp: NewInsertPlan_def)
  have r5: "plan_rule p3 = Ok rule'" "plan_rule p5 = Ok rule'" using r(1) k by (simp_all add: plan_rule_def)
  have "rule' = rule" using r5(2) assms(3) insert_values_rule [OF h(4)] r(5) k insert_sqls_keeps(4) [OF h(5)] by simp
  with columns_found [OF h(2) _ r5(1)] r r5 k h(4,5) show ?thesis by (auto intro: that)
qed

text \<open>The statement sent to a table is an insert of its rows.\<close>

lemma insert_sent:
  assumes "insert_sqls p = Ok p'" "si_router (ip_info p) = rt" "rr_currentIndex (si_result (ip_info p)) = 0"
    "is_ListsAssist (ip_stmt p') = Some m" "i \<in> set (rr_indexes (si_result (ip_info p')))"
    "values_at m i \<noteq> []" "list_all (list_all prints) (values_at m i)"
  shows "sent (\<lambda>rr. out_res (InsertStmt_Restore rr (insert_for (ip_stmt p') (values_at m i))))
    (si_result (ip_info p')) rt (ip_sqls p') i"
proof -
  let ?rr = "si_result (ip_info p)"
  obtain rr where g: "generateShardingSQLs (\<lambda>rr. out_res (InsertStmt_Restore rr (ip_stmt p'))) ?rr rt = Ok (ip_sqls p', rr)"
    "si_result (ip_info p') = rr"
    using assms(1,2) insert_sqls_keeps(1) [OF assms(1)] by (auto simp: insert_sqls_def)
  note s = generated_sent [OF g(1) assms(3), of i]
  have "printed (\<lambda>rr. out_res (InsertStmt_Restore rr (ip_stmt p'))) rr k =
      printed (\<lambda>rr. out_res (InsertStmt_Restore rr (insert_for (ip_stmt p') (values_at m i)))) rr k"
    if "k < length (rr_indexes rr)" "rr_indexes rr ! k = i" for k
  proof -
    have "rr_GetCurrentTableIndex (rr\<lparr>rr_currentIndex := int k\<rparr>) = Ok i" using that by (simp add: rr_GetCurrentTableIndex_def)
    from insert_restore [OF assms(4) this assms(6,7)] show ?thesis by (simp add: printed_def)
  qed
  then show ?thesis using s assms(5) g(2) unfolding sent_def by metis
qed

lemma rows_partition:
  assumes "ascending indexes" "set indexes = {i \<in> I. table_rows env rule c rows i \<noteq> []}"
  shows "mset (concat (map (table_rows env rule c rows) indexes)) =
    mset (filter (\<lambda>row. \<exists>i \<in> I. row_table env rule (int c) row = Ok (Some i)) rows)"
proof -
  let ?f = "row_table env rule (int c)"
  have "mset (concat (map (\<lambda>i. filter (\<lambda>row. ?f row = Ok (Some i)) rows) indexes)) =
      mset (filter (\<lambda>row. \<exists>i \<in> set indexes. ?f row = Ok (Some i)) rows)"
    using assms(1) by (intro mset_buckets) (simp add: strict_sorted_iff)
  moreover have "filter (\<lambda>row. \<exists>i \<in> set indexes. ?f row = Ok (Some i)) rows = filter (\<lambda>row. \<exists>i \<in> I. ?f row = Ok (Some i)) rows"
    unfolding assms(2) by (intro filter_cong refl) (auto simp: table_rows_def filter_empty_conv)
  ultimately show ?thesis unfolding table_rows_def by simp
qed


definition example_insert :: "ExprNode list list \<Rightarrow> InsertStmt" where
  "example_insert rows =
     (let name = (\<lambda>c. \<lparr>cn_Schema = NewCIStr [], cn_Table = NewCIStr [], cn_Name = NewCIStr c\<rparr>);
          tbl = RTableName \<lparr>tn_Schema = NewCIStr [], tn_Name = NewCIStr ''tbl'', tn_IndexHints = [], tn_PartitionNames = []\<rparr>
      in \<lparr>is_IsReplace = False, is_IgnoreErr = False,
          is_Table = RJoin (Some (RTableSource tbl (NewCIStr []))) None CrossJoin None [] False False,
          is_Columns = [name ''id'', name ''v''], is_Lists = rows, is_Setlist = [], is_Priority = NoPriority,
          is_OnDuplicate = [], is_Select = None, is_ListsAssist = None\<rparr>)"

definition example_insert_plan :: "Namespace \<Rightarrow> InsertStmt \<Rightarrow> InsertPlan res" where
  "example_insert_plan ns stmt =
     andThen (NewRouter ns) (\<lambda>rt.
       HandleInsertStmt (\<lambda>_. Err (ErrMsg [])) list_treemap (NewInsertPlan ''db'' [] rt NewSequenceManager stmt))"

definition example_row :: "int \<Rightarrow> string \<Rightarrow> ExprNode list" where
  "example_row k v = [EValue (DInt64 k False), EValue (DString v [])]"

lemma filled_literals: "list_all (\<lambda>e. \<not> is_nextval e) given \<Longrightarrow> row_filled given row \<longleftrightarrow> row = given"
  by (auto simp: row_filled_def list_all_length)


section \<open>Rows that go astray\<close>

definition plus_one :: ExprNode where
  "plus_one = EBinary OpPlus (EValue (DInt64 1 False)) (EValue (DInt64 1 False))"

text \<open>A row whose sharding value is an expression is dropped from a statement with other rows.\<close>

lemma insert_expression_row_lost:
  "(case example_insert_plan example_ns (example_insert [example_row 1 ''a'', [plus_one, EValue DNull]]) of
      Ok p \<Rightarrow> sql_at (ip_sqls p) ''slice-0'' ''db_1'' = [''INSERT INTO `tbl` (`id`,`v`) VALUES (1,'' @ [CHR 39] @ ''a'' @ [CHR 39] @ '')''] \<and>
              rr_indexes (si_result (ip_info p)) = [1]
    | _ \<Rightarrow> False)"
  by code_simp

text \<open>With \<^verbatim>\<open>SET\<close> it is inserted into every table instead.\<close>

lemma insert_expression_broadcast:
  "(case example_insert_plan example_ns ((example_insert [])\<lparr>is_Columns := [],
           is_Setlist := [\<lparr>as_Column = \<lparr>cn_Schema = NewCIStr [], cn_Table = NewCIStr [], cn_Name = NewCIStr ''id''\<rparr>, as_Expr = plus_one\<rparr>]\<rparr>) of
      Ok p \<Rightarrow> rr_indexes (si_result (ip_info p)) = [0, 1, 2, 3] | _ \<Rightarrow> False)"
  by code_simp

text \<open>A date for which the rule has no table is dropped as well.\<close>

lemma insert_date_row_lost:
  "(case example_insert_plan (example_ns\<lparr>ns_ShardRules := [example_date_cfg]\<rparr>)
           (example_insert [[EValue (DString ''2016-01-05'' []), EValue DNull], [EValue (DString ''2020-01-01'' []), EValue DNull]]) of
      Ok p \<Rightarrow> rr_indexes (si_result (ip_info p)) = [201601] | _ \<Rightarrow> False)"
  by code_simp

text \<open>Only the first row is compared with the columns: a shorter one panics.\<close>

lemma insert_short_row_panics:
  "example_insert_plan example_ns (example_insert [example_row 1 ''a'', []]) = Panic PIndex"
proof -
  have "case example_insert_plan example_ns (example_insert [example_row 1 ''a'', []]) of Panic q \<Rightarrow> q = PIndex | _ \<Rightarrow> False"
    by code_simp
  then show ?thesis by (auto split: res.splits)
qed

end
