(* ===== verification/Plan_Select.thy ===== *)
theory Plan_Select
  imports Plan_Route Sql_Stmt Rule_Props
begin

text \<open>
  \<^verbatim>\<open>src/proxy/plan/plan_select.go\<close>, \<^verbatim>\<open>plan_select_subquery.go\<close> and \<^verbatim>\<open>decorator_limit.go\<close>: the plan of
  a \<^verbatim>\<open>SELECT\<close>. The tables of the \<^verbatim>\<open>FROM\<close> clause are recorded and decorated, the conditions restrict the
  route, columns needed for grouping and ordering are added to the fields, and the limit is widened so
  that every table returns enough rows.
\<close>

section \<open>Subqueries in FROM\<close>

text \<open>\<^verbatim>\<open>recover()\<close> in a deferred function turns a panic into an error.\<close>

fun recovered :: "string \<Rightarrow> 'a res \<Rightarrow> 'a res" where
  "recovered msg (Panic q) = Err (ErrMsg msg)"
| "recovered msg r = r"

text \<open>
  \<^verbatim>\<open>SubqueryColumnNameRewriteVisitor\<close>: the rule of the table that a column names is looked up in the
  router, recorded, and the column decorated. What is decorated depends only on the router and the
  database of the statement; what is recorded, on the columns in the order of the visit.
\<close>

definition subquery_column :: "TableAliasStmtInfo \<Rightarrow> ColumnName \<Rightarrow> ExprNode" where
  "subquery_column p c =
     (case getColumnInfoFromColumnName c of (db, table, _) \<Rightarrow>
        case getShardRule p db table of
          Ok (rule, _) \<Rightarrow> if GetType rule = ShardGlobal then EColumn c else EColumnDec c rule False
        | _ \<Rightarrow> EColumn c)"

definition record_column :: "TableAliasStmtInfo \<Rightarrow> ColumnName \<Rightarrow> TableAliasStmtInfo" where
  "record_column p c =
     (case getColumnInfoFromColumnName c of (db, table, _) \<Rightarrow>
        case getShardRule p db table of Ok (_, p') \<Rightarrow> p' | _ \<Rightarrow> p)"

fun subquery_visit :: "TableAliasStmtInfo \<Rightarrow> ExprNode \<Rightarrow> ExprNode" where
  "subquery_visit p (EColumn c) = subquery_column p c"
| "subquery_visit p (EFuncCall f es) = EFuncCall f (map (subquery_visit p) es)"
| "subquery_visit p (EAggregate f es b) = EAggregate f (map (subquery_visit p) es) b"
| "subquery_visit p (EBinary op l r) = EBinary op (subquery_visit p l) (subquery_visit p r)"
| "subquery_visit p (EUnary op e) = EUnary op (subquery_visit p e)"
| "subquery_visit p (EPatternIn e es isNot sel) =
     EPatternIn (subquery_visit p e) (map (subquery_visit p) es) isNot (map_option (subquery_visit p) sel)"
| "subquery_visit p (EBetween e l r isNot) = EBetween (subquery_visit p e) (subquery_visit p l) (subquery_visit p r) isNot"
| "subquery_visit p (EIsNull e isNot) = EIsNull (subquery_visit p e) isNot"
| "subquery_visit p (EParen e) = EParen (subquery_visit p e)"
| "subquery_visit p (EOther ps es) = EOther ps (map (subquery_visit p) es)"
| "subquery_visit p e = e"

fun expr_columns :: "ExprNode \<Rightarrow> ColumnName list" where
  "expr_columns (EColumn c) = [c]"
| "expr_columns (EFuncCall f es) = concat (map expr_columns es)"
| "expr_columns (EAggregate f es b) = concat (map expr_columns es)"
| "expr_columns (EBinary op l r) = expr_columns l @ expr_columns r"
| "expr_columns (EUnary op e) = expr_columns e"
| "expr_columns (EPatternIn e es isNot sel) =
     expr_columns e @ concat (map expr_columns es) @ (case map_option expr_columns sel of None \<Rightarrow> [] | Some cs \<Rightarrow> cs)"
| "expr_columns (EBetween e l r isNot) = expr_columns e @ expr_columns l @ expr_columns r"
| "expr_columns (EIsNull e isNot) = expr_columns e"
| "expr_columns (EParen e) = expr_columns e"
| "expr_columns (EOther ps es) = concat (map expr_columns es)"
| "expr_columns _ = []"

definition record_columns :: "TableAliasStmtInfo \<Rightarrow> ExprNode list \<Rightarrow> TableAliasStmtInfo" where
  "record_columns p es = foldl record_column p (concat (map expr_columns es))"

definition precheckJoinClause :: "ColumnName list \<Rightarrow> unit res" where
  "precheckJoinClause us =
     (if list_ex (\<lambda>c. ci_O (cn_Schema c) \<noteq> [] \<or> ci_O (cn_Table c) \<noteq> []) us
      then Err (ErrMsg ''JOIN does not support USING column with schema or table'') else Ok ())"

definition rewriteTableNameInTableSource ::
  "TableAliasStmtInfo \<Rightarrow> TableName \<Rightarrow> string \<Rightarrow> (ResultSetNode \<times> TableAliasStmtInfo) res" where
  "rewriteTableNameInTableSource p tableName alias =
     andThen (wrap ''check NeedCreateTableNameDecorator error'' (NeedCreateTableNameDecorator p tableName alias)) (\<lambda>(rule, p).
     andThen (wrap ''create TableNameDecorator error'' (CreateTableNameDecorator tableName rule)) (\<lambda>(n, rule).
       Ok (RTableNameDec n rule, p)))"

text \<open>The alias of a table in a subquery is not recorded.\<close>

definition rewriteSubqueryTableSource ::
  "TableAliasStmtInfo \<Rightarrow> ResultSetNode \<Rightarrow> CIStr \<Rightarrow> (ResultSetNode \<times> TableAliasStmtInfo) res" where
  "rewriteSubqueryTableSource p source asName =
     (case source of
        RTableName n \<Rightarrow>
          andThen (rewriteTableNameInTableSource p n []) (\<lambda>(source, p). Ok (RTableSource source asName, p))
      | RSelect _ \<Rightarrow> Err (ErrMsg ''cannot handle subquery in subquery'')
      | _ \<Rightarrow> Err (ErrMsg ''field Source cannot handle''))"

text \<open>The right side of a join and its condition, after the left side; \<open>on_cond\<close> handles the condition.\<close>

definition join_rest ::
  "(TableAliasStmtInfo \<Rightarrow> ResultSetNode \<Rightarrow> CIStr \<Rightarrow> (ResultSetNode \<times> TableAliasStmtInfo) res) \<Rightarrow>
   (TableAliasStmtInfo \<Rightarrow> ExprNode \<Rightarrow> (ExprNode \<times> TableAliasStmtInfo) res) \<Rightarrow>
   TableAliasStmtInfo \<Rightarrow> ResultSetNode option \<Rightarrow> ExprNode option \<Rightarrow>
   (ResultSetNode option \<times> ExprNode option \<times> TableAliasStmtInfo) res" where
  "join_rest source_of on_cond p right on =
     andThen
       (case right of
          None \<Rightarrow> Ok (None, p)
        | Some (RTableSource source asName) \<Rightarrow>
            andThen (wrap ''rewrite right TableSource error'' (source_of p source asName)) (\<lambda>(r, p). Ok (Some r, p))
        | _ \<Rightarrow> Err (ErrMsg ''right is not TableSource'')) (\<lambda>(right, p).
     andThen
       (case on of
          None \<Rightarrow> Ok (None, p)
        | Some e \<Rightarrow> andThen (wrap ''rewrite on condition error'' (on_cond p e)) (\<lambda>(e, p). Ok (Some e, p))) (\<lambda>(on, p).
       Ok (right, on, p)))"

definition subquery_on :: "TableAliasStmtInfo \<Rightarrow> ExprNode \<Rightarrow> (ExprNode \<times> TableAliasStmtInfo) res" where
  "subquery_on p e = Ok (subquery_visit p e, record_columns p [e])"

fun handleSubqueryJoin :: "TableAliasStmtInfo \<Rightarrow> ResultSetNode \<Rightarrow> (ResultSetNode \<times> TableAliasStmtInfo) res" where
  "handleSubqueryJoin p (RJoin left right tp on us natural straight) =
     andThen (wrap ''precheck Join error'' (precheckJoinClause us)) (\<lambda>_.
     andThen
       (case left of
          None \<Rightarrow> Ok (None, p)
        | Some l \<Rightarrow>
            (case l of
               RTableSource source asName \<Rightarrow>
                 andThen (wrap ''rewrite left TableSource error'' (rewriteSubqueryTableSource p source asName)) (\<lambda>(l, p). Ok (Some l, p))
             | RJoin _ _ _ _ _ _ _ \<Rightarrow>
                 andThen (wrap ''handle nested left Join error'' (handleSubqueryJoin p l)) (\<lambda>(l, p). Ok (Some l, p))
             | _ \<Rightarrow> Err (ErrMsg ''invalid left Join type''))) (\<lambda>(left, p).
     andThen (join_rest rewriteSubqueryTableSource subquery_on p right on) (\<lambda>(right, on, p).
       Ok (RJoin left right tp on us natural straight, p))))"
| "handleSubqueryJoin p _ = Panic PNil"

definition handleSubqueryTableRefs ::
  "TableAliasStmtInfo \<Rightarrow> ResultSetNode option \<Rightarrow> (ResultSetNode option \<times> TableAliasStmtInfo) res" where
  "handleSubqueryTableRefs p from =
     (case from of
        None \<Rightarrow> Ok (None, p)
      | Some join \<Rightarrow>
          andThen (wrap ''handleSubqueryTableRefs error'' (handleSubqueryJoin p join)) (\<lambda>(join, p). Ok (Some join, p)))"

definition visit_fields :: "(ExprNode \<Rightarrow> ExprNode) \<Rightarrow> SelectField list \<Rightarrow> SelectField list" where
  "visit_fields f = map (\<lambda>x. x\<lparr>sf_Expr := map_option f (sf_Expr x)\<rparr>)"

definition visit_items :: "(ExprNode \<Rightarrow> ExprNode) \<Rightarrow> ByItem list \<Rightarrow> ByItem list" where
  "visit_items f = map (\<lambda>x. x\<lparr>bi_Expr := f (bi_Expr x)\<rparr>)"

fun option_list :: "'a option \<Rightarrow> 'a list" where
  "option_list None = []"
| "option_list (Some x) = [x]"

text \<open>A condition that is a single column stays as it is: the node returned for the root is dropped.\<close>

definition handleSubquerySelectStmt :: "TableAliasStmtInfo \<Rightarrow> SelectStmt \<Rightarrow> (SelectStmt \<times> TableAliasStmtInfo) res" where
  "handleSubquerySelectStmt p stmt =
     (case stmt of
        SelectStmt priority cache straight hints dist from wher flds groupBy having windows orderBy limit lock \<Rightarrow>
          recovered ''handleSubqueryExpr panic''
            (andThen (wrap ''handle From error'' (handleSubqueryTableRefs p from)) (\<lambda>(from, p).
              let f = subquery_visit p;
                  wher' = map_option (\<lambda>e. case e of EColumn c \<Rightarrow> e | _ \<Rightarrow> f e) wher;
                  p' = record_columns p (option_list wher @ List.map_filter sf_Expr (concat (option_list flds))
                         @ map bi_Expr (concat (option_list groupBy)) @ option_list having @ map bi_Expr (concat (option_list orderBy)))
              in Ok (SelectStmt priority cache straight hints dist from wher' (map_option (visit_fields f) flds)
                       (map_option (visit_items f) groupBy) (map_option f having) windows
                       (map_option (visit_items f) orderBy) limit lock, p'))))"

section \<open>Joins\<close>

definition rewriteTableSource ::
  "pick \<Rightarrow> TableAliasStmtInfo \<Rightarrow> ResultSetNode \<Rightarrow> CIStr \<Rightarrow> (ResultSetNode \<times> TableAliasStmtInfo) res" where
  "rewriteTableSource pick p source asName =
     (case source of
        RTableName n \<Rightarrow>
          andThen (rewriteTableNameInTableSource p n (ci_L asName)) (\<lambda>(source, p). Ok (RTableSource source asName, p))
      | RSelect ss \<Rightarrow>
          andThen (wrap ''handleSubquerySelectStmt error'' (handleSubquerySelectStmt p ss)) (\<lambda>(ss, p).
            if ci_L asName \<noteq> []
            then andThen (wrap ''record subquery alias error'' (RecordSubqueryTableAlias pick p (ci_L asName))) (\<lambda>(_, p).
                   Ok (RTableSource (RSelect ss) asName, p))
            else Ok (RTableSource (RSelect ss) asName, p))
      | _ \<Rightarrow> Err (ErrMsg ''field Source cannot handle''))"

definition rewriteOnCondition :: "Env \<Rightarrow> TableAliasStmtInfo \<Rightarrow> ExprNode \<Rightarrow> (ExprNode \<times> TableAliasStmtInfo) res" where
  "rewriteOnCondition env p e = wrap ''rewrite Expr in OnCondition error'' (handle_condition env p e)"

fun handleJoin :: "Env \<Rightarrow> pick \<Rightarrow> TableAliasStmtInfo \<Rightarrow> ResultSetNode \<Rightarrow> (ResultSetNode \<times> TableAliasStmtInfo) res" where
  "handleJoin env pick p (RJoin left right tp on us natural straight) =
     andThen (wrap ''precheck Join error'' (precheckJoinClause us)) (\<lambda>_.
     andThen
       (case left of
          None \<Rightarrow> Ok (None, p)
        | Some l \<Rightarrow>
            (case l of
               RTableSource source asName \<Rightarrow>
                 andThen (wrap ''rewrite left TableSource error'' (rewriteTableSource pick p source asName)) (\<lambda>(l, p). Ok (Some l, p))
             | RJoin _ _ _ _ _ _ _ \<Rightarrow>
                 andThen (wrap ''handle nested left Join error'' (handleJoin env pick p l)) (\<lambda>(l, p). Ok (Some l, p))
             | _ \<Rightarrow> Err (ErrMsg ''invalid left Join type''))) (\<lambda>(left, p).
     andThen (join_rest (rewriteTableSource pick) (rewriteOnCondition env) p right on) (\<lambda>(right, on, p).
       Ok (RJoin left right tp on us natural straight, p))))"
| "handleJoin env pick p _ = Panic PNil"

definition handleTableRefs ::
  "Env \<Rightarrow> pick \<Rightarrow> TableAliasStmtInfo \<Rightarrow> ResultSetNode option \<Rightarrow> (ResultSetNode option \<times> TableAliasStmtInfo) res" where
  "handleTableRefs env pick p from =
     (case from of
        None \<Rightarrow> Ok (None, p)
      | Some join \<Rightarrow> andThen (handleJoin env pick p join) (\<lambda>(join, p). Ok (Some join, p)))"

section \<open>The plan\<close>

text \<open>A merger is the kind of its aggregate function and the index of its column.\<close>

datatype AggregateFuncMerger =
    AggregateFuncCountMerger int
  | AggregateFuncSumMerger int
  | AggregateFuncMaxMerger int
  | AggregateFuncMinMerger int

definition CreateAggregateFunctionMerger :: "string \<Rightarrow> int \<Rightarrow> AggregateFuncMerger res" where
  "CreateAggregateFunctionMerger funcType fieldIndex =
     (let f = toLower funcType
      in if f = ''count'' then Ok (AggregateFuncCountMerger fieldIndex)
         else if f = ''sum'' then Ok (AggregateFuncSumMerger fieldIndex)
         else if f = ''max'' then Ok (AggregateFuncMaxMerger fieldIndex)
         else if f = ''min'' then Ok (AggregateFuncMinMerger fieldIndex)
         else Err (ErrMsg ''aggregate function type is not support''))"

record SelectPlan =
  sp_info :: TableAliasStmtInfo
  sp_distinct :: bool
  sp_groupByColumn :: "int list"
  sp_orderByColumn :: "int list"
  sp_orderByDirections :: "bool list"
  sp_originColumnCount :: int
  sp_columnCount :: int
  sp_aggregateFuncs :: "(int \<times> AggregateFuncMerger) list"
  sp_offset :: int
  sp_count :: int
  sp_sqls :: sqls

definition NewSelectPlan :: "string \<Rightarrow> string \<Rightarrow> Router \<Rightarrow> SelectPlan" where
  "NewSelectPlan db sql r =
     \<lparr>sp_info = NewTableAliasStmtInfo db sql r, sp_distinct = False, sp_groupByColumn = [], sp_orderByColumn = [],
      sp_orderByDirections = [], sp_originColumnCount = 0, sp_columnCount = 0, sp_aggregateFuncs = [], sp_offset = - 1,
      sp_count = - 1, sp_sqls = []\<rparr>"

definition setAggregateFuncMerger :: "SelectPlan \<Rightarrow> int \<Rightarrow> AggregateFuncMerger \<Rightarrow> SelectPlan res" where
  "setAggregateFuncMerger p idx merger =
     (if map_of (sp_aggregateFuncs p) idx \<noteq> None then Err (ErrMsg ''column already set'')
      else Ok (p\<lparr>sp_aggregateFuncs := AList.update idx merger (sp_aggregateFuncs p)\<rparr>))"

definition HasLimit :: "SelectPlan \<Rightarrow> bool" where "HasLimit p \<longleftrightarrow> sp_count p \<noteq> - 1"
definition GetLimitValue :: "SelectPlan \<Rightarrow> int \<times> int" where "GetLimitValue p = (sp_offset p, sp_count p)"
definition HasGroupBy :: "SelectPlan \<Rightarrow> bool" where "HasGroupBy p \<longleftrightarrow> sp_groupByColumn p \<noteq> []"
definition HasOrderBy :: "SelectPlan \<Rightarrow> bool" where "HasOrderBy p \<longleftrightarrow> sp_orderByDirections p \<noteq> []"

section \<open>Fields\<close>

definition visit_field :: "TableAliasStmtInfo \<Rightarrow> SelectField \<Rightarrow> SelectField res" where
  "visit_field p f =
     (case sf_Expr f of
        None \<Rightarrow> Ok f
      | Some e \<Rightarrow> andThen (visit_columns p e) (\<lambda>e. Ok (f\<lparr>sf_Expr := Some e\<rparr>)))"

fun merger_loop :: "SelectPlan \<Rightarrow> int \<Rightarrow> SelectField list \<Rightarrow> SelectPlan res" where
  "merger_loop p i [] = Ok p"
| "merger_loop p i (f # fs) =
     andThen
       (case sf_Expr f of
          Some (EAggregate name args d) \<Rightarrow>
            andThen (wrap ''create aggregate function merger error'' (CreateAggregateFunctionMerger name i)) (\<lambda>merger.
              wrap ''set aggregate function merger error'' (setAggregateFuncMerger p i merger))
        | _ \<Rightarrow> Ok p) (\<lambda>p. merger_loop p (i + 1) fs)"

definition handleFieldList :: "SelectPlan \<Rightarrow> SelectField list \<Rightarrow> (SelectField list \<times> SelectPlan) res" where
  "handleFieldList p flds =
     recovered ''handleFieldList panic''
       (andThen (all_ok (map (visit_field (sp_info p)) flds)) (\<lambda>flds.
        andThen (merger_loop p 0 flds) (\<lambda>p. Ok (flds, p))))"

definition handleHaving :: "SelectPlan \<Rightarrow> ExprNode option \<Rightarrow> ExprNode option res" where
  "handleHaving p having =
     (case having of
        None \<Rightarrow> Ok None
      | Some e \<Rightarrow> recovered ''handleHaving panic'' (andThen (visit_columns (sp_info p) e) (\<lambda>e. Ok (Some e))))"

section \<open>Grouping and ordering\<close>

definition createSelectFieldFromByItem :: "TableAliasStmtInfo \<Rightarrow> ByItem \<Rightarrow> (SelectField \<times> ByItem) res" where
  "createSelectFieldFromByItem p item =
     (let field = (\<lambda>e. \<lparr>sf_WildCard = None, sf_Expr = Some e, sf_AsName = \<lparr>ci_O = [], ci_L = []\<rparr>\<rparr>)
      in case bi_Expr item of
           EFuncCall f args \<Rightarrow>
             if ci_L f = ''database'' then Ok (field (bi_Expr item), item)
             else Err (ErrMsg ''ByItem.Expr is a FuncCallExpr but not DATABASE()'')
         | EColumn c \<Rightarrow>
             andThen (NeedCreateColumnNameExprDecoratorInField p c) (\<lambda>need.
               let e = (case need of None \<Rightarrow> EColumn c | Some (rule, isAlias) \<Rightarrow> EColumnDec c rule isAlias)
               in Ok (field e, item\<lparr>bi_Expr := e\<rparr>))
         | _ \<Rightarrow> Err (ErrMsg ''ByItem.Expr is not a ColumnNameExpr''))"

definition createSelectFieldsFromByItems :: "TableAliasStmtInfo \<Rightarrow> ByItem list \<Rightarrow> (SelectField list \<times> ByItem list) res" where
  "createSelectFieldsFromByItems p items =
     andThen (all_ok (map (createSelectFieldFromByItem p) items)) (\<lambda>r. Ok (map fst r, map snd r))"

definition new_columns :: "SelectField list \<Rightarrow> SelectField list \<Rightarrow> int list" where
  "new_columns flds extra = map (\<lambda>i. int i + int (length flds)) [0..<length extra]"

definition handleGroupBy ::
  "SelectPlan \<Rightarrow> SelectField list option \<Rightarrow> ByItem list option \<Rightarrow> (SelectField list option \<times> ByItem list option \<times> SelectPlan) res" where
  "handleGroupBy p flds groupBy =
     (case groupBy of
        None \<Rightarrow> Ok (flds, groupBy, p)
      | Some items \<Rightarrow>
          andThen (wrap ''get group by fields error'' (createSelectFieldsFromByItems (sp_info p) items)) (\<lambda>(extra, items).
            case flds of
              None \<Rightarrow> Panic PNil
            | Some fs \<Rightarrow> Ok (Some (fs @ extra), Some items, p\<lparr>sp_groupByColumn := sp_groupByColumn p @ new_columns fs extra\<rparr>)))"

definition handleOrderBy ::
  "SelectPlan \<Rightarrow> SelectField list option \<Rightarrow> ByItem list option \<Rightarrow> (SelectField list option \<times> ByItem list option \<times> SelectPlan) res" where
  "handleOrderBy p flds orderBy =
     (case orderBy of
        None \<Rightarrow> Ok (flds, orderBy, p)
      | Some items \<Rightarrow>
          andThen (wrap ''get order by fields error'' (createSelectFieldsFromByItems (sp_info p) items)) (\<lambda>(extra, items).
            case flds of
              None \<Rightarrow> Panic PNil
            | Some fs \<Rightarrow> Ok (Some (fs @ extra), Some items,
                p\<lparr>sp_orderByColumn := sp_orderByColumn p @ new_columns fs extra,
                  sp_orderByDirections := sp_orderByDirections p @ map bi_Desc items\<rparr>)))"

text \<open>
  \<^verbatim>\<open>handleExtraFieldList\<close>: an added field that names a selected column or alias is taken out again and
  the selected field used in its place. The first loop collects the names of the selected fields.
\<close>

definition plain_column :: "SelectField \<Rightarrow> string option" where
  "plain_column f = (case sf_Expr f of Some (EColumn c) \<Rightarrow> Some (ci_L (cn_Name c)) | _ \<Rightarrow> None)"

definition add_names :: "(string \<times> int) list \<Rightarrow> int \<times> SelectField \<Rightarrow> (string \<times> int) list" where
  "add_names m x =
     (case x of (i, f) \<Rightarrow>
        let m = (if ci_L (sf_AsName f) \<noteq> [] then AList.update (ci_L (sf_AsName f)) i m else m)
        in case plain_column f of None \<Rightarrow> m | Some c \<Rightarrow> AList.update c i m)"

definition select_names :: "SelectField list \<Rightarrow> (string \<times> int) list" where
  "select_names flds = foldl add_names [] (map (\<lambda>(i, f). (int i, f)) (enumerate 0 flds))"

text \<open>\<open>named\<close>: the selected field that stands for an added one.\<close>

definition named :: "(string \<times> int) list \<Rightarrow> SelectField \<Rightarrow> int option" where
  "named names f = Option.bind (plain_column f) (map_of names)"

text \<open>The loop over added columns: \<open>start\<close> is the position of the first of them before any was taken out.\<close>

fun extra_loop ::
  "(string \<times> int) list \<Rightarrow> int \<Rightarrow> int list \<Rightarrow> int \<Rightarrow> SelectField list \<Rightarrow> (int list \<times> int \<times> SelectField list) res" where
  "extra_loop names start [] deleteNum flds = Ok ([], deleteNum, flds)"
| "extra_loop names start (c # cs) deleteNum flds =
     (let cur = start - deleteNum
      in andThen (at flds cur) (\<lambda>f.
           case named names f of
             None \<Rightarrow>
               andThen (extra_loop names (start + 1) cs deleteNum flds) (\<lambda>(cs, r). Ok ((c - deleteNum) # cs, r))
           | Some index \<Rightarrow>
               andThen (extra_loop names (start + 1) cs (deleteNum + 1) (take (nat cur) flds @ drop (nat cur + 1) flds)) (\<lambda>(cs, r).
                 Ok (index # cs, r))))"

definition handleExtraFieldList :: "SelectPlan \<Rightarrow> SelectField list \<Rightarrow> (SelectField list \<times> SelectPlan) res" where
  "handleExtraFieldList p flds =
     (let names = select_names (take (nat (sp_originColumnCount p)) flds); start = sp_originColumnCount p
      in andThen (extra_loop names start (sp_groupByColumn p) 0 flds) (\<lambda>(groupBy, deleteNum, flds).
         andThen (extra_loop names (start + int (length (sp_groupByColumn p))) (sp_orderByColumn p) deleteNum flds) (\<lambda>(orderBy, _, flds).
           Ok (flds, p\<lparr>sp_groupByColumn := groupBy, sp_orderByColumn := orderBy\<rparr>))))"

section \<open>Limit and hint\<close>

text \<open>\<^verbatim>\<open>GetInt64\<close> reads the 64 bits of the datum. The grammar admits only unsigned integers and parameter
  markers in a limit, so the equation for other literals is never used; a marker is no \<^verbatim>\<open>ValueExpr\<close> and
  fails the type assertion.\<close>

fun literal_int :: "ExprNode \<Rightarrow> int res" where
  "literal_int (EValue (DInt64 n b)) = Ok n"
| "literal_int (EValue (DUint64 n)) = Ok (i64 n)"
| "literal_int (EValue d) = Ok 0"
| "literal_int _ = Panic (PMsg ''interface conversion'')"

definition NeedRewriteLimitOrCreateRewrite :: "Limit option \<Rightarrow> (int \<times> int \<times> Limit option) res" where
  "NeedRewriteLimitOrCreateRewrite limit =
     (case limit of
        None \<Rightarrow> Ok (- 1, - 1, None)
      | Some l \<Rightarrow>
          andThen (literal_int (lm_Count l)) (\<lambda>count.
            case lm_Offset l of
              None \<Rightarrow> Ok (0, count, None)
            | Some e \<Rightarrow>
                andThen (literal_int e) (\<lambda>offset.
                  if offset = 0 then Ok (0, count, None)
                  else Ok (offset, count, Some \<lparr>lm_Count = EValue (DInt64 (i64 (count + offset)) False), lm_Offset = None\<rparr>))))"

definition handleLimit :: "SelectPlan \<Rightarrow> Limit option \<Rightarrow> (Limit option \<times> SelectPlan) res" where
  "handleLimit p limit =
     andThen (NeedRewriteLimitOrCreateRewrite limit) (\<lambda>(offset, count, newLimit).
       Ok (if newLimit = None then limit else newLimit, p\<lparr>sp_offset := offset, sp_count := count\<rparr>))"

text \<open>Every rule of the source has the methods of \<^verbatim>\<open>MycatRule\<close>, so the type assertion holds.\<close>

definition postHandleHintDatabaseFunction :: "TableAliasStmtInfo \<Rightarrow> TableAliasStmtInfo res" where
  "postHandleHintDatabaseFunction p =
     (if si_hintPhyDB p = [] then Ok p
      else case GetShardRule (si_router p) (rr_db (si_result p)) (rr_table (si_result p)) of
        None \<Rightarrow> Err (ErrMsg ''sharding rule of route result not found'')
      | Some rule \<Rightarrow>
          if \<not> IsMycatShardingRule (GetType rule) then Err (ErrMsg ''only mycat rule supports database function hint'')
          else case GetTableIndexByDatabaseName rule (si_hintPhyDB p) of
            None \<Rightarrow> Err (ErrMsg ''hint db not found'')
          | Some idx \<Rightarrow> Ok (p\<lparr>si_result := (si_result p)\<lparr>rr_indexes := [idx]\<rparr>\<rparr>))"

section \<open>The whole statement\<close>

definition with_info :: "SelectPlan \<Rightarrow> TableAliasStmtInfo \<Rightarrow> SelectPlan" where
  "with_info p info = p\<lparr>sp_info := info\<rparr>"

text \<open>The fields: decorated, extended by the columns to group and order by, and duplicates taken out.\<close>

definition select_fields ::
  "SelectPlan \<Rightarrow> SelectField list option \<Rightarrow> ByItem list option \<Rightarrow> ByItem list option \<Rightarrow>
   (SelectField list option \<times> ByItem list option \<times> ByItem list option \<times> SelectPlan) res" where
  "select_fields p flds groupBy orderBy =
     andThen
       (case flds of
          None \<Rightarrow> Ok (None, p)
        | Some fs \<Rightarrow>
            andThen (wrap ''handle Fields error'' (handleFieldList p fs)) (\<lambda>(fs, p).
              Ok (Some fs, p\<lparr>sp_originColumnCount := int (length fs)\<rparr>))) (\<lambda>(flds, p).
     andThen (wrap ''handle GroupBy error'' (handleGroupBy p flds groupBy)) (\<lambda>(flds, groupBy, p).
     andThen (wrap ''handle OrderBy error'' (handleOrderBy p flds orderBy)) (\<lambda>(flds, orderBy, p).
       case flds of
         None \<Rightarrow> Ok (None, groupBy, orderBy, p)
       | Some fs \<Rightarrow>
           andThen (handleExtraFieldList p fs) (\<lambda>(fs, p).
             Ok (Some fs, groupBy, orderBy, p\<lparr>sp_columnCount := int (length fs)\<rparr>)))))"

definition select_sqls :: "pick \<Rightarrow> SelectPlan \<Rightarrow> SelectStmt \<Rightarrow> SelectPlan res" where
  "select_sqls pick p stmt =
     andThen (wrap ''handle Hint error''
       (postHandleHintDatabaseFunction (postHandleGlobalTableRouteResultInQuery pick (sp_info p)))) (\<lambda>info.
     andThen (wrap ''generate select SQL error''
       (generateShardingSQLs (\<lambda>rr. out_res (SelectStmt_Restore rr 0 stmt)) (si_result info) (si_router info))) (\<lambda>(sqls, result).
       Ok ((with_info p (info\<lparr>si_result := result\<rparr>))\<lparr>sp_sqls := sqls\<rparr>)))"

definition HandleSelectStmt :: "Env \<Rightarrow> pick \<Rightarrow> SelectPlan \<Rightarrow> SelectStmt \<Rightarrow> (SelectStmt \<times> SelectPlan) res" where
  "HandleSelectStmt env pick p stmt =
     (case stmt of
        SelectStmt priority cache straight hints dist from wher flds groupBy having windows orderBy limit lock \<Rightarrow>
          andThen (wrap ''handle From error'' (handleTableRefs env pick (sp_info p) from)) (\<lambda>(from, info).
          andThen (select_fields ((with_info p info)\<lparr>sp_distinct := dist\<rparr>) flds groupBy orderBy) (\<lambda>(flds, groupBy, orderBy, p).
          andThen (wrap ''handle Where error'' (handleWhere env (sp_info p) wher)) (\<lambda>(wher, info).
          andThen (wrap ''handle Having error'' (handleHaving (with_info p info) having)) (\<lambda>having.
          andThen (wrap ''handle Limit error'' (handleLimit (with_info p info) limit)) (\<lambda>(limit, p).
            let stmt = SelectStmt priority cache straight hints dist from wher flds groupBy having windows orderBy limit lock
            in andThen (select_sqls pick p stmt) (\<lambda>p. Ok (stmt, p))))))))"

section \<open>The columns to group and order by\<close>

lemma extra_loop_spec:
  "extra_loop names (int (length pre) + dn) (map (\<lambda>j. int (length pre) + dn + int j) [0..<length es]) dn (pre @ es @ rest) =
   Ok (map (\<lambda>j. case named names (es ! j) of
              Some i \<Rightarrow> i
            | None \<Rightarrow> int (length pre + length (filter (\<lambda>f. named names f = None) (take j es)))) [0..<length es],
       dn + int (length (filter (\<lambda>f. named names f \<noteq> None) es)),
       pre @ filter (\<lambda>f. named names f = None) es @ rest)"
proof (induction es arbitrary: pre dn)
  case (Cons f es)
  have up: "[0..<length (f # es)] = 0 # map Suc [0..<length es]" by (simp add: map_Suc_upt upt_conv_Cons del: upt_Suc)
  have a: "at (pre @ f # es @ rest) (int (length pre)) = Ok f" by (simp add: at_def)
  show ?case
  proof (cases "named names f")
    case None
    have "extra_loop names (int (length pre) + dn + 1) (map (\<lambda>j. int (length pre) + dn + int (Suc j)) [0..<length es]) dn (pre @ f # es @ rest)
      = extra_loop names (int (length (pre @ [f])) + dn) (map (\<lambda>j. int (length (pre @ [f])) + dn + int j) [0..<length es]) dn ((pre @ [f]) @ es @ rest)"
      by (simp add: algebra_simps)
    note e = this [unfolded Cons.IH]
    show ?thesis unfolding up using None a e by (simp add: comp_def split: option.splits)
  next
    case (Some i)
    have "extra_loop names (int (length pre) + dn + 1) (map (\<lambda>j. int (length pre) + dn + int (Suc j)) [0..<length es]) (dn + 1) (pre @ es @ rest)
      = extra_loop names (int (length pre) + (dn + 1)) (map (\<lambda>j. int (length pre) + (dn + 1) + int j) [0..<length es]) (dn + 1) (pre @ es @ rest)"
      by (simp add: algebra_simps)
    note e = this [unfolded Cons.IH]
    show ?thesis unfolding up using Some a e by (simp add: comp_def split: option.splits)
  qed
qed simp

lemma add_names_spec:
  "map_of (foldl add_names m xs) n = Some i \<Longrightarrow> map_of m n = Some i \<or>
     (\<exists>f. (i, f) \<in> set xs \<and> (ci_L (sf_AsName f) = n \<or> plain_column f = Some n))"
proof (induction xs arbitrary: m)
  case (Cons x xs)
  obtain k f where x: "x = (k, f)" by (cases x)
  have "map_of (foldl add_names (add_names m x) xs) n = Some i" using Cons.prems by simp
  from Cons.IH [OF this] show ?case
  proof
    assume "map_of (add_names m x) n = Some i"
    then show ?thesis unfolding x add_names_def
      by (auto simp: Let_def update_Some_unfold split: if_splits option.splits)
  qed auto
qed simp

lemma select_names_spec:
  assumes "map_of (select_names flds) n = Some i"
  shows "0 \<le> i \<and> i < int (length flds) \<and> (ci_L (sf_AsName (flds ! nat i)) = n \<or> plain_column (flds ! nat i) = Some n)"
  using add_names_spec [OF assms [unfolded select_names_def]]
  by (auto simp: in_set_enumerate_eq)

text \<open>
  \<open>serves sel flds e c\<close>: column \<open>c\<close> of the fields is the expression \<open>e\<close> to group or order by, either added
  behind the selected fields or a selected field with its name.
\<close>

definition serves :: "SelectField list \<Rightarrow> SelectField list \<Rightarrow> ExprNode \<Rightarrow> int \<Rightarrow> bool" where
  "serves sel flds e c \<longleftrightarrow>
     0 \<le> c \<and> c < int (length flds) \<and>
     (if c < int (length sel)
      then \<exists>col. e = EColumn col \<and>
             (ci_L (sf_AsName (sel ! nat c)) = ci_L (cn_Name col) \<or> plain_column (sel ! nat c) = Some (ci_L (cn_Name col)))
      else sf_Expr (flds ! nat c) = Some e)"

lemma filter_take_nth:
  "j < length xs \<Longrightarrow> P (xs ! j) \<Longrightarrow> filter P xs ! length (filter P (take j xs)) = xs ! j \<and>
     length (filter P (take j xs)) < length (filter P xs)"
proof -
  assume a: "j < length xs" "P (xs ! j)"
  have "xs = take j xs @ xs ! j # drop (Suc j) xs" using a(1) by (rule id_take_nth_drop)
  then have "filter P xs = filter P (take j xs) @ xs ! j # filter P (drop (Suc j) xs)"
    using a(2) by (metis filter.simps(2) filter_append)
  then show ?thesis by (simp add: nth_append)
qed

lemma named_serves:
  assumes "named (select_names sel) f = Some c" "sf_Expr f = Some e"
  shows "serves sel (sel @ rest) e c"
proof -
  obtain n where n: "plain_column f = Some n" "map_of (select_names sel) n = Some c"
    using assms(1) unfolding named_def by (auto simp: bind_eq_Some_conv)
  obtain col where "e = EColumn col" "ci_L (cn_Name col) = n"
    using n(1) assms(2) unfolding plain_column_def by (auto split: ExprNode.splits)
  then show ?thesis using select_names_spec [OF n(2)] unfolding serves_def by auto
qed

lemma extra_serves:
  assumes "j < length es" "sf_Expr (es ! j) = Some e" "flds = sel @ pre @ filter (\<lambda>f. named (select_names sel) f = None) es @ rest"
  shows "serves sel flds e
     (case named (select_names sel) (es ! j) of
        Some i \<Rightarrow> i
      | None \<Rightarrow> int (length (sel @ pre) + length (filter (\<lambda>f. named (select_names sel) f = None) (take j es))))"
proof (cases "named (select_names sel) (es ! j)")
  case None
  note f = filter_take_nth [OF assms(1), of "\<lambda>f. named (select_names sel) f = None", OF None]
  let ?k = "length (sel @ pre) + length (filter (\<lambda>f. named (select_names sel) f = None) (take j es))"
  have "flds ! ?k = es ! j" "?k < length flds" using f unfolding assms(3) by (simp_all add: nth_append)
  then show ?thesis using None assms(2) unfolding serves_def by (simp del: of_nat_add)
next
  case (Some i)
  then show ?thesis using named_serves [OF Some assms(2)] unfolding assms(3) by simp
qed

lemma by_items_fields:
  assumes "createSelectFieldsFromByItems info items = Ok (extra, items')"
  shows "length extra = length items' \<and> length items' = length items \<and> map bi_Desc items' = map bi_Desc items \<and>
    (\<forall>j < length items'. sf_Expr (extra ! j) = Some (bi_Expr (items' ! j)))"
proof -
  obtain r where r: "all_ok (map (createSelectFieldFromByItem info) items) = Ok r" "extra = map fst r" "items' = map snd r"
    using assms unfolding createSelectFieldsFromByItems_def by auto
  have one: "bi_Desc b' = bi_Desc b \<and> sf_Expr f = Some (bi_Expr b')"
    if "createSelectFieldFromByItem info b = Ok (f, b')" for b f b'
    using that unfolding createSelectFieldFromByItem_def
    by (cases "bi_Expr b") (auto simp: Let_def split: if_splits option.splits)
  have l: "list_all2 (\<lambda>b x. createSelectFieldFromByItem info b = Ok x) items r"
    using r(1) by (induction items arbitrary: r) auto
  then have "list_all2 (\<lambda>b x. bi_Desc (snd x) = bi_Desc b \<and> sf_Expr (fst x) = Some (bi_Expr (snd x))) items r"
    by (rule list.rel_mono_strong) (use one in \<open>auto simp: prod_eq_iff\<close>)
  then show ?thesis unfolding r(2,3) by (auto simp: list_all2_conv_all_nth intro: nth_equalityI)
qed

lemma recovered_Ok [simp]: "recovered msg r = Ok x \<longleftrightarrow> r = Ok x"
  by (cases r) auto

lemma merger_loop_frame: "merger_loop p i fs = Ok p' \<Longrightarrow> \<exists>m. p' = p\<lparr>sp_aggregateFuncs := m\<rparr>"
proof (induction fs arbitrary: p i)
  case Nil
  then show ?case by (auto intro: exI [of _ "sp_aggregateFuncs p"])
next
  case (Cons f fs)
  then obtain p1 where p1: "merger_loop p1 (i + 1) fs = Ok p'" "p1 = p \<or> (\<exists>m. p1 = p\<lparr>sp_aggregateFuncs := m\<rparr>)"
    by (auto simp: setAggregateFuncMerger_def split: option.splits ExprNode.splits if_splits)
  show ?case using Cons.IH [OF p1(1)] p1(2) by auto
qed

definition items_of :: "ByItem list option \<Rightarrow> ByItem list" where
  "items_of b = concat (option_list b)"

lemma handleGroupBy_columns:
  assumes "handleGroupBy p (Some fs) groupBy = Ok (flds, groupBy', p')" "sp_groupByColumn p = []"
  shows "\<exists>es. flds = Some (fs @ es) \<and> p' = p\<lparr>sp_groupByColumn := new_columns fs es\<rparr> \<and> length es = length (items_of groupBy') \<and>
    (\<forall>j < length es. sf_Expr (es ! j) = Some (bi_Expr (items_of groupBy' ! j)))"
  using assms unfolding handleGroupBy_def
  by (auto simp: items_of_def new_columns_def split: option.splits dest!: by_items_fields)

lemma handleOrderBy_columns:
  assumes "handleOrderBy p (Some fs) orderBy = Ok (flds, orderBy', p')" "sp_orderByColumn p = []" "sp_orderByDirections p = []"
  shows "\<exists>es. flds = Some (fs @ es) \<and>
    p' = p\<lparr>sp_orderByColumn := new_columns fs es, sp_orderByDirections := map bi_Desc (items_of orderBy)\<rparr> \<and>
    length es = length (items_of orderBy') \<and> (\<forall>j < length es. sf_Expr (es ! j) = Some (bi_Expr (items_of orderBy' ! j)))"
  using assms unfolding handleOrderBy_def
  by (auto simp: items_of_def new_columns_def split: option.splits dest!: by_items_fields)

lemma handleExtraFieldList_columns:
  assumes "sp_originColumnCount p = int (length sel)" "sp_groupByColumn p = new_columns sel ge"
    "sp_orderByColumn p = new_columns (sel @ ge) oe"
  shows "\<exists>g' o'. let N = select_names sel; kept = filter (\<lambda>f. named N f = None); flds = sel @ kept ge @ kept oe in
    handleExtraFieldList p (sel @ ge @ oe) = Ok (flds, p\<lparr>sp_groupByColumn := g', sp_orderByColumn := o'\<rparr>) \<and>
    length g' = length ge \<and> length o' = length oe \<and>
    (\<forall>j < length ge. \<forall>e. sf_Expr (ge ! j) = Some e \<longrightarrow> serves sel flds e (g' ! j)) \<and>
    (\<forall>j < length oe. \<forall>e. sf_Expr (oe ! j) = Some e \<longrightarrow> serves sel flds e (o' ! j))"
proof -
  let ?N = "select_names sel"
  let ?kept = "filter (\<lambda>f. named ?N f = None)"
  let ?del = "\<lambda>es. int (length (filter (\<lambda>f. named ?N f \<noteq> None) es))"
  have part: "length es = length (?kept es) + length (filter (\<lambda>f. named ?N f \<noteq> None) es)" for es :: "SelectField list"
    by (induction es) auto
  have g: "new_columns sel ge = map (\<lambda>j. int (length sel) + 0 + int j) [0..<length ge]"
    unfolding new_columns_def by (auto simp: algebra_simps)
  note eg = extra_loop_spec [of ?N sel 0 ge oe, folded g, simplified]
  have o: "new_columns (sel @ ge) oe = map (\<lambda>j. int (length (sel @ ?kept ge)) + ?del ge + int j) [0..<length oe]"
    unfolding new_columns_def using part [of ge] by (auto simp: algebra_simps)
  have st: "int (length sel) + int (length ge) = int (length (sel @ ?kept ge)) + ?del ge" using part [of ge] by simp
  note eo = extra_loop_spec [of ?N "sel @ ?kept ge" "?del ge" oe "[]", folded o st, simplified]
  define gc where "gc j = (case named ?N (ge ! j) of
      Some i \<Rightarrow> i | None \<Rightarrow> int (length (sel @ []) + length (?kept (take j ge))))" for j
  define oc where "oc j = (case named ?N (oe ! j) of
      Some i \<Rightarrow> i | None \<Rightarrow> int (length (sel @ ?kept ge) + length (?kept (take j oe))))" for j
  have "handleExtraFieldList p (sel @ ge @ oe) =
     Ok (sel @ ?kept ge @ ?kept oe, p\<lparr>sp_groupByColumn := map gc [0..<length ge], sp_orderByColumn := map oc [0..<length oe]\<rparr>)"
    unfolding handleExtraFieldList_def Let_def assms using eg eo
    by (simp add: new_columns_def gc_def oc_def cong: option.case_cong)
  moreover have "serves sel (sel @ ?kept ge @ ?kept oe) e (gc j)" if "j < length ge" "sf_Expr (ge ! j) = Some e" for j e
    unfolding gc_def by (rule extra_serves [OF that]) simp
  moreover have "serves sel (sel @ ?kept ge @ ?kept oe) e (oc j)" if "j < length oe" "sf_Expr (oe ! j) = Some e" for j e
    unfolding oc_def by (rule extra_serves [OF that]) simp
  ultimately show ?thesis unfolding Let_def
    by (intro exI [of _ "map gc [0..<length ge]"] exI [of _ "map oc [0..<length oe]"]) simp
qed

definition columns_ok :: "SelectPlan \<Rightarrow> SelectField list \<Rightarrow> SelectField list \<Rightarrow> ByItem list \<Rightarrow> ByItem list \<Rightarrow> bool" where
  "columns_ok p sel flds groupBy orderBy \<longleftrightarrow>
     take (length sel) flds = sel \<and> sp_originColumnCount p = int (length sel) \<and> sp_columnCount p = int (length flds) \<and>
     list_all2 (serves sel flds) (map bi_Expr groupBy) (sp_groupByColumn p) \<and>
     list_all2 (serves sel flds) (map bi_Expr orderBy) (sp_orderByColumn p) \<and>
     length (sp_orderByDirections p) = length (sp_orderByColumn p)"

lemma select_fields_columns:
  assumes "select_fields p (Some fs) groupBy orderBy = Ok (flds, groupBy', orderBy', p')"
    "sp_groupByColumn p = []" "sp_orderByColumn p = []" "sp_orderByDirections p = []"
  shows "\<exists>sel flds'. all_ok (map (visit_field (sp_info p)) fs) = Ok sel \<and> flds = Some flds' \<and>
    columns_ok p' sel flds' (items_of groupBy') (items_of orderBy') \<and>
    sp_orderByDirections p' = map bi_Desc (items_of orderBy)"
proof -
  obtain sel p0 where f: "all_ok (map (visit_field (sp_info p)) fs) = Ok sel" "merger_loop p 0 sel = Ok p0"
    using assms(1) unfolding select_fields_def handleFieldList_def by auto
  obtain m where m: "p0 = p\<lparr>sp_aggregateFuncs := m\<rparr>" using merger_loop_frame [OF f(2)] by blast
  define p1 where "p1 = p\<lparr>sp_aggregateFuncs := m, sp_originColumnCount := int (length sel)\<rparr>"
  obtain flds2 p2 flds3 p3 where g: "handleGroupBy p1 (Some sel) groupBy = Ok (flds2, groupBy', p2)"
    "handleOrderBy p2 flds2 orderBy = Ok (flds3, orderBy', p3)"
    "(case flds3 of None \<Rightarrow> Ok (None, groupBy', orderBy', p3) | Some fs \<Rightarrow>
        andThen (handleExtraFieldList p3 fs) (\<lambda>(fs, p). Ok (Some fs, groupBy', orderBy', p\<lparr>sp_columnCount := int (length fs)\<rparr>)))
      = Ok (flds, groupBy', orderBy', p')"
    using assms(1) f m unfolding select_fields_def handleFieldList_def p1_def by (auto split: option.splits)
  obtain ge where ge: "flds2 = Some (sel @ ge)" "p2 = p1\<lparr>sp_groupByColumn := new_columns sel ge\<rparr>" "length ge = length (items_of groupBy')"
    "\<forall>j < length ge. sf_Expr (ge ! j) = Some (bi_Expr (items_of groupBy' ! j))"
    using handleGroupBy_columns [OF g(1)] assms(2) unfolding p1_def by auto
  obtain oe where oe: "flds3 = Some ((sel @ ge) @ oe)"
    "p3 = p2\<lparr>sp_orderByColumn := new_columns (sel @ ge) oe, sp_orderByDirections := map bi_Desc (items_of orderBy)\<rparr>"
    "length oe = length (items_of orderBy')" "\<forall>j < length oe. sf_Expr (oe ! j) = Some (bi_Expr (items_of orderBy' ! j))"
    using handleOrderBy_columns [OF g(2) [unfolded ge(1)]] assms(3,4) unfolding ge(2) p1_def by auto
  have "length (items_of orderBy') = length (items_of orderBy)"
    using g(2) unfolding handleOrderBy_def
    by (auto simp: items_of_def split: option.splits dest!: by_items_fields)
  with handleExtraFieldList_columns [of p3 sel ge oe] f(1) g(3) ge(3,4) oe show ?thesis
    unfolding columns_ok_def by (auto simp: p1_def ge(2) Let_def list_all2_conv_all_nth)
qed

lemma select_sqls_frame:
  "select_sqls pick p stmt = Ok p' \<Longrightarrow> \<exists>info sqls. p' = (with_info p info)\<lparr>sp_sqls := sqls\<rparr>"
  unfolding select_sqls_def by auto

lemma columns_ok_frame [simp]:
  "columns_ok (with_info p info) = columns_ok p" "columns_ok (p\<lparr>sp_sqls := sqls\<rparr>) = columns_ok p"
  "columns_ok (p\<lparr>sp_offset := l, sp_count := n\<rparr>) = columns_ok p"
  by (intro ext, simp add: columns_ok_def with_info_def)+

text \<open>
  C6: the plan of a \<^verbatim>\<open>SELECT\<close> knows its columns. The fields sent to the shards start with the selected
  fields, decorated; every index to group or order by lies within the fields and points to the
  expression of its item, added behind the selected fields, or to a selected field of that name; and
  every column to order by has the direction of its item.
\<close>

theorem select_plan_columns:
  assumes "HandleSelectStmt env pick (NewSelectPlan db sql rt) stmt = Ok (stmt', p)" "st_Fields stmt = Some fs"
  shows "\<exists>from info sel flds.
    handleTableRefs env pick (NewTableAliasStmtInfo db sql rt) (st_From stmt) = Ok (from, info) \<and>
    all_ok (map (visit_field info) fs) = Ok sel \<and> st_Fields stmt' = Some flds \<and>
    columns_ok p sel flds (items_of (st_GroupBy stmt')) (items_of (st_OrderBy stmt')) \<and>
    sp_orderByDirections p = map bi_Desc (items_of (st_OrderBy stmt))"
proof -
  let ?p = "NewSelectPlan db sql rt"
  obtain from1 info where t: "handleTableRefs env pick (sp_info ?p) (st_From stmt) = Ok (from1, info)"
    using assms(1) unfolding HandleSelectStmt_def by (cases stmt) auto
  let ?p1 = "(with_info ?p info)\<lparr>sp_distinct := st_Distinct stmt\<rparr>"
  obtain flds2 groupBy2 orderBy2 p2 where s:
    "select_fields ?p1 (Some fs) (st_GroupBy stmt) (st_OrderBy stmt) = Ok (flds2, groupBy2, orderBy2, p2)"
    "st_Fields stmt' = flds2" "st_GroupBy stmt' = groupBy2" "st_OrderBy stmt' = orderBy2"
    "columns_ok p = columns_ok p2" "sp_orderByDirections p = sp_orderByDirections p2"
    using assms t unfolding HandleSelectStmt_def handleLimit_def Let_def
    by (cases stmt) (auto dest!: select_sqls_frame simp: with_info_def columns_ok_frame [unfolded with_info_def])
  have "sp_info ?p = NewTableAliasStmtInfo db sql rt" "sp_info ?p1 = info" "sp_groupByColumn ?p1 = []"
    "sp_orderByColumn ?p1 = []" "sp_orderByDirections ?p1 = []"
    by (simp_all add: NewSelectPlan_def with_info_def)
  with select_fields_columns [OF s(1)] t s show ?thesis by auto
qed

definition colname :: "string \<Rightarrow> string \<Rightarrow> ExprNode" where
  "colname t c = EColumn \<lparr>cn_Schema = NewCIStr [], cn_Table = NewCIStr t, cn_Name = NewCIStr c\<rparr>"

definition field_as :: "ExprNode \<Rightarrow> string \<Rightarrow> SelectField" where
  "field_as e a = \<lparr>sf_WildCard = None, sf_Expr = Some e, sf_AsName = NewCIStr a\<rparr>"

definition by_col :: "string \<Rightarrow> string \<Rightarrow> ByItem" where
  "by_col t c = \<lparr>bi_Expr = colname t c, bi_Desc = False\<rparr>"

definition example_from :: "ResultSetNode option" where
  "example_from =
     Some (RJoin (Some (RTableSource (RTableName
       \<lparr>tn_Schema = NewCIStr [], tn_Name = NewCIStr ''tbl'', tn_IndexHints = [], tn_PartitionNames = []\<rparr>) (NewCIStr [])))
       None CrossJoin None [] False False)"

definition example_select ::
  "SelectField list \<Rightarrow> ExprNode option \<Rightarrow> ByItem list option \<Rightarrow> ByItem list option \<Rightarrow> Limit option \<Rightarrow> SelectStmt" where
  "example_select flds wher groupBy orderBy limit =
     SelectStmt NoPriority True False [] False example_from wher (Some flds) groupBy None None orderBy limit SelectLockNone"

definition example_select_plan :: "SelectStmt \<Rightarrow> (SelectStmt \<times> SelectPlan) res" where
  "example_select_plan stmt =
     andThen (NewRouter example_ns) (\<lambda>rt. HandleSelectStmt list_treemap hd (NewSelectPlan ''db'' [] rt) stmt)"

text \<open>\<^verbatim>\<open>SELECT v, COUNT(id) FROM tbl WHERE id = 5 GROUP BY v, tbl.k ORDER BY w\<close>\<close>

definition example_grouped :: SelectStmt where
  "example_grouped = example_select [field_as (colname [] ''v'') [], field_as (EAggregate ''COUNT'' [colname [] ''id''] False) []]
     (Some (EBinary OpEQ (colname [] ''id'') (EValue (DInt64 5 False))))
     (Some [by_col [] ''v'', by_col ''tbl'' ''k'']) (Some [by_col [] ''w'']) None"

theorem select_plan_columns_witness:
  "\<exists>stmt p flds. example_select_plan example_grouped = Ok (stmt, p) \<and> st_Fields stmt = Some flds \<and> length flds = 4 \<and>
     sp_groupByColumn p = [0, 2] \<and> sp_orderByColumn p = [3] \<and>
     (\<exists>sel. columns_ok p sel flds (items_of (st_GroupBy stmt)) (items_of (st_OrderBy stmt))) \<and>
     sql_at (sp_sqls p) ''slice-0'' ''db_1'' =
       [''SELECT `v`,COUNT(id),`tbl`.`k`,`w` FROM `tbl` WHERE `id`=5 GROUP BY `v`,`tbl`.`k` ORDER BY `w`'']"
proof -
  let ?ok = "\<lambda>stmt p. st_Fields stmt \<noteq> None \<and> length (the (st_Fields stmt)) = 4 \<and> sp_groupByColumn p = [0, 2] \<and> sp_orderByColumn p = [3] \<and>
     sql_at (sp_sqls p) ''slice-0'' ''db_1'' =
       [''SELECT `v`,COUNT(id),`tbl`.`k`,`w` FROM `tbl` WHERE `id`=5 GROUP BY `v`,`tbl`.`k` ORDER BY `w`'']"
  have "case example_select_plan example_grouped of Ok (stmt, p) \<Rightarrow> ?ok stmt p | _ \<Rightarrow> False" by code_simp
  then obtain stmt p where p: "example_select_plan example_grouped = Ok (stmt, p)" "?ok stmt p"
    by (auto split: res.splits)
  then obtain rt where q: "HandleSelectStmt list_treemap hd (NewSelectPlan ''db'' [] rt) example_grouped = Ok (stmt, p)"
    by (auto simp: example_select_plan_def)
  have "st_Fields example_grouped = Some (the (st_Fields example_grouped))" by code_simp
  from select_plan_columns [OF q this] p show ?thesis by auto
qed

section \<open>Names that mislead\<close>

text \<open>
  \<^verbatim>\<open>SELECT a AS b, b AS c FROM tbl ORDER BY b\<close>: the databases order by the alias \<^verbatim>\<open>b\<close>, the first column;
  the plan merges by the second.
\<close>

lemma order_by_alias_swapped:
  "(case example_select_plan (example_select [field_as (colname [] ''a'') ''b'', field_as (colname [] ''b'') ''c''] None None
           (Some [by_col [] ''b'']) None) of
      Ok (stmt, p) \<Rightarrow> sp_orderByColumn p = [1] | _ \<Rightarrow> False)"
  by code_simp

text \<open>\<^verbatim>\<open>SELECT COUNT(v) AS id FROM tbl GROUP BY id\<close>: the databases group by the column \<^verbatim>\<open>id\<close>, which the plan
  no longer fetches; rows of the shards are grouped by their counts.\<close>

lemma group_by_aggregate_alias:
  "(case example_select_plan (example_select [field_as (EAggregate ''COUNT'' [colname [] ''v''] False) ''id''] None
           (Some [by_col [] ''id'']) None None) of
      Ok (stmt, p) \<Rightarrow> sp_groupByColumn p = [0] \<and> sp_columnCount p = 1 \<and>
        sql_at (sp_sqls p) ''slice-0'' ''db_1'' = [''SELECT COUNT(v) AS `id` FROM `tbl` GROUP BY `id`'']
    | _ \<Rightarrow> False)"
  by code_simp

section \<open>Limits\<close>

text \<open>Within the range of \<^verbatim>\<open>int64\<close> every table is asked for the first \<^verbatim>\<open>offset + count\<close> rows.\<close>

lemma limit_pushed:
  assumes "0 \<le> n" "0 < k" "n + k < 2 ^ 63"
  shows "NeedRewriteLimitOrCreateRewrite (Some \<lparr>lm_Count = EValue (DUint64 n), lm_Offset = Some (EValue (DUint64 k))\<rparr>) =
     Ok (k, n, Some \<lparr>lm_Count = EValue (DInt64 (n + k) False), lm_Offset = None\<rparr>)"
proof -
  have i: "i64 n = n" "i64 k = k" "i64 (n + k) = n + k" using assms by (simp_all add: i64_id in_i64_bounds)
  then show ?thesis using assms by (simp add: NeedRewriteLimitOrCreateRewrite_def)
qed

text \<open>
  \<^verbatim>\<open>LIMIT 5, 18446744073709551615\<close>, the way to ask for all rows from the sixth on: the count is read as
  \<^verbatim>\<open>-1\<close>, every table is asked for four rows, and the plan has no limit.
\<close>

lemma limit_all_rows:
  "(case example_select_plan (example_select [field_as (colname [] ''a'') []] None None None
           (Some \<lparr>lm_Count = EValue (DUint64 18446744073709551615), lm_Offset = Some (EValue (DUint64 5))\<rparr>)) of
      Ok (stmt, p) \<Rightarrow> \<not> HasLimit p \<and>
        sql_at (sp_sqls p) ''slice-0'' ''db_1'' = [''SELECT `a` FROM `tbl` LIMIT 4'']
    | _ \<Rightarrow> False)"
  by code_simp

end
