(* ===== verification/Plan_Modify.thy ===== *)
theory Plan_Modify
  imports Plan_Select Plan_Where
begin

text \<open>
  \<^verbatim>\<open>src/proxy/plan/plan_update.go\<close> and \<^verbatim>\<open>plan_delete.go\<close>: the plans of \<^verbatim>\<open>UPDATE\<close> and \<^verbatim>\<open>DELETE\<close>, for one
  table, with what they share in the source written once: the table, the condition and the order.
\<close>

section \<open>Shared steps\<close>

definition modify_table_refs ::
  "Env \<Rightarrow> pick \<Rightarrow> TableAliasStmtInfo \<Rightarrow> ResultSetNode option \<Rightarrow> (ResultSetNode option \<times> TableAliasStmtInfo) res" where
  "modify_table_refs env pick p refs =
     (case refs of
        Some (RJoin left (Some right) tp on us natural straight) \<Rightarrow>
          Err (ErrMsg ''does not support update multiple tables in sharding'')
      | _ \<Rightarrow> handleTableRefs env pick p refs)"

definition order_item :: "TableAliasStmtInfo \<Rightarrow> ByItem \<Rightarrow> ByItem res" where
  "order_item p item =
     (case bi_Expr item of
        EColumn c \<Rightarrow>
          andThen (NeedCreateColumnNameExprDecoratorInField p c) (\<lambda>need.
            case need of None \<Rightarrow> Ok item | Some (rule, isAlias) \<Rightarrow> Ok (item\<lparr>bi_Expr := EColumnDec c rule isAlias\<rparr>))
      | _ \<Rightarrow> Err (ErrMsg ''ByItem.Expr is not a ColumnNameExpr''))"

definition modify_order :: "TableAliasStmtInfo \<Rightarrow> ByItem list option \<Rightarrow> ByItem list option res" where
  "modify_order p order =
     (case order of
        None \<Rightarrow> Ok None
      | Some items \<Rightarrow> andThen (all_ok (map (order_item p) items)) (\<lambda>items. Ok (Some items)))"

section \<open>UPDATE\<close>

record UpdatePlan =
  up_info :: TableAliasStmtInfo
  up_stmt :: UpdateStmt
  up_sqls :: sqls

definition NewUpdatePlan :: "UpdateStmt \<Rightarrow> string \<Rightarrow> string \<Rightarrow> Router \<Rightarrow> UpdatePlan" where
  "NewUpdatePlan stmt db sql r = \<lparr>up_info = NewTableAliasStmtInfo db sql r, up_stmt = stmt, up_sqls = []\<rparr>"

definition handleUpdateTableRefs :: "Env \<Rightarrow> pick \<Rightarrow> UpdatePlan \<Rightarrow> UpdatePlan res" where
  "handleUpdateTableRefs env pick p =
     andThen (modify_table_refs env pick (up_info p) (us_TableRefs (up_stmt p))) (\<lambda>(refs, info).
       Ok (p\<lparr>up_info := info, up_stmt := (up_stmt p)\<lparr>us_TableRefs := refs\<rparr>\<rparr>))"

definition assignment_column :: "TableAliasStmtInfo \<Rightarrow> Assignment \<Rightarrow> Assignment res" where
  "assignment_column p a =
     andThen (needCreateColumnNameDecorator p (as_Column a)) (\<lambda>need.
       if (case need of None \<Rightarrow> False | Some (r, _) \<Rightarrow> GetShardingColumn r = ci_L (cn_Name (as_Column a)))
       then Err (ErrMsg ''cannot update shard column value'')
       else Ok (a\<lparr>as_Column := removeSchemaAndTableInfoInColumnName (as_Column a)\<rparr>))"

definition handleUpdateAssignmentList :: "UpdatePlan \<Rightarrow> UpdatePlan res" where
  "handleUpdateAssignmentList p =
     andThen (all_ok (map (assignment_column (up_info p)) (us_List (up_stmt p)))) (\<lambda>l.
       Ok (p\<lparr>up_stmt := (up_stmt p)\<lparr>us_List := l\<rparr>\<rparr>))"

definition handleUpdateWhere :: "Env \<Rightarrow> UpdatePlan \<Rightarrow> UpdatePlan res" where
  "handleUpdateWhere env p =
     andThen (handleWhere env (up_info p) (us_Where (up_stmt p))) (\<lambda>(wher, info).
       Ok (p\<lparr>up_info := info, up_stmt := (up_stmt p)\<lparr>us_Where := wher\<rparr>\<rparr>))"

definition handleUpdateOrderBy :: "UpdatePlan \<Rightarrow> UpdatePlan res" where
  "handleUpdateOrderBy p =
     andThen (modify_order (up_info p) (us_Order (up_stmt p))) (\<lambda>order.
       Ok (p\<lparr>up_stmt := (up_stmt p)\<lparr>us_Order := order\<rparr>\<rparr>))"

definition update_sqls :: "pick \<Rightarrow> UpdatePlan \<Rightarrow> UpdatePlan res" where
  "update_sqls pick p =
     (let info = postHandleGlobalTableRouteResultInModify pick (up_info p)
      in andThen (wrap ''generate sqls error''
           (generateShardingSQLs (\<lambda>rr. out_res (UpdateStmt_Restore rr (up_stmt p))) (si_result info) (si_router info))) (\<lambda>(sqls, result).
           Ok (p\<lparr>up_info := info\<lparr>si_result := result\<rparr>, up_sqls := sqls\<rparr>)))"

definition HandleUpdatePlan :: "Env \<Rightarrow> pick \<Rightarrow> UpdatePlan \<Rightarrow> UpdatePlan res" where
  "HandleUpdatePlan env pick p =
     andThen (wrap ''handle From error'' (handleUpdateTableRefs env pick p)) (\<lambda>p.
     andThen (wrap ''handle assignment list error'' (handleUpdateAssignmentList p)) (\<lambda>p.
     andThen (wrap ''handle Where error'' (handleUpdateWhere env p)) (\<lambda>p.
     andThen (wrap ''handle OrderBy error'' (handleUpdateOrderBy p)) (update_sqls pick))))"

section \<open>DELETE\<close>

record DeletePlan =
  dp_info :: TableAliasStmtInfo
  dp_stmt :: DeleteStmt
  dp_sqls :: sqls

definition NewDeletePlan :: "DeleteStmt \<Rightarrow> string \<Rightarrow> string \<Rightarrow> Router \<Rightarrow> DeletePlan" where
  "NewDeletePlan stmt db sql r = \<lparr>dp_info = NewTableAliasStmtInfo db sql r, dp_stmt = stmt, dp_sqls = []\<rparr>"

definition handleDeleteTableRefs :: "Env \<Rightarrow> pick \<Rightarrow> DeletePlan \<Rightarrow> DeletePlan res" where
  "handleDeleteTableRefs env pick p =
     andThen (modify_table_refs env pick (dp_info p) (ds_TableRefs (dp_stmt p))) (\<lambda>(refs, info).
       Ok (p\<lparr>dp_info := info, dp_stmt := (dp_stmt p)\<lparr>ds_TableRefs := refs\<rparr>\<rparr>))"

definition handleDeleteWhere :: "Env \<Rightarrow> DeletePlan \<Rightarrow> DeletePlan res" where
  "handleDeleteWhere env p =
     andThen (handleWhere env (dp_info p) (ds_Where (dp_stmt p))) (\<lambda>(wher, info).
       Ok (p\<lparr>dp_info := info, dp_stmt := (dp_stmt p)\<lparr>ds_Where := wher\<rparr>\<rparr>))"

definition handleDeleteOrderBy :: "DeletePlan \<Rightarrow> DeletePlan res" where
  "handleDeleteOrderBy p =
     andThen (modify_order (dp_info p) (ds_Order (dp_stmt p))) (\<lambda>order.
       Ok (p\<lparr>dp_stmt := (dp_stmt p)\<lparr>ds_Order := order\<rparr>\<rparr>))"

definition delete_sqls :: "pick \<Rightarrow> DeletePlan \<Rightarrow> DeletePlan res" where
  "delete_sqls pick p =
     (let info = postHandleGlobalTableRouteResultInModify pick (dp_info p)
      in andThen (wrap ''generate sqls error''
           (generateShardingSQLs (\<lambda>rr. out_res (DeleteStmt_Restore rr (dp_stmt p))) (si_result info) (si_router info))) (\<lambda>(sqls, result).
           Ok (p\<lparr>dp_info := info\<lparr>si_result := result\<rparr>, dp_sqls := sqls\<rparr>)))"

definition HandleDeletePlan :: "Env \<Rightarrow> pick \<Rightarrow> DeletePlan \<Rightarrow> DeletePlan res" where
  "HandleDeletePlan env pick p =
     andThen (wrap ''handle From error'' (handleDeleteTableRefs env pick p)) (\<lambda>p.
     andThen (wrap ''handle Where error'' (handleDeleteWhere env p)) (\<lambda>p.
     andThen (wrap ''handle OrderBy error'' (handleDeleteOrderBy p)) (delete_sqls pick)))"

section \<open>Statements on one sharded table\<close>

definition one_table :: "TableName \<Rightarrow> CIStr \<Rightarrow> ResultSetNode option \<Rightarrow> bool" where
  "one_table n a refs \<longleftrightarrow>
     (\<exists>tp us natural straight. refs = Some (RJoin (Some (RTableSource (RTableName n) a)) None tp None us natural straight))"

definition on_rule :: "Router \<Rightarrow> string \<Rightarrow> Rule \<Rightarrow> TableAliasStmtInfo \<Rightarrow> bool" where
  "on_rule rt table rule info \<longleftrightarrow>
     si_tableRules info = [(table, rule)] \<and> si_globalTableRules info = [] \<and> si_router info = rt \<and>
     GetType rule \<noteq> ShardGlobal \<and> rr_currentIndex (si_result info) = 0 \<and> rr_db (si_result info) = GetDB rule \<and>
     rr_table (si_result info) = route_table rule"

lemma record_one_table:
  assumes "RecordShardTable (NewTableAliasStmtInfo db sql rt) d t a = Ok (r, info)"
    "GetShardRule rt db t = Some rule" "GetType rule \<noteq> ShardGlobal"
  shows "on_rule rt t rule info \<and> rr_indexes (si_result info) = GetSubTableIndexes rule"
  using assms
  by (auto simp: RecordShardTable_def StmtInfo_RecordShardTable_def getShardRule_def checkAndGetDB_def
      NewTableAliasStmtInfo_def checkStmtRouteResult_def NewRouteResult_def setTableAlias_def on_rule_def Let_def
      split: if_splits option.splits)

lemma one_table_refs:
  assumes "modify_table_refs env pick (NewTableAliasStmtInfo db sql rt) refs = Ok (refs', info)" "one_table n a refs"
    "GetShardRule rt db (ci_L (tn_Name n)) = Some rule" "GetType rule \<noteq> ShardGlobal"
  shows "on_rule rt (ci_L (tn_Name n)) rule info \<and> rr_indexes (si_result info) = GetSubTableIndexes rule"
proof -
  obtain tp us natural straight where refs: "refs = Some (RJoin (Some (RTableSource (RTableName n) a)) None tp None us natural straight)"
    using assms(2) unfolding one_table_def by blast
  obtain d r where "RecordShardTable (NewTableAliasStmtInfo db sql rt) d (ci_L (tn_Name n)) (ci_L a) = Ok (r, info)"
    using assms(1) unfolding refs
    by (auto simp: modify_table_refs_def handleTableRefs_def rewriteTableSource_def rewriteTableNameInTableSource_def
        NeedCreateTableNameDecorator_def getTableInfoFromTableName_def join_rest_def)
  from record_one_table [OF this assms(3,4)] show ?thesis .
qed

lemma on_rule_where:
  assumes "handleWhere env p e = Ok (e', p')" "on_rule rt t rule p"
  shows "on_rule rt t rule p'"
proof (cases e)
  case (Some c)
  then obtain has result d q where c: "handleComparisonExpr env p c = Ok (has, result, d, q)"
    "p' = (if has then q\<lparr>si_result := rr_Inter (si_result q) result\<rparr> else q)"
    using assms(1) by (auto simp: handleWhere_def handle_condition_def)
  obtain hint where "q = p\<lparr>si_hintPhyDB := hint\<rparr>" using handle_info [OF c(1)] by blast
  with c(2) assms(2) show ?thesis by (auto simp: on_rule_def rr_Inter_def)
qed (use assms in \<open>simp add: handleWhere_def\<close>)

lemma on_rule_global: "on_rule rt t rule p \<Longrightarrow> postHandleGlobalTableRouteResultInModify pick p = p"
  by (simp add: on_rule_def postHandleGlobalTableRouteResultInModify_def)

lemma on_rule_assignment:
  assumes "assignment_column p a = Ok a'" "on_rule rt t rule p"
  shows "ci_L (cn_Name (as_Column a')) \<noteq> GetShardingColumn rule \<and> as_Expr a' = as_Expr a \<and>
    as_Column a' = removeSchemaAndTableInfoInColumnName (as_Column a)"
  using assms
  by (auto simp: assignment_column_def on_rule_def needCreateColumnNameDecorator_def GetSettedRuleFromColumnInfo_def
      getSettedRuleByColumnName_def getSettedRuleFromTable_def getColumnInfoFromColumnName_def
      removeSchemaAndTableInfoInColumnName_def Let_def split: if_splits option.splits)

lemma number_config_type: "parseRule cfg = Ok (base_of rule) \<Longrightarrow> number_config cfg \<Longrightarrow> GetType rule \<noteq> ShardGlobal"
  using parseRule_fields [of cfg "base_of rule"]
  by (auto simp: rule_methods number_config_def numbered_type_def IsMycatShardingRule_def shard_types)

text \<open>The rows of a condition on one table are found by the statements sent.\<close>

lemma one_table_exact:
  assumes w: "handleWhere env p0 (Some e) = Ok (e', p1)" and o: "on_rule rt t rule p0"
    and idx: "rr_indexes (si_result p0) = GetSubTableIndexes rule"
    and cfg: "parseRule cfg = Ok (base_of rule)" "number_config cfg"
    and pl: "plain e" and cov: "covered cmp int_datum True p0 e" and ac: "accepted e" "in_outside_or p0 e" and row: "row_in env int_datum p0 val i"
    and cmp: "\<And>op x y b c. is_cmp op \<Longrightarrow> cmp op (DInt64 x b) (DInt64 y c) \<longleftrightarrow> int_rel op x y"
    and g: "generateShardingSQLs restore (si_result p1) rt = Ok (sqls, rr)"
  shows "\<exists>c. e' = Some c \<and> rr = si_result p1 \<and>
    (if sent restore rr rt sqls i then evaluates cmp tv val (resolve i c) = Some (holds cmp tv val e) else \<not> holds cmp tv val e)"
proof -
  obtain c where c: "e' = Some c" "handle_condition env p0 e = Ok (c, p1)" using w by (auto simp: handleWhere_def)
  have "wf_info p0" using o by (simp add: wf_info_def on_rule_def)
  moreover have "\<forall>(t, r) \<in> set (si_tableRules p0). \<exists>cfg. parseRule cfg = Ok (base_of r) \<and> number_config cfg"
    using o cfg by (auto simp: on_rule_def)
  ultimately have rt: "routed env cmp int_datum True p0 val i" using number_routed row cmp by blast
  have "ascending (rr_indexes (si_result p0))"
    using number_config_rule(2) [OF cfg] idx by (simp add: rule_methods)
  moreover have "i \<in> set (rr_indexes (si_result p0))" using row o idx by (simp add: row_in_def on_rule_def)
  ultimately have "if i \<in> set (rr_indexes (si_result p1)) then evaluates cmp tv val (resolve i c) = Some (holds cmp tv val e)
      else \<not> holds cmp tv val e"
    using condition_exact [OF c(2) rt cov pl ac] by blast
  moreover have "rr_currentIndex (si_result p1) = 0" using on_rule_where [OF w o] by (simp add: on_rule_def)
  ultimately show ?thesis using generated_sent [OF g] c(1) by auto
qed


definition example_delete :: "ExprNode option \<Rightarrow> Limit option \<Rightarrow> DeleteStmt" where
  "example_delete wher limit =
     \<lparr>ds_TableRefs = example_from, ds_Tables = None, ds_Where = wher, ds_Order = None, ds_Limit = limit,
      ds_Priority = NoPriority, ds_IgnoreErr = False, ds_Quick = False, ds_IsMultiTable = False, ds_BeforeFrom = False,
      ds_TableHints = []\<rparr>"

definition example_table :: TableName where
  "example_table = \<lparr>tn_Schema = NewCIStr [], tn_Name = NewCIStr ''tbl'', tn_IndexHints = [], tn_PartitionNames = []\<rparr>"

lemma example_one_table: "one_table example_table (NewCIStr []) example_from"
  by (auto simp: one_table_def example_from_def example_table_def)

lemma example_row_in:
  assumes "si_tableRules info = [(''tbl'', RBase example_base)]" "si_globalTableRules info = []"
  shows "row_in list_treemap int_datum info (\<lambda>_. DInt64 7 False) 3"
proof -
  have "br_ruleType example_base \<noteq> ShardGlobal" by code_simp
  then have w: "wf_info info" using assms by (simp add: wf_info_def rule_methods)
  have "rule = RBase example_base" if "sharding_rule info c = Some rule" for c rule
    using sharding_rule_in [OF w that] assms(1) by simp
  moreover have "FindForKey list_treemap (br_shard example_base) (key_of (DInt64 7 False)) = Ok 3" by code_simp
  moreover have "int_datum (DInt64 7 False)" "3 \<in> set (br_subTableIndexes example_base)" by code_simp+
  ultimately show ?thesis using assms(1) unfolding row_in_def by (fastforce simp: rule_methods)
qed

lemma example_modify:
  "number_config example_cfg" "parseRule example_cfg = Ok (base_of (RBase example_base))" "plain example_cond" "accepted example_cond"
  "holds int_cmp (\<lambda>_. False) (\<lambda>_. DInt64 7 False) example_cond" "ci_L (tn_Name example_table) = ''tbl''"
  "\<forall>op x y b c. is_cmp op \<longrightarrow> (int_cmp op (DInt64 x b) (DInt64 y c) \<longleftrightarrow> int_rel op x y)"
  by (code_simp, use example_rule in \<open>simp add: example_base_def\<close>, code_simp, code_simp, code_simp, code_simp, simp)



definition example_update :: "string \<Rightarrow> UpdateStmt" where
  "example_update c =
     \<lparr>us_TableRefs = example_from,
      us_List = [\<lparr>as_Column = \<lparr>cn_Schema = NewCIStr [], cn_Table = NewCIStr ''tbl'', cn_Name = NewCIStr c\<rparr>, as_Expr = int_lit 1\<rparr>],
      us_Where = Some example_cond, us_Order = None, us_Limit = None, us_Priority = NoPriority, us_IgnoreErr = False,
      us_TableHints = []\<rparr>"


section \<open>Limits and the sharding column\<close>

text \<open>\<^verbatim>\<open>id IN (7) OR v = 1\<close> is sent with an empty list to the tables that \<open>7\<close> does not belong to, which the database
  rejects as a syntax error.\<close>

lemma delete_or_in_rejected:
  "(case NewRouter example_ns of
      Ok rt \<Rightarrow>
        (case HandleDeletePlan list_treemap hd (NewDeletePlan (example_delete (Some or_in_cond) None) ''db'' [] rt) of
           Ok p \<Rightarrow> sql_at (dp_sqls p) ''slice-0'' ''db_0'' = [''DELETE FROM `tbl` WHERE `id` IN () OR `v`=1'']
         | _ \<Rightarrow> False)
    | _ \<Rightarrow> False)"
  by code_simp

text \<open>An assignment to the sharding column is refused.\<close>

lemma update_sharding_column_refused:
  "(case NewRouter example_ns of
      Ok rt \<Rightarrow> \<not> is_ok (HandleUpdatePlan list_treemap hd (NewUpdatePlan (example_update ''ID'') ''db'' [] rt)) | _ \<Rightarrow> False)"
  by code_simp

text \<open>\<^verbatim>\<open>DELETE FROM tbl LIMIT 1\<close> is sent with its limit to every table and deletes up to four rows.\<close>

lemma delete_limit_per_table:
  "(case NewRouter example_ns of
      Ok rt \<Rightarrow>
        (case HandleDeletePlan list_treemap hd
                (NewDeletePlan (example_delete None (Some \<lparr>lm_Count = EValue (DUint64 1), lm_Offset = None\<rparr>)) ''db'' [] rt) of
           Ok p \<Rightarrow> list_all (\<lambda>(sl, db). sql_at (dp_sqls p) sl db = [''DELETE FROM `tbl` LIMIT 1''])
                     [(''slice-0'', ''db_0''), (''slice-0'', ''db_1''), (''slice-1'', ''db_2''), (''slice-1'', ''db_3'')]
         | _ \<Rightarrow> False)
    | _ \<Rightarrow> False)"
  by code_simp

end
