(* ===== verification/Merge.thy ===== *)
theory Merge
  imports Plan_Select Encoding "HOL-Library.Char_ord" "HOL-Library.List_Lexorder"
begin

text \<open>
  \<^verbatim>\<open>src/proxy/plan/merge_result.go\<close> and \<^verbatim>\<open>src/mysql/resultset_sort.go\<close>: the results of the shards become
  one result. Rows are made distinct, grouped, aggregated, sorted, cut to the limit, freed of the added
  columns and encoded again.

  Three things are arguments. The arithmetic of \<^verbatim>\<open>float64\<close> is a record of operations on a type \<open>'f\<close>. The
  order in which Go visits a map is a function on its keys. \<^verbatim>\<open>sort.Sort\<close>, which is not stable, is a
  function that gives the final order of the positions.
\<close>

unbundle bit_operations_syntax

section \<open>Values\<close>

record 'f float64 =
  fl_of_int :: "int \<Rightarrow> 'f"
  fl_to_i64 :: "'f \<Rightarrow> int"
  fl_to_u64 :: "'f \<Rightarrow> int"
  fl_add :: "'f \<Rightarrow> 'f \<Rightarrow> 'f"
  fl_less :: "'f \<Rightarrow> 'f \<Rightarrow> bool"
  fl_parse :: "string \<Rightarrow> 'f res"
  fl_format :: "'f \<Rightarrow> string"

text \<open>An \<^verbatim>\<open>interface{}\<close>; the text of a \<^verbatim>\<open>[]byte\<close> is kept as a string. The last four constructors stand
  for the narrower types of \<^verbatim>\<open>formatValue\<close> and for everything else.\<close>

datatype 'f val =
    VNil
  | VInt64 int
  | VUint64 int
  | VFloat64 'f
  | VString string
  | VBytes string
  | VIntN int
  | VUintN int
  | VFloat32 'f
  | VOther

fun is_nil :: "'f val \<Rightarrow> bool" where
  "is_nil VNil = True"
| "is_nil _ = False"

type_synonym 'f ResultRow = "'f val list"

definition GetInt :: "'f float64 \<Rightarrow> 'f ResultRow \<Rightarrow> int \<Rightarrow> int res" where
  "GetInt F r column =
     andThen (at r column) (\<lambda>d.
       case d of
         VUint64 v \<Rightarrow> Ok (i64 v)
       | VInt64 v \<Rightarrow> Ok v
       | VFloat64 v \<Rightarrow> Ok (fl_to_i64 F v)
       | VString v \<Rightarrow> val_or_err (parseInt10 v)
       | VBytes v \<Rightarrow> val_or_err (parseInt10 v)
       | VNil \<Rightarrow> Ok 0
       | _ \<Rightarrow> Err (ErrMsg ''data type''))"

definition GetUint :: "'f float64 \<Rightarrow> 'f ResultRow \<Rightarrow> int \<Rightarrow> int res" where
  "GetUint F r column =
     andThen (at r column) (\<lambda>d.
       case d of
         VUint64 v \<Rightarrow> Ok v
       | VInt64 v \<Rightarrow> Ok (u64 v)
       | VFloat64 v \<Rightarrow> Ok (fl_to_u64 F v)
       | VString v \<Rightarrow> val_or_err (parseUint10 v)
       | VBytes v \<Rightarrow> val_or_err (parseUint10 v)
       | VNil \<Rightarrow> Ok 0
       | _ \<Rightarrow> Err (ErrMsg ''data type''))"

definition GetFloat :: "'f float64 \<Rightarrow> 'f ResultRow \<Rightarrow> int \<Rightarrow> 'f res" where
  "GetFloat F r column =
     andThen (at r column) (\<lambda>d.
       case d of
         VFloat64 v \<Rightarrow> Ok v
       | VUint64 v \<Rightarrow> Ok (fl_of_int F v)
       | VInt64 v \<Rightarrow> Ok (fl_of_int F v)
       | VString v \<Rightarrow> fl_parse F v
       | VBytes v \<Rightarrow> fl_parse F v
       | VNil \<Rightarrow> Ok (fl_of_int F 0)
       | _ \<Rightarrow> Err (ErrMsg ''data type''))"

definition GetValue :: "'f ResultRow \<Rightarrow> int \<Rightarrow> 'f val res" where
  "GetValue r column = at r column"

definition SetValue :: "'f ResultRow \<Rightarrow> int \<Rightarrow> 'f val \<Rightarrow> 'f ResultRow res" where
  "SetValue r column v = (if 0 \<le> column \<and> column < int (length r) then Ok (r[nat column := v]) else Panic PIndex)"

section \<open>Aggregates\<close>

definition in_rows :: "int \<Rightarrow> 'f ResultRow \<Rightarrow> 'f ResultRow \<Rightarrow> 'a res \<Rightarrow> 'a res" where
  "in_rows idx from to k =
     (if idx \<ge> int (length from) \<or> idx \<ge> int (length to) then Err (ErrMsg ''field index out of bound'') else k)"

definition count_MergeTo :: "'f float64 \<Rightarrow> int \<Rightarrow> 'f ResultRow \<Rightarrow> 'f ResultRow \<Rightarrow> 'f ResultRow res" where
  "count_MergeTo F idx from to =
     in_rows idx from to
       (andThen (wrap ''get from int value error'' (GetInt F from idx)) (\<lambda>valueToMerge.
        andThen (wrap ''get to int value error'' (GetInt F to idx)) (\<lambda>originValue.
          SetValue to idx (VInt64 (i64 (originValue + valueToMerge))))))"

definition sumToInt64 :: "'f float64 \<Rightarrow> int \<Rightarrow> 'f ResultRow \<Rightarrow> 'f ResultRow \<Rightarrow> 'f ResultRow res" where
  "sumToInt64 F idx from to =
     andThen (wrap ''get from int value error'' (GetInt F from idx)) (\<lambda>valueToMerge.
     andThen (wrap ''get to int value error'' (GetInt F to idx)) (\<lambda>originValue.
       SetValue to idx (VInt64 (i64 (originValue + valueToMerge)))))"

definition sumToUint64 :: "'f float64 \<Rightarrow> int \<Rightarrow> 'f ResultRow \<Rightarrow> 'f ResultRow \<Rightarrow> 'f ResultRow res" where
  "sumToUint64 F idx from to =
     andThen (wrap ''get from int value error'' (GetUint F from idx)) (\<lambda>valueToMerge.
     andThen (wrap ''get to int value error'' (GetUint F to idx)) (\<lambda>originValue.
       SetValue to idx (VUint64 (u64 (originValue + valueToMerge)))))"

definition sumToFloat64 :: "'f float64 \<Rightarrow> int \<Rightarrow> 'f ResultRow \<Rightarrow> 'f ResultRow \<Rightarrow> 'f ResultRow res" where
  "sumToFloat64 F idx from to =
     andThen (wrap ''get from int value error'' (GetFloat F from idx)) (\<lambda>valueToMerge.
     andThen (wrap ''get to int value error'' (GetFloat F to idx)) (\<lambda>originValue.
       SetValue to idx (VFloat64 (fl_add F originValue valueToMerge))))"

definition sum_MergeTo :: "'f float64 \<Rightarrow> int \<Rightarrow> 'f ResultRow \<Rightarrow> 'f ResultRow \<Rightarrow> 'f ResultRow res" where
  "sum_MergeTo F idx from to =
     in_rows idx from to
       (andThen (GetValue from idx) (\<lambda>fromValueI.
        andThen (GetValue to idx) (\<lambda>toValueI.
          case fromValueI of
            VNil \<Rightarrow> Ok to
          | _ \<Rightarrow>
              (case toValueI of
                 VInt64 _ \<Rightarrow> sumToInt64 F idx from to
               | VUint64 _ \<Rightarrow> sumToUint64 F idx from to
               | VFloat64 _ \<Rightarrow> sumToFloat64 F idx from to
               | VString _ \<Rightarrow> sumToFloat64 F idx from to
               | VBytes _ \<Rightarrow> sumToFloat64 F idx from to
               | VNil \<Rightarrow> sumToFloat64 F idx from to
               | _ \<Rightarrow> Err (ErrMsg ''cannot sum value'')))))"

text \<open>\<open>replaces F isMax v t\<close>: whether \<open>v\<close> takes the place of the value \<open>t\<close>; a failed type assertion panics.\<close>

definition not_of_type :: "'a res" where
  "not_of_type = Panic (PMsg ''interface conversion'')"

fun replaces :: "'f float64 \<Rightarrow> bool \<Rightarrow> 'f val \<Rightarrow> 'f val \<Rightarrow> bool res" where
  "replaces F isMax v VNil = Ok True"
| "replaces F isMax v (VInt64 t) = (case v of VInt64 s \<Rightarrow> Ok (if isMax then s > t else s < t) | _ \<Rightarrow> not_of_type)"
| "replaces F isMax v (VUint64 t) = (case v of VUint64 s \<Rightarrow> Ok (if isMax then s > t else s < t) | _ \<Rightarrow> not_of_type)"
| "replaces F isMax v (VFloat64 t) =
     (case v of VFloat64 s \<Rightarrow> Ok (if isMax then fl_less F t s else fl_less F s t) | _ \<Rightarrow> not_of_type)"
| "replaces F isMax v (VString t) = (case v of VString s \<Rightarrow> Ok (if isMax then s > t else s < t) | _ \<Rightarrow> not_of_type)"
| "replaces F isMax v _ = Err (ErrMsg ''cannot compare value'')"

definition extremum_MergeTo :: "'f float64 \<Rightarrow> bool \<Rightarrow> int \<Rightarrow> 'f ResultRow \<Rightarrow> 'f ResultRow \<Rightarrow> 'f ResultRow res" where
  "extremum_MergeTo F isMax idx from to =
     in_rows idx from to
       (andThen (GetValue from idx) (\<lambda>fromValueI.
        andThen (GetValue to idx) (\<lambda>toValueI.
          case fromValueI of
            VNil \<Rightarrow> Ok to
          | _ \<Rightarrow> andThen (replaces F isMax fromValueI toValueI) (\<lambda>b. if b then SetValue to idx fromValueI else Ok to))))"

fun MergeTo :: "'f float64 \<Rightarrow> AggregateFuncMerger \<Rightarrow> 'f ResultRow \<Rightarrow> 'f ResultRow \<Rightarrow> 'f ResultRow res" where
  "MergeTo F (AggregateFuncCountMerger idx) from to = count_MergeTo F idx from to"
| "MergeTo F (AggregateFuncSumMerger idx) from to = sum_MergeTo F idx from to"
| "MergeTo F (AggregateFuncMaxMerger idx) from to = extremum_MergeTo F True idx from to"
| "MergeTo F (AggregateFuncMinMerger idx) from to = extremum_MergeTo F False idx from to"

section \<open>Results\<close>

text \<open>\<^verbatim>\<open>mysql.Result\<close> with its \<^verbatim>\<open>Resultset\<close>; of a field only what the merging reads, its type and flags.\<close>

record Field =
  fd_Type :: int
  fd_Flag :: int

record 'f Result =
  rs_Status :: int
  rs_InsertID :: int
  rs_AffectedRows :: int
  rs_Fields :: "Field list"
  rs_Values :: "'f ResultRow list"
  rs_RowDatas :: "byte list list"

definition exec_step :: "int \<times> int \<times> int \<Rightarrow> 'f Result \<Rightarrow> int \<times> int \<times> int" where
  "exec_step r v =
     (case r of (status, affected, insertID) \<Rightarrow>
        (status OR rs_Status v, u64 (affected + rs_AffectedRows v),
         if insertID = 0 then rs_InsertID v
         else if rs_InsertID v \<noteq> 0 \<and> insertID > rs_InsertID v then rs_InsertID v else insertID))"

text \<open>\<^verbatim>\<open>MergeExecResult\<close>: status, affected rows and insert id of the merged result.\<close>

definition MergeExecResult :: "'f Result list \<Rightarrow> int \<times> int \<times> int" where
  "MergeExecResult rs = foldl exec_step (0, 0, 0) rs"

definition mergeMultiResultSet :: "'f Result list \<Rightarrow> 'f Result res" where
  "mergeMultiResultSet rs =
     (case rs of
        [] \<Rightarrow> Panic PIndex
      | r # rs \<Rightarrow>
          Ok (foldl (\<lambda>r v. r\<lparr>rs_Status := rs_Status r OR rs_Status v, rs_Values := rs_Values r @ rs_Values v,
                             rs_RowDatas := rs_RowDatas r @ rs_RowDatas v\<rparr>) r rs))"

fun formatValue :: "'f float64 \<Rightarrow> 'f val \<Rightarrow> string res" where
  "formatValue F VNil = Ok ''NULL''"
| "formatValue F (VIntN n) = Ok (itoa n)"
| "formatValue F (VInt64 n) = Ok (itoa n)"
| "formatValue F (VUintN n) = Ok (itoa n)"
| "formatValue F (VUint64 n) = Ok (itoa n)"
| "formatValue F (VFloat32 x) = Ok (fl_format F x)"
| "formatValue F (VFloat64 x) = Ok (fl_format F x)"
| "formatValue F (VBytes s) = Ok s"
| "formatValue F (VString s) = Ok s"
| "formatValue F VOther = Err (ErrMsg ''invalid type'')"

fun generateMapKey :: "'f float64 \<Rightarrow> 'f val list \<Rightarrow> string res" where
  "generateMapKey F [] = Ok []"
| "generateMapKey F (v # vs) =
     andThen (formatValue F v) (\<lambda>b. andThen (generateMapKey F vs) (\<lambda>rest. Ok (b @ ''+'' @ rest)))"

text \<open>How many more columns the result has than the statement: a wildcard stands for several.\<close>

definition deltaColumnCount :: "SelectPlan \<Rightarrow> 'f Result \<Rightarrow> int" where
  "deltaColumnCount p r = int (length (rs_Fields r)) - sp_columnCount p"

fun distinct_loop :: "'f float64 \<Rightarrow> int \<Rightarrow> string list \<Rightarrow> 'f ResultRow list \<Rightarrow> 'f ResultRow list res" where
  "distinct_loop F colCnt seen [] = Ok []"
| "distinct_loop F colCnt seen (v # vs) =
     andThen (slice_of v 0 colCnt) (\<lambda>keySlice.
     andThen (generateMapKey F keySlice) (\<lambda>mk.
       if mk \<in> set seen then distinct_loop F colCnt seen vs
       else andThen (distinct_loop F colCnt (mk # seen) vs) (\<lambda>vs. Ok (v # vs))))"

definition removeDistinctRowInResult :: "'f float64 \<Rightarrow> SelectPlan \<Rightarrow> 'f Result \<Rightarrow> 'f Result res" where
  "removeDistinctRowInResult F p r =
     andThen (distinct_loop F (sp_originColumnCount p + deltaColumnCount p r) [] (rs_Values r)) (\<lambda>values.
       if length values = length (rs_Values r) then Ok r else Ok (r\<lparr>rs_RowDatas := [], rs_Values := values\<rparr>))"

fun merge_all :: "'f float64 \<Rightarrow> (int \<times> AggregateFuncMerger) list \<Rightarrow> 'f ResultRow \<Rightarrow> 'f ResultRow \<Rightarrow> 'f ResultRow res" where
  "merge_all F [] from to = Ok to"
| "merge_all F ((i, mfunc) # fs) from to = andThen (wrap ''MergeTo error'' (MergeTo F mfunc from to)) (merge_all F fs from)"

fun group_loop ::
  "'f float64 \<Rightarrow> SelectPlan \<Rightarrow> int \<Rightarrow> (string \<times> 'f ResultRow) list \<Rightarrow> 'f ResultRow list \<Rightarrow> (string \<times> 'f ResultRow) list res" where
  "group_loop F p delta m [] = Ok m"
| "group_loop F p delta m (v # vs) =
     andThen (all_ok (map (\<lambda>index. at v (index + delta)) (sp_groupByColumn p))) (\<lambda>keySlice.
     andThen (generateMapKey F keySlice) (\<lambda>mk.
       case map_of m mk of
         None \<Rightarrow> group_loop F p delta (m @ [(mk, v)]) vs
       | Some to \<Rightarrow> andThen (merge_all F (sp_aggregateFuncs p) v to) (\<lambda>to. group_loop F p delta (AList.update mk to m) vs)))"

definition buildResultFromResultMap :: "(string list \<Rightarrow> string list) \<Rightarrow> 'f Result \<Rightarrow> (string \<times> 'f ResultRow) list \<Rightarrow> 'f Result" where
  "buildResultFromResultMap order r resultMap =
     (if resultMap = [] then r
      else r\<lparr>rs_Values := map (\<lambda>k. the (map_of resultMap k)) (order (map fst resultMap)), rs_RowDatas := []\<rparr>)"

definition buildSelectGroupByResult ::
  "'f float64 \<Rightarrow> (string list \<Rightarrow> string list) \<Rightarrow> SelectPlan \<Rightarrow> 'f Result \<Rightarrow> 'f Result res" where
  "buildSelectGroupByResult F order p r =
     andThen (group_loop F p (deltaColumnCount p r) [] (rs_Values r)) (\<lambda>resultMap.
       Ok (buildResultFromResultMap order r resultMap))"

fun only_loop :: "'f float64 \<Rightarrow> (int \<times> AggregateFuncMerger) list \<Rightarrow> 'f ResultRow \<Rightarrow> 'f ResultRow list \<Rightarrow> 'f ResultRow res" where
  "only_loop F fs cur [] = Ok cur"
| "only_loop F fs cur (v # vs) = andThen (merge_all F fs v cur) (\<lambda>cur. only_loop F fs cur vs)"

text \<open>Without any row the appended row is nil.\<close>

definition buildSelectOnlyResult :: "'f float64 \<Rightarrow> SelectPlan \<Rightarrow> 'f Result \<Rightarrow> 'f Result res" where
  "buildSelectOnlyResult F p r =
     (if sp_aggregateFuncs p = [] then Ok r
      else andThen (case rs_Values r of [] \<Rightarrow> Ok [] | v # vs \<Rightarrow> only_loop F (sp_aggregateFuncs p) v vs) (\<lambda>currRet.
        Ok (r\<lparr>rs_Values := [currRet], rs_RowDatas := []\<rparr>)))"

definition trimExtraFields :: "SelectPlan \<Rightarrow> 'f Result \<Rightarrow> 'f Result res" where
  "trimExtraFields p r =
     (let extraFieldStartIndex = deltaColumnCount p r + sp_originColumnCount p
      in if extraFieldStartIndex \<noteq> - 1
         then andThen (slice_of (rs_Fields r) 0 extraFieldStartIndex) (\<lambda>flds.
              andThen (all_ok (map (\<lambda>v. slice_of v 0 extraFieldStartIndex) (rs_Values r))) (\<lambda>values.
                Ok (r\<lparr>rs_Fields := flds, rs_Values := values\<rparr>)))
         else Ok r)"

section \<open>Sorting\<close>

text \<open>Minus one, zero or one, as \<^verbatim>\<open>bytes.Compare\<close> and the comparisons of numbers give.\<close>

definition three_way :: "('a \<Rightarrow> 'a \<Rightarrow> bool) \<Rightarrow> 'a \<Rightarrow> 'a \<Rightarrow> int" where
  "three_way lt a b = (if lt a b then - 1 else if lt b a then 1 else 0)"

fun cmpValue :: "'f float64 \<Rightarrow> 'f val \<Rightarrow> 'f val \<Rightarrow> int res" where
  "cmpValue F VNil v2 = Ok (if is_nil v2 then 0 else - 1)"
| "cmpValue F (VString v) v2 =
     (case v2 of VNil \<Rightarrow> Ok 1 | VString s \<Rightarrow> Ok (three_way (<) v s) | _ \<Rightarrow> not_of_type)"
| "cmpValue F (VBytes v) v2 =
     (case v2 of VNil \<Rightarrow> Ok 1 | VBytes s \<Rightarrow> Ok (three_way (<) v s) | _ \<Rightarrow> not_of_type)"
| "cmpValue F (VInt64 v) v2 =
     (case v2 of VNil \<Rightarrow> Ok 1 | VInt64 s \<Rightarrow> Ok (three_way (<) v s) | _ \<Rightarrow> not_of_type)"
| "cmpValue F (VUint64 v) v2 =
     (case v2 of VNil \<Rightarrow> Ok 1 | VUint64 s \<Rightarrow> Ok (three_way (<) v s) | _ \<Rightarrow> not_of_type)"
| "cmpValue F (VFloat64 v) v2 =
     (case v2 of VNil \<Rightarrow> Ok 1 | VFloat64 s \<Rightarrow> Ok (three_way (fl_less F) v s) | _ \<Rightarrow> not_of_type)"
| "cmpValue F _ v2 = (if is_nil v2 then Ok 1 else Panic (PMsg ''invalid type''))"

text \<open>A sort key is a column and whether it is descending.\<close>

type_synonym SortKey = "int \<times> bool"

fun Less :: "'f float64 \<Rightarrow> SortKey list \<Rightarrow> 'f ResultRow \<Rightarrow> 'f ResultRow \<Rightarrow> bool res" where
  "Less F [] v1 v2 = Ok False"
| "Less F ((column, desc) # ks) v1 v2 =
     andThen (at v1 column) (\<lambda>a. andThen (at v2 column) (\<lambda>b. andThen (cmpValue F a b) (\<lambda>c.
       let v = (if desc then - c else c)
       in if v < 0 then Ok True else if v > 0 then Ok False else Less F ks v1 v2)))"

text \<open>\<^verbatim>\<open>sort.Sort\<close>: from the comparison of positions and their number to the final order of the positions.\<close>

type_synonym sorter = "(nat \<Rightarrow> nat \<Rightarrow> bool res) \<Rightarrow> nat \<Rightarrow> nat list res"

definition SortWithoutColumnName :: "'f float64 \<Rightarrow> sorter \<Rightarrow> SortKey list \<Rightarrow> 'f Result \<Rightarrow> 'f Result res" where
  "SortWithoutColumnName F srt sk r =
     andThen (srt (\<lambda>i j. Less F sk (rs_Values r ! i) (rs_Values r ! j)) (length (rs_Values r))) (\<lambda>perm.
       Ok (r\<lparr>rs_Values := map ((!) (rs_Values r)) perm,
             rs_RowDatas := (if rs_RowDatas r = [] then [] else map ((!) (rs_RowDatas r)) perm)\<rparr>))"

definition sortSelectResult :: "'f float64 \<Rightarrow> sorter \<Rightarrow> SelectPlan \<Rightarrow> 'f Result \<Rightarrow> 'f Result res" where
  "sortSelectResult F srt p r =
     (if \<not> HasOrderBy p then Ok r
      else andThen (all_ok (map (\<lambda>i. andThen (at (sp_orderByColumn p) (int i)) (\<lambda>c.
               Ok (c + deltaColumnCount p r, sp_orderByDirections p ! i))) [0..<length (sp_orderByDirections p)])) (\<lambda>sortKeys.
             SortWithoutColumnName F srt sortKeys r))"

section \<open>Limit and encoding\<close>

definition limitSelectResult :: "SelectPlan \<Rightarrow> 'f Result \<Rightarrow> 'f Result res" where
  "limitSelectResult p r =
     (if \<not> HasLimit p then Ok r
      else case GetLimitValue p of (start, count) \<Rightarrow>
        let rowLen = int (length (rs_Values r)); finish = min (i64 (start + count)) rowLen
        in if start \<ge> rowLen then Ok (r\<lparr>rs_RowDatas := [], rs_Values := []\<rparr>)
           else andThen (slice_of (rs_Values r) start finish) (\<lambda>values. Ok (r\<lparr>rs_Values := values\<rparr>)))"

definition bytes_of :: "string \<Rightarrow> byte list" where
  "bytes_of s = map of_char s"

fun row_data :: "'f float64 \<Rightarrow> byte list \<Rightarrow> 'f ResultRow \<Rightarrow> byte list res" where
  "row_data F row [] = Ok row"
| "row_data F row (value # vs) =
     (case value of
        VNil \<Rightarrow> row_data F (row @ [0xfb]) vs
      | _ \<Rightarrow> andThen (formatValue F value) (\<lambda>b. row_data F (AppendLenEncStringBytes row (bytes_of b)) vs))"

definition GenerateSelectResultRowData :: "'f float64 \<Rightarrow> 'f Result \<Rightarrow> 'f Result res" where
  "GenerateSelectResultRowData F r =
     andThen (all_ok (map (\<lambda>vs. if length vs \<noteq> length (rs_Fields r) then Err (ErrMsg ''column count'') else row_data F [] vs)
       (rs_Values r))) (\<lambda>rows. Ok (r\<lparr>rs_RowDatas := rows\<rparr>))"

text \<open>\<open>grouped\<close>: whether the statement has a \<^verbatim>\<open>GROUP BY\<close> clause.\<close>

definition MergeSelectResult ::
  "'f float64 \<Rightarrow> (string list \<Rightarrow> string list) \<Rightarrow> sorter \<Rightarrow> SelectPlan \<Rightarrow> bool \<Rightarrow> 'f Result list \<Rightarrow> 'f Result res" where
  "MergeSelectResult F order srt p grouped rs =
     andThen (mergeMultiResultSet rs) (\<lambda>r.
     andThen (if sp_distinct p then removeDistinctRowInResult F p r else Ok r) (\<lambda>r.
     andThen (if grouped then buildSelectGroupByResult F order p r else buildSelectOnlyResult F p r) (\<lambda>r.
     andThen (sortSelectResult F srt p r) (\<lambda>r.
     andThen (limitSelectResult p r) (\<lambda>r.
     andThen (wrap ''trimExtraFields error'' (trimExtraFields p r)) (\<lambda>r.
       wrap ''generate RowData error'' (GenerateSelectResultRowData F r)))))))"

end
