(* ===== verification/Merge_Order.thy ===== *)
theory Merge_Order
  imports Merge "HOL-Library.Multiset"
begin

text \<open>
  Sorting and limits: the comparison of rows is a total preorder on rows of one shape, and the first
  rows of every shard are enough for the first rows of all.
\<close>

section \<open>Lists sorted by a total preorder\<close>

definition total_preorder :: "'a set \<Rightarrow> ('a \<Rightarrow> 'a \<Rightarrow> bool) \<Rightarrow> bool" where
  "total_preorder A le \<longleftrightarrow>
     (\<forall>a \<in> A. \<forall>b \<in> A. le a b \<or> le b a) \<and> (\<forall>a \<in> A. \<forall>b \<in> A. \<forall>c \<in> A. le a b \<longrightarrow> le b c \<longrightarrow> le a c)"

lemma total_preorderD:
  assumes "total_preorder A le"
  shows "a \<in> A \<Longrightarrow> b \<in> A \<Longrightarrow> le a b \<or> le b a"
    and "le a b \<Longrightarrow> le b c \<Longrightarrow> a \<in> A \<Longrightarrow> b \<in> A \<Longrightarrow> c \<in> A \<Longrightarrow> le a c"
  using assms unfolding total_preorder_def by blast+

fun insert_by :: "('a \<Rightarrow> 'a \<Rightarrow> bool) \<Rightarrow> 'a \<Rightarrow> 'a list \<Rightarrow> 'a list" where
  "insert_by le x [] = [x]"
| "insert_by le x (y # ys) = (if le x y then x # y # ys else y # insert_by le x ys)"

lemma mset_insert_by [simp]: "mset (insert_by le x ys) = add_mset x (mset ys)"
  by (induction ys) auto

lemma set_insert_by [simp]: "set (insert_by le x ys) = insert x (set ys)"
  by (induction ys) auto

lemma sorted_insert_by:
  assumes "total_preorder A le" "x \<in> A" "set ys \<subseteq> A" "sorted_wrt le ys"
  shows "sorted_wrt le (insert_by le x ys)"
  using assms(3,4)
proof (induction ys)
  case (Cons y ys)
  have ys: "\<forall>z \<in> set ys. le y z" "y \<in> A" "set ys \<subseteq> A" using Cons.prems by auto
  show ?case
  proof (cases "le x y")
    case True
    have "\<forall>z \<in> set ys. le x z" using True ys assms(1,2) unfolding total_preorder_def by blast
    then show ?thesis using True Cons.prems by auto
  next
    case False
    then have "le y x" using ys(2) assms(1,2) unfolding total_preorder_def by blast
    then show ?thesis using False Cons ys by auto
  qed
qed simp

lemma sorted_exists:
  assumes "total_preorder A le" "set xs \<subseteq> A"
  shows "\<exists>ys. mset ys = mset xs \<and> sorted_wrt le ys"
  using assms(2)
proof (induction xs)
  case (Cons x xs)
  then obtain ys where ys: "mset ys = mset xs" "sorted_wrt le ys" by auto
  then have "set ys \<subseteq> A" using Cons.prems by (metis set_mset_mset list.set_intros(2) subset_code(1))
  then have "sorted_wrt le (insert_by le x ys)" using sorted_insert_by assms(1) Cons.prems ys(2) by fastforce
  then show ?case using ys(1) by (intro exI [of _ "insert_by le x ys"]) simp
qed (intro exI [of _ "[]"], simp)

text \<open>If \<open>n\<close> elements of a sorted list are below \<open>d\<close>, then its first \<open>n\<close> elements are.\<close>

lemma first_below:
  assumes "total_preorder A le" "set zs \<subseteq> A" "d \<in> A" "sorted_wrt le zs" "n \<le> length (filter (\<lambda>z. le z d) zs)"
  shows "\<forall>z \<in> set (take n zs). le z d"
proof
  fix z
  assume z: "z \<in> set (take n zs)"
  show "le z d"
  proof (rule ccontr)
    assume no: "\<not> le z d"
    obtain k where k: "k < n" "k < length zs" "zs ! k = z" using z by (auto simp: in_set_conv_nth)
    have "\<not> le y d" if y: "y \<in> set (drop k zs)" for y
    proof
      assume yd: "le y d"
      obtain j where j': "j < length (drop k zs)" "drop k zs ! j = y" using y unfolding in_set_conv_nth by blast
      then have j: "k + j < length zs" "y = zs ! (k + j)" using k(2) by simp_all
      have mem: "y \<in> A" "z \<in> A" using assms(2) j k by auto
      have "y = z \<or> le z y"
        using j k sorted_wrt_nth_less [OF assms(4), of k "k + j"] by (cases j) simp_all
      then show False using no yd total_preorderD(2) [OF assms(1), of z y d] mem assms(3) by blast
    qed
    then have "filter (\<lambda>z. le z d) (drop k zs) = []" by (simp only: filter_empty_conv) blast
    then have "filter (\<lambda>z. le z d) zs = filter (\<lambda>z. le z d) (take k zs)"
      by (metis append.right_neutral append_take_drop_id filter_append)
    then have "length (filter (\<lambda>z. le z d) zs) \<le> k"
      by (metis length_filter_le length_take min.bounded_iff)
    then show False using assms(5) k(1) by simp
  qed
qed

lemma mset_take_drop_concat:
  "mset (concat xss) = mset (concat (map (take n) xss)) + mset (concat (map (drop n) xss))"
proof (induction xss)
  case (Cons xs xss)
  have "mset xs = mset (take n xs) + mset (drop n xs)" by (metis append_take_drop_id mset_append)
  then show ?case using Cons by simp
qed simp

lemma filter_concat_part:
  "xs \<in> set xss \<Longrightarrow> length (filter P (f xs)) \<le> length (filter P (concat (map f xss)))"
  by (induction xss) auto

lemma first_rows_suffice:
  assumes "total_preorder A le" "\<forall>xs \<in> set xss. sorted_wrt le xs \<and> set xs \<subseteq> A"
    "mset zs = mset (concat (map (take n) xss))" "sorted_wrt le zs"
  shows "\<exists>ys. mset ys = mset (concat xss) \<and> sorted_wrt le ys \<and> take n ys = take n zs"
proof -
  let ?lost = "concat (map (drop n) xss)"
  have "set zs = set (concat (map (take n) xss))" using assms(3) by (metis set_mset_mset)
  then have zsA: "set zs \<subseteq> A" using assms(2) by (auto dest: in_set_takeD)
  have lostA: "set ?lost \<subseteq> A" using assms(2) by (auto dest: in_set_dropD)
  have below: "le z d" if d: "d \<in> set ?lost" and z: "z \<in> set (take n zs)" for z d
  proof -
    obtain xs where xs: "xs \<in> set xss" "d \<in> set (drop n xs)" using d by auto
    then have len: "length (take n xs) = n" by (cases "n < length xs") auto
    have "sorted_wrt le (take n xs @ drop n xs)" using assms(2) xs(1) by simp
    then have "\<forall>x \<in> set (take n xs). le x d" unfolding sorted_wrt_append using xs(2) by blast
    then have "n \<le> length (filter (\<lambda>x. le x d) (take n xs))" using len by (simp add: filter_True)
    also have "... \<le> length (filter (\<lambda>x. le x d) (concat (map (take n) xss)))"
      using filter_concat_part [OF xs(1)] .
    also have "... = length (filter (\<lambda>x. le x d) zs)" using assms(3) by (metis mset_filter size_mset)
    finally show ?thesis using first_below [OF assms(1) zsA _ assms(4)] d z lostA by blast
  qed
  have "set (drop n zs @ ?lost) \<subseteq> A" using zsA lostA by (auto dest: in_set_dropD)
  then obtain ws where ws: "mset ws = mset (drop n zs @ ?lost)" "sorted_wrt le ws"
    using sorted_exists [OF assms(1)] by blast
  have sd: "sorted_wrt le (take n zs @ drop n zs)" using assms(4) by simp
  moreover have "set ws = set (drop n zs) \<union> set ?lost" using ws(1) by (metis set_append set_mset_mset)
  ultimately have "\<forall>z \<in> set (take n zs). \<forall>w \<in> set ws. le z w"
    using below unfolding sorted_wrt_append by blast
  then have "sorted_wrt le (take n zs @ ws)" using sd ws(2) unfolding sorted_wrt_append by blast
  moreover have "mset (take n zs @ ws) = mset (concat xss)"
  proof -
    have "mset (take n zs @ ws) = (mset (take n zs) + mset (drop n zs)) + mset ?lost" using ws(1) by simp
    also have "mset (take n zs) + mset (drop n zs) = mset zs" by (metis append_take_drop_id mset_append)
    finally show ?thesis using mset_take_drop_concat [of xss n] assms(3) by simp
  qed
  moreover have "take n (take n zs @ ws) = take n zs"
  proof (cases "n \<le> length zs")
    case False
    have "?lost = []"
    proof (rule ccontr)
      assume "?lost \<noteq> []"
      then obtain xs where xs: "xs \<in> set xss" "n < length xs" by (auto simp: not_le)
      then have "n \<le> length (concat (map (take n) xss))"
        using filter_concat_part [OF xs(1), of "\<lambda>_. True" "take n"] by simp
      then show False using False assms(3) by (metis size_mset)
    qed
    with ws(1) have "mset ws = mset (drop n zs @ [])" by (simp only:)
    then have "ws = []" using False by simp
    then show ?thesis by simp
  qed simp
  ultimately show ?thesis by blast
qed

section \<open>Rows of one shape\<close>

datatype ctype = TInt64 | TUint64 | TFloat64 | TString | TBytes

fun has_type :: "ctype \<Rightarrow> 'f val \<Rightarrow> bool" where
  "has_type t VNil = True"
| "has_type t (VInt64 n) = (t = TInt64)"
| "has_type t (VUint64 n) = (t = TUint64)"
| "has_type t (VFloat64 x) = (t = TFloat64)"
| "has_type t (VString x) = (t = TString)"
| "has_type t (VBytes x) = (t = TBytes)"
| "has_type t _ = False"

definition typed :: "ctype list \<Rightarrow> 'f ResultRow \<Rightarrow> bool" where
  "typed tys v \<longleftrightarrow> list_all2 has_type tys v"

text \<open>The comparison of \<^verbatim>\<open>float64\<close> orders the values weakly, as it does without NaN.\<close>

definition fl_order :: "'f float64 \<Rightarrow> bool" where
  "fl_order F \<longleftrightarrow>
     (\<forall>x y. fl_less F x y \<longrightarrow> \<not> fl_less F y x) \<and> (\<forall>x y z. fl_less F x z \<longrightarrow> fl_less F x y \<or> fl_less F y z)"

definition cv :: "'f float64 \<Rightarrow> 'f val \<Rightarrow> 'f val \<Rightarrow> int" where
  "cv F a b = (case cmpValue F a b of Ok c \<Rightarrow> c | _ \<Rightarrow> 0)"

lemma has_type_iff:
  "has_type TInt64 v \<longleftrightarrow> v = VNil \<or> (\<exists>n. v = VInt64 n)" "has_type TUint64 v \<longleftrightarrow> v = VNil \<or> (\<exists>n. v = VUint64 n)"
  "has_type TFloat64 v \<longleftrightarrow> v = VNil \<or> (\<exists>x. v = VFloat64 x)" "has_type TString v \<longleftrightarrow> v = VNil \<or> (\<exists>x. v = VString x)"
  "has_type TBytes v \<longleftrightarrow> v = VNil \<or> (\<exists>x. v = VBytes x)"
  by (cases v; simp)+

lemma cmpValue_typed: "has_type t a \<Longrightarrow> has_type t b \<Longrightarrow> cmpValue F a b = Ok (cv F a b)"
  by (cases t) (auto simp: has_type_iff cv_def)

lemma three_way_flip: "(\<And>x y. lt x y \<Longrightarrow> \<not> lt y x) \<Longrightarrow> three_way lt b a = - three_way lt a b"
  by (auto simp: three_way_def)

lemma three_way_le: "(\<And>x y. lt x y \<Longrightarrow> \<not> lt y x) \<Longrightarrow> three_way lt a b \<le> 0 \<longleftrightarrow> \<not> lt b a"
  by (auto simp: three_way_def)

lemma fl_flip: "fl_order F \<Longrightarrow> three_way (fl_less F) y x = - three_way (fl_less F) x y"
  by (rule three_way_flip) (auto simp: fl_order_def)

lemma fl_trans:
  "fl_order F \<Longrightarrow> three_way (fl_less F) x y \<le> 0 \<Longrightarrow> three_way (fl_less F) y z \<le> 0 \<Longrightarrow> three_way (fl_less F) x z \<le> 0"
  using three_way_le [of "fl_less F"] unfolding fl_order_def by metis

lemma linorder_flip: "three_way (<) y x = - three_way (<) x (y :: 'a :: linorder)"
  by (rule three_way_flip) auto

lemma linorder_trans:
  "three_way (<) x y \<le> 0 \<Longrightarrow> three_way (<) y z \<le> 0 \<Longrightarrow> three_way (<) x (z :: 'a :: linorder) \<le> 0"
  by (auto simp: three_way_def split: if_splits)

lemma cv_flip: "has_type t a \<Longrightarrow> has_type t b \<Longrightarrow> fl_order F \<Longrightarrow> cv F b a = - cv F a b"
  by (cases t) (auto simp: has_type_iff cv_def intro: linorder_flip fl_flip)

lemma cv_trans:
  assumes "has_type t a" "has_type t b" "has_type t c" "fl_order F" "cv F a b \<le> 0" "cv F b c \<le> 0"
  shows "cv F a c \<le> 0"
  using assms by (cases t) (auto simp: has_type_iff cv_def intro: linorder_trans fl_trans)

text \<open>\<open>row_le\<close>: the order that the sort keys describe.\<close>

definition kv :: "'f float64 \<Rightarrow> bool \<Rightarrow> 'f val \<Rightarrow> 'f val \<Rightarrow> int" where
  "kv F desc a b = (if desc then - cv F a b else cv F a b)"

fun row_le :: "'f float64 \<Rightarrow> SortKey list \<Rightarrow> 'f ResultRow \<Rightarrow> 'f ResultRow \<Rightarrow> bool" where
  "row_le F [] a b \<longleftrightarrow> True"
| "row_le F ((c, desc) # ks) a b \<longleftrightarrow>
     kv F desc (a ! nat c) (b ! nat c) < 0 \<or> kv F desc (a ! nat c) (b ! nat c) = 0 \<and> row_le F ks a b"

definition keys_in :: "SortKey list \<Rightarrow> ctype list \<Rightarrow> bool" where
  "keys_in ks tys \<longleftrightarrow> list_all (\<lambda>(c, d). 0 \<le> c \<and> c < int (length tys)) ks"

lemma typed_nth: "typed tys a \<Longrightarrow> 0 \<le> c \<Longrightarrow> c < int (length tys) \<Longrightarrow> has_type (tys ! nat c) (a ! nat c) \<and> at a c = Ok (a ! nat c)"
  unfolding typed_def by (auto simp: at_def list_all2_conv_all_nth)

lemma kv_flip: "has_type t a \<Longrightarrow> has_type t b \<Longrightarrow> fl_order F \<Longrightarrow> kv F d b a = - kv F d a b"
  using cv_flip [of t a b F] by (simp add: kv_def)

lemma kv_trans:
  assumes "has_type t a" "has_type t b" "has_type t c" "fl_order F" "kv F d a b \<le> 0" "kv F d b c \<le> 0"
  shows "kv F d a c \<le> 0"
  using assms(5,6) cv_trans [OF assms(1-4)] cv_trans [OF assms(3,2,1,4)]
    cv_flip [OF assms(1,2,4)] cv_flip [OF assms(2,3,4)] cv_flip [OF assms(1,3,4)]
  by (auto simp: kv_def split: if_splits)

lemma Less_row_le:
  assumes "typed tys a" "typed tys b" "keys_in ks tys" "fl_order F"
  shows "Less F ks b a = Ok (\<not> row_le F ks a b)"
  using assms(3)
proof (induction ks)
  case (Cons k ks)
  obtain c d where k: "k = (c, d)" by (cases k)
  with Cons.prems have c: "0 \<le> c" "c < int (length tys)" "keys_in ks tys" by (auto simp: keys_in_def)
  note ta = typed_nth [OF assms(1) c(1,2)] and tb = typed_nth [OF assms(2) c(1,2)]
  have "cmpValue F (b ! nat c) (a ! nat c) = Ok (cv F (b ! nat c) (a ! nat c))" using cmpValue_typed ta tb by blast
  moreover have "cv F (b ! nat c) (a ! nat c) = - cv F (a ! nat c) (b ! nat c)" using cv_flip ta tb assms(4) by blast
  ultimately show ?case using ta tb Cons.IH [OF c(3)] by (auto simp: k kv_def Let_def)
qed simp

lemma row_le_total:
  assumes "typed tys a" "typed tys b" "keys_in ks tys" "fl_order F"
  shows "row_le F ks a b \<or> row_le F ks b a"
  using assms(3)
proof (induction ks)
  case (Cons k ks)
  obtain c d where k: "k = (c, d)" by (cases k)
  with Cons.prems have c: "0 \<le> c" "c < int (length tys)" "keys_in ks tys" by (auto simp: keys_in_def)
  have "kv F d (b ! nat c) (a ! nat c) = - kv F d (a ! nat c) (b ! nat c)"
    using kv_flip typed_nth [OF assms(1) c(1,2)] typed_nth [OF assms(2) c(1,2)] assms(4) by blast
  then show ?case using Cons.IH [OF c(3)] by (auto simp: k)
qed simp

lemma row_le_trans:
  assumes "typed tys a" "typed tys b" "typed tys c" "keys_in ks tys" "fl_order F"
  shows "row_le F ks a b \<Longrightarrow> row_le F ks b c \<Longrightarrow> row_le F ks a c"
  using assms(4)
proof (induction ks)
  case (Cons k ks)
  obtain i d where k: "k = (i, d)" by (cases k)
  with Cons.prems have i: "0 \<le> i" "i < int (length tys)" "keys_in ks tys" by (auto simp: keys_in_def)
  note t = conjunct1 [OF typed_nth [OF assms(1) i(1,2)]] conjunct1 [OF typed_nth [OF assms(2) i(1,2)]]
    conjunct1 [OF typed_nth [OF assms(3) i(1,2)]]
  note tr = kv_trans [OF t assms(5), of d] kv_trans [OF t(3,2,1) assms(5), of d]
    kv_trans [OF t(3,1,2) assms(5), of d] kv_trans [OF t(2,3,1) assms(5), of d]
    kv_flip [OF t(1,2) assms(5), of d] kv_flip [OF t(2,3) assms(5), of d] kv_flip [OF t(1,3) assms(5), of d]
  show ?case using Cons.prems(1,2) Cons.IH i(3) tr by (auto simp: k)
qed simp

lemma row_le_preorder:
  "keys_in ks tys \<Longrightarrow> fl_order F \<Longrightarrow> total_preorder {v. typed tys v} (row_le F ks)"
  unfolding total_preorder_def using row_le_total row_le_trans by blast

section \<open>Sorting rows\<close>

text \<open>What \<^verbatim>\<open>sort.Sort\<close> documents: the positions are permuted, and sorted if the comparison is an order.\<close>

definition sorter_ok :: "sorter \<Rightarrow> bool" where
  "sorter_ok srt \<longleftrightarrow>
     (\<forall>lt n. (\<forall>i<n. \<forall>j<n. is_ok (lt i j)) \<longrightarrow>
        (\<exists>perm. srt lt n = Ok perm \<and> mset perm = mset [0..<n] \<and>
           (total_preorder {..<n} (\<lambda>i j. lt j i = Ok False) \<longrightarrow> sorted_wrt (\<lambda>i j. lt j i = Ok False) perm)))"

fun insert_at :: "(nat \<Rightarrow> nat \<Rightarrow> bool res) \<Rightarrow> nat \<Rightarrow> nat list \<Rightarrow> nat list res" where
  "insert_at lt i [] = Ok [i]"
| "insert_at lt i (j # js) =
     andThen (lt j i) (\<lambda>b. if b then andThen (insert_at lt i js) (\<lambda>r. Ok (j # r)) else Ok (i # j # js))"

fun insertion_sort :: "(nat \<Rightarrow> nat \<Rightarrow> bool res) \<Rightarrow> nat \<Rightarrow> nat list res" where
  "insertion_sort lt 0 = Ok []"
| "insertion_sort lt (Suc n) = andThen (insertion_sort lt n) (insert_at lt n)"

lemma insert_at_insert_by:
  "(\<forall>j \<in> set js. is_ok (lt j i)) \<Longrightarrow> insert_at lt i js = Ok (insert_by (\<lambda>i j. lt j i = Ok False) i js)"
proof (induction js)
  case (Cons j js)
  then obtain b where "lt j i = Ok b" by (auto simp: is_ok_iff)
  then show ?case using Cons by (cases b) simp_all
qed simp

lemma insertion_sort_ok: "sorter_ok insertion_sort"
  unfolding sorter_ok_def
proof (intro allI impI)
  fix lt :: "nat \<Rightarrow> nat \<Rightarrow> bool res" and n
  let ?le = "\<lambda>i j. lt j i = Ok False"
  assume ok: "\<forall>i<n. \<forall>j<n. is_ok (lt i j)"
  have "m \<le> n \<Longrightarrow> \<exists>perm. insertion_sort lt m = Ok perm \<and> mset perm = mset [0..<m] \<and>
      (total_preorder {..<n} ?le \<longrightarrow> sorted_wrt ?le perm)" for m
  proof (induction m)
    case (Suc m)
    then obtain perm where p: "insertion_sort lt m = Ok perm" "mset perm = mset [0..<m]"
      "total_preorder {..<n} ?le \<longrightarrow> sorted_wrt ?le perm" by auto
    have s: "set perm = {..<m}" using p(2) by (metis atLeast_upt set_mset_mset)
    then have "insertion_sort lt (Suc m) = Ok (insert_by ?le m perm)"
      using p(1) ok Suc.prems by (simp add: insert_at_insert_by)
    moreover have "total_preorder {..<n} ?le \<longrightarrow> sorted_wrt ?le (insert_by ?le m perm)"
      using sorted_insert_by [of "{..<n}" ?le m perm] s p(3) Suc.prems by auto
    ultimately show ?case
      using p(2) by (intro exI [of _ "insert_by ?le m perm"] conjI) (simp_all del: insertion_sort.simps)
  qed simp
  then show "\<exists>perm. insertion_sort lt n = Ok perm \<and> mset perm = mset [0..<n] \<and>
      (total_preorder {..<n} ?le \<longrightarrow> sorted_wrt ?le perm)" by blast
qed

lemma sort_typed_rows:
  assumes "sorter_ok srt" "fl_order F" "\<forall>v \<in> set (rs_Values r). typed tys v" "keys_in ks tys"
  shows "\<exists>zs ds. SortWithoutColumnName F srt ks r = Ok (r\<lparr>rs_Values := zs, rs_RowDatas := ds\<rparr>) \<and>
    mset zs = mset (rs_Values r) \<and> sorted_wrt (row_le F ks) zs"
proof -
  let ?xs = "rs_Values r" and ?n = "length (rs_Values r)"
  let ?lt = "\<lambda>i j. Less F ks (?xs ! i) (?xs ! j)"
  have lt: "?lt j i = Ok (\<not> row_le F ks (?xs ! i) (?xs ! j))" if "i < ?n" "j < ?n" for i j
    using Less_row_le assms that by (metis nth_mem)
  have ty: "typed tys (?xs ! i)" if "i < ?n" for i using assms(3) that by simp
  have "?lt j i = Ok False \<or> ?lt i j = Ok False" if "i < ?n" "j < ?n" for i j
    using row_le_total [OF ty ty assms(4,2)] lt that by simp
  moreover have "?lt k i = Ok False" if "i < ?n" "j < ?n" "k < ?n" "?lt j i = Ok False" "?lt k j = Ok False" for i j k
    using row_le_trans [OF ty ty ty assms(4,2), of i j k] lt that by simp
  ultimately have "total_preorder {..<?n} (\<lambda>i j. ?lt j i = Ok False)"
    unfolding total_preorder_def Ball_def lessThan_iff by blast
  moreover have "\<forall>i<?n. \<forall>j<?n. is_ok (?lt i j)" using lt by simp
  ultimately obtain perm where p: "srt ?lt ?n = Ok perm" "mset perm = mset [0..<?n]" "sorted_wrt (\<lambda>i j. ?lt j i = Ok False) perm"
    using spec [OF spec [OF assms(1) [unfolded sorter_ok_def], of ?lt], of ?n] by metis
  have s: "set perm = {..<?n}" using p(2) by (metis atLeast_upt set_mset_mset)
  have "sorted_wrt (\<lambda>i j. row_le F ks (?xs ! i) (?xs ! j)) perm"
    by (rule sorted_wrt_mono_rel [OF _ p(3)]) (use lt s in simp)
  then have "sorted_wrt (row_le F ks) (map ((!) ?xs) perm)" by (simp add: sorted_wrt_map)
  moreover have "mset (map ((!) ?xs) perm) = mset (map ((!) ?xs) [0..<?n])" using p(2) by (metis mset_map)
  then have "mset (map ((!) ?xs) perm) = mset ?xs" by (simp only: map_nth)
  ultimately show ?thesis using p(1) by (auto simp: SortWithoutColumnName_def)
qed

section \<open>Finishing a result\<close>

lemma typed_length: "typed tys v \<Longrightarrow> length v = length tys"
  by (simp add: typed_def list_all2_lengthD)

lemma row_data_typed: "typed tys v \<Longrightarrow> \<exists>d. row_data F row v = Ok d"
proof (induction v arbitrary: tys row)
  case (Cons x v)
  then obtain t ts where t: "tys = t # ts" "has_type t x" "typed ts v" by (auto simp: typed_def list_all2_Cons2)
  then show ?case using Cons.IH [OF t(3)] by (cases x) auto
qed simp

lemma all_ok_mapI: "(\<And>x. x \<in> set xs \<Longrightarrow> f x = Ok (g x)) \<Longrightarrow> all_ok (map f xs) = Ok (map g xs)"
  by (induction xs) auto

lemma all_ok_ex: "(\<And>x. x \<in> set xs \<Longrightarrow> is_ok (f x)) \<Longrightarrow> \<exists>ys. all_ok (map f xs) = Ok ys"
  by (induction xs) (auto simp: is_ok_iff)

definition shown :: "SelectPlan \<Rightarrow> nat \<Rightarrow> int" where
  "shown p n = int n - sp_columnCount p + sp_originColumnCount p"

lemma trim_typed:
  assumes "\<forall>v \<in> set (rs_Values r). typed tys v" "length (rs_Fields r) = length tys"
    "0 \<le> shown p (length tys)" "shown p (length tys) \<le> int (length tys)"
  shows "trimExtraFields p r = Ok (r\<lparr>rs_Fields := take (nat (shown p (length tys))) (rs_Fields r),
     rs_Values := map (take (nat (shown p (length tys)))) (rs_Values r)\<rparr>)"
proof -
  let ?w = "shown p (length tys)"
  have "length v = length tys" if "v \<in> set (rs_Values r)" for v
    using assms(1) that typed_length by blast
  then have "all_ok (map (\<lambda>v. slice_of v 0 ?w) (rs_Values r)) = Ok (map (take (nat ?w)) (rs_Values r))"
    using assms(3,4) by (intro all_ok_mapI) (simp add: slice_of_def)
  moreover have "slice_of (rs_Fields r) 0 ?w = Ok (take (nat ?w) (rs_Fields r))"
    using assms(2-4) by (simp add: slice_of_def)
  ultimately show ?thesis
    using assms(2,3) by (simp add: trimExtraFields_def deltaColumnCount_def shown_def Let_def)
qed

lemma typed_take: "typed tys v \<Longrightarrow> typed (take n tys) (take n v)"
  by (auto simp: typed_def)

lemma generate_typed:
  assumes "\<forall>v \<in> set (rs_Values r). typed tys v" "length (rs_Fields r) = length tys"
  shows "\<exists>ds. GenerateSelectResultRowData F r = Ok (r\<lparr>rs_RowDatas := ds\<rparr>)"
proof -
  have "is_ok (if length v \<noteq> length (rs_Fields r) then Err (ErrMsg ''column count'') else row_data F [] v)"
    if "v \<in> set (rs_Values r)" for v
    using assms that row_data_typed [of tys v F "[]"] typed_length [of tys v] by auto
  then have "\<exists>ds. all_ok (map (\<lambda>v. if length v \<noteq> length (rs_Fields r) then Err (ErrMsg ''column count'') else row_data F [] v)
      (rs_Values r)) = Ok ds" by (rule all_ok_ex)
  then show ?thesis by (auto simp: GenerateSelectResultRowData_def)
qed

lemma finish_typed:
  assumes "\<forall>v \<in> set (rs_Values r). typed tys v" "length (rs_Fields r) = length tys"
    "0 \<le> shown p (length tys)" "shown p (length tys) \<le> int (length tys)"
  shows "\<exists>r'. andThen (wrap m (trimExtraFields p r)) (\<lambda>r. wrap m' (GenerateSelectResultRowData F r)) = Ok r' \<and>
    rs_Fields r' = take (nat (shown p (length tys))) (rs_Fields r) \<and>
    rs_Values r' = map (take (nat (shown p (length tys)))) (rs_Values r)"
proof -
  let ?w = "nat (shown p (length tys))"
  let ?r = "r\<lparr>rs_Fields := take ?w (rs_Fields r), rs_Values := map (take ?w) (rs_Values r)\<rparr>"
  have "\<forall>v \<in> set (rs_Values ?r). typed (take ?w tys) v" using assms(1) typed_take by fastforce
  moreover have "length (rs_Fields ?r) = length (take ?w tys)" using assms(2) by simp
  ultimately obtain ds where "GenerateSelectResultRowData F ?r = Ok (?r\<lparr>rs_RowDatas := ds\<rparr>)"
    using generate_typed by blast
  then show ?thesis by (simp add: trim_typed [OF assms])
qed

lemma limit_rows:
  assumes "0 \<le> sp_offset p" "0 \<le> sp_count p" "sp_offset p + sp_count p < 2 ^ 63"
  shows "\<exists>ds. limitSelectResult p r =
    Ok (r\<lparr>rs_Values := take (nat (sp_count p)) (drop (nat (sp_offset p)) (rs_Values r)), rs_RowDatas := ds\<rparr>)"
proof -
  let ?n = "int (length (rs_Values r))"
  have i: "i64 (sp_offset p + sp_count p) = sp_offset p + sp_count p" using assms by (simp add: i64_id in_i64_bounds)
  show ?thesis
  proof (cases "sp_offset p \<ge> ?n")
    case True
    then show ?thesis using assms i
      by (auto simp: limitSelectResult_def HasLimit_def GetLimitValue_def Let_def intro!: exI [of _ "[]"])
  next
    case False
    have "take (nat (min (sp_offset p + sp_count p) ?n - sp_offset p)) (drop (nat (sp_offset p)) (rs_Values r)) =
        take (nat (sp_count p)) (drop (nat (sp_offset p)) (rs_Values r))"
      using False assms by (cases "sp_offset p + sp_count p \<le> ?n") (simp_all add: min_def)
    then show ?thesis using assms i False
      by (auto simp: limitSelectResult_def HasLimit_def GetLimitValue_def Let_def slice_of_def intro!: exI [of _ "rs_RowDatas r"])
  qed
qed

section \<open>Ordered limits\<close>

text \<open>What a limit keeps of the rows of a statement; only literals occur in a limit.\<close>

definition limit_value :: "ExprNode option \<Rightarrow> nat" where
  "limit_value e = (case map_option literal_int e of Some (Ok n) \<Rightarrow> nat n | _ \<Rightarrow> 0)"

definition sql_limit :: "Limit \<Rightarrow> 'a list \<Rightarrow> 'a list" where
  "sql_limit l xs = take (limit_value (Some (lm_Count l))) (drop (limit_value (lm_Offset l)) xs)"

definition limit_of :: "int \<Rightarrow> int \<Rightarrow> Limit" where
  "limit_of k n = \<lparr>lm_Count = EValue (DUint64 n), lm_Offset = Some (EValue (DUint64 k))\<rparr>"

lemma limit_of_values:
  assumes "0 \<le> k" "0 \<le> n" "n + k < 2 ^ 63" "handleLimit p0 (Some (limit_of k n)) = Ok (Some l, p)"
  shows "sql_limit (limit_of k n) xs = take (nat n) (drop (nat k) xs)" "sql_limit l xs = take (nat (n + k)) xs"
    "p = p0\<lparr>sp_offset := k, sp_count := n\<rparr>"
proof -
  have i: "i64 n = n" "i64 k = k" "i64 (n + k) = n + k" using assms(1-3) by (simp_all add: i64_id in_i64_bounds)
  then show "sql_limit (limit_of k n) xs = take (nat n) (drop (nat k) xs)" by (simp add: sql_limit_def limit_of_def limit_value_def)
  show "sql_limit l xs = take (nat (n + k)) xs" "p = p0\<lparr>sp_offset := k, sp_count := n\<rparr>"
    using assms(4) i
    by (auto simp: handleLimit_def NeedRewriteLimitOrCreateRewrite_def limit_of_def sql_limit_def limit_value_def
        split: if_splits)
qed

lemma merge_values:
  assumes "mergeMultiResultSet rs = Ok r"
  shows "rs_Values r = concat (map rs_Values rs) \<and> rs_Fields r = rs_Fields (hd rs)"
proof -
  obtain r0 rs' where rs: "rs = r0 # rs'" using assms by (cases rs) (auto simp: mergeMultiResultSet_def)
  let ?f = "\<lambda>r v. r\<lparr>rs_Status := rs_Status r OR rs_Status v, rs_Values := rs_Values r @ rs_Values v,
     rs_RowDatas := rs_RowDatas r @ rs_RowDatas v\<rparr>"
  have "rs_Values (foldl ?f r0 rs') = rs_Values r0 @ concat (map rs_Values rs') \<and> rs_Fields (foldl ?f r0 rs') = rs_Fields r0"
    by (induction rs' arbitrary: r0) auto
  then show ?thesis using assms by (auto simp: rs mergeMultiResultSet_def)
qed

definition sort_keys :: "SelectPlan \<Rightarrow> nat \<Rightarrow> SortKey list" where
  "sort_keys p n = zip (map (\<lambda>c. c + (int n - sp_columnCount p)) (sp_orderByColumn p)) (sp_orderByDirections p)"

lemma sort_select_typed:
  assumes "sorter_ok srt" "fl_order F" "\<forall>v \<in> set (rs_Values r). typed tys v" "length (rs_Fields r) = length tys"
    "keys_in (sort_keys p (length tys)) tys" "length (sp_orderByColumn p) = length (sp_orderByDirections p)"
  shows "\<exists>zs ds. sortSelectResult F srt p r = Ok (r\<lparr>rs_Values := zs, rs_RowDatas := ds\<rparr>) \<and> mset zs = mset (rs_Values r) \<and>
    sorted_wrt (row_le F (sort_keys p (length tys))) zs"
proof (cases "HasOrderBy p")
  case True
  have "all_ok (map (\<lambda>i. andThen (at (sp_orderByColumn p) (int i)) (\<lambda>c.
      Ok (c + deltaColumnCount p r, sp_orderByDirections p ! i))) [0..<length (sp_orderByDirections p)]) =
    Ok (map (\<lambda>i. (sp_orderByColumn p ! i + deltaColumnCount p r, sp_orderByDirections p ! i)) [0..<length (sp_orderByDirections p)])"
    using assms(6) by (intro all_ok_mapI) (simp add: at_def)
  also have "map (\<lambda>i. (sp_orderByColumn p ! i + deltaColumnCount p r, sp_orderByDirections p ! i)) [0..<length (sp_orderByDirections p)]
      = sort_keys p (length tys)"
    using assms(4,6) by (intro nth_equalityI) (simp_all add: sort_keys_def deltaColumnCount_def)
  finally show ?thesis using True sort_typed_rows [OF assms(1-3,5)] by (simp add: sortSelectResult_def)
next
  case False
  then have "sort_keys p (length tys) = []" by (simp add: sort_keys_def HasOrderBy_def)
  moreover have "sorted_wrt (row_le F []) xs" for xs by (induction xs) auto
  ultimately show ?thesis using False
    by (intro exI [of _ "rs_Values r"] exI [of _ "rs_RowDatas r"]) (simp add: sortSelectResult_def)
qed

text \<open>
  C7: an ordered \<^verbatim>\<open>SELECT\<close> with \<^verbatim>\<open>LIMIT k, n\<close>, where \<open>k + n\<close> is below \<open>2 ^ 63\<close>, without \<^verbatim>\<open>DISTINCT\<close> and aggregates. Every shard returns what the rewritten limit keeps of its rows, in
  the order of the sort keys; the merged result is then what the limit of the statement keeps of all rows of
  all shards, in some order that the sort keys admit, without the columns added for sorting.
\<close>

theorem ordered_limit:
  assumes "0 \<le> k" "0 \<le> n" "n + k < 2 ^ 63" "handleLimit p0 (Some (limit_of k n)) = Ok (Some l, p)"
    and "sorter_ok srt" "fl_order F" "\<not> sp_distinct p0" "sp_aggregateFuncs p0 = []"
    and "full \<noteq> []" "map rs_Values rs = map (sql_limit l) full"
    and "\<forall>rows \<in> set full. sorted_wrt (row_le F (sort_keys p0 (length tys))) rows \<and> (\<forall>v \<in> set rows. typed tys v)"
    and "length (rs_Fields (hd rs)) = length tys" "keys_in (sort_keys p0 (length tys)) tys"
    and "length (sp_orderByColumn p0) = length (sp_orderByDirections p0)"
    and "0 \<le> shown p0 (length tys)" "shown p0 (length tys) \<le> int (length tys)"
  shows "\<exists>r ys. MergeSelectResult F order srt p False rs = Ok r \<and> mset ys = mset (concat full) \<and>
    sorted_wrt (row_le F (sort_keys p0 (length tys))) ys \<and>
    rs_Values r = map (take (nat (shown p0 (length tys)))) (sql_limit (limit_of k n) ys)"
proof -
  note lim = limit_of_values [OF assms(1-4)]
  let ?ks = "sort_keys p0 (length tys)" and ?N = "nat (n + k)"
  have p: "sort_keys p m = sort_keys p0 m" "shown p m = shown p0 m" "sp_offset p = k" "sp_count p = n"
    "sp_distinct p = sp_distinct p0" "sp_aggregateFuncs p = []" "sp_orderByColumn p = sp_orderByColumn p0"
    "sp_orderByDirections p = sp_orderByDirections p0" for m
    using assms(8) by (simp_all add: lim(3) sort_keys_def shown_def)
  have "rs \<noteq> []" using assms(9,10) by auto
  then obtain r0 where r0: "mergeMultiResultSet rs = Ok r0" by (cases rs) (auto simp: mergeMultiResultSet_def)
  have e: "map (sql_limit l) full = map (take ?N) full" by (intro map_cong refl) (rule lim(2))
  have v0: "rs_Values r0 = concat (map (take ?N) full)" "rs_Fields r0 = rs_Fields (hd rs)"
    using merge_values [OF r0] assms(10) e by simp_all
  have ty: "\<forall>v \<in> set (rs_Values r0). typed tys v" using assms(11) v0(1) by (auto dest: in_set_takeD)
  obtain zs ds where z: "sortSelectResult F srt p r0 = Ok (r0\<lparr>rs_Values := zs, rs_RowDatas := ds\<rparr>)"
    "mset zs = mset (concat (map (take ?N) full))" "sorted_wrt (row_le F ?ks) zs"
    using sort_select_typed [of srt F r0 tys p] assms(5,6,12-14) ty p v0 by auto
  have "\<forall>rows \<in> set full. sorted_wrt (row_le F ?ks) rows \<and> set rows \<subseteq> {v. typed tys v}" using assms(11) by blast
  then obtain ys where y: "mset ys = mset (concat full)" "sorted_wrt (row_le F ?ks) ys" "take ?N ys = take ?N zs"
    using first_rows_suffice [OF row_le_preorder [OF assms(13,6)] _ z(2,3)] by blast
  have sl: "take (nat n) (drop (nat k) zs) = sql_limit (limit_of k n) ys"
    using y(3) assms(1,2) unfolding lim(1)
    by (metis (no_types, opaque_lifting) add.commute nat_add_distrib take_drop)
  obtain ds' where l: "limitSelectResult p (r0\<lparr>rs_Values := zs, rs_RowDatas := ds\<rparr>) =
      Ok (r0\<lparr>rs_Values := sql_limit (limit_of k n) ys, rs_RowDatas := ds'\<rparr>)"
    using limit_rows [of p "r0\<lparr>rs_Values := zs, rs_RowDatas := ds\<rparr>"] assms(1-3) p(3,4) sl by (auto simp: add.commute)
  have "set (sql_limit (limit_of k n) ys) \<subseteq> set zs" unfolding sl [symmetric] by (meson in_set_dropD in_set_takeD subsetI)
  moreover have "set zs = set (rs_Values r0)" using z(2) v0(1) by (metis set_mset_mset)
  ultimately have ty': "\<forall>v \<in> set (sql_limit (limit_of k n) ys). typed tys v" using ty by blast
  let ?r = "r0\<lparr>rs_Values := sql_limit (limit_of k n) ys, rs_RowDatas := ds'\<rparr>"
  obtain r where r: "andThen (wrap ''trimExtraFields error'' (trimExtraFields p ?r))
      (\<lambda>r. wrap ''generate RowData error'' (GenerateSelectResultRowData F r)) = Ok r"
    "rs_Values r = map (take (nat (shown p0 (length tys)))) (sql_limit (limit_of k n) ys)"
    using finish_typed [where r = ?r and tys = tys and p = p and F = F] ty' assms(12,15,16) p(2) v0(2) by auto
  show ?thesis using r y(1,2) r0 z(1) l p(5,6) assms(7)
    by (simp add: MergeSelectResult_def buildSelectOnlyResult_def) blast
qed

text \<open>Integers as an instance of the operations on \<^verbatim>\<open>float64\<close>, for examples.\<close>

definition example_float :: "int float64" where
  "example_float =
     \<lparr>fl_of_int = id, fl_to_i64 = i64, fl_to_u64 = u64, fl_add = (+), fl_less = (<), fl_parse = atoi, fl_format = itoa\<rparr>"

lemma example_float_order: "fl_order example_float"
  by (auto simp: fl_order_def example_float_def)

definition example_result :: "nat \<Rightarrow> int ResultRow list \<Rightarrow> int Result" where
  "example_result n rows =
     \<lparr>rs_Status = 2, rs_InsertID = 0, rs_AffectedRows = 0, rs_Fields = replicate n \<lparr>fd_Type = 8, fd_Flag = 0\<rparr>,
      rs_Values = rows, rs_RowDatas = []\<rparr>"

definition example_plan :: SelectPlan where
  "example_plan =
     (NewSelectPlan ''db'' [] \<lparr>rt_rules = Map.empty, rt_defaultRule = NewDefaultRule ''slice-0''\<rparr>)
       \<lparr>sp_orderByColumn := [0], sp_orderByDirections := [False], sp_originColumnCount := 1, sp_columnCount := 1\<rparr>"

definition example_shards :: "int ResultRow list list" where
  "example_shards = [[[VInt64 1], [VInt64 4]], [[VInt64 2], [VInt64 3], [VInt64 8], [VInt64 9]]]"

theorem ordered_limit_witness:
  "\<exists>l p r ys. handleLimit example_plan (Some (limit_of 1 2)) = Ok (Some l, p) \<and>
     MergeSelectResult example_float id insertion_sort p False (map (\<lambda>rows. example_result 1 (sql_limit l rows)) example_shards) = Ok r \<and>
     mset ys = mset (concat example_shards) \<and> sorted_wrt (row_le example_float [(0, False)]) ys \<and>
     rs_Values r = map (take 1) (take 2 (drop 1 ys))"
proof -
  let ?p = "example_plan\<lparr>sp_offset := 1, sp_count := 2\<rparr>"
  let ?l = "\<lparr>lm_Count = EValue (DInt64 3 False), lm_Offset = None\<rparr>"
  let ?rs = "map (\<lambda>rows. example_result 1 (sql_limit ?l rows)) example_shards"
  have h: "handleLimit example_plan (Some (limit_of 1 2)) = Ok (Some ?l, ?p)"
    using limit_pushed [of 2 1] by (simp add: handleLimit_def limit_of_def)
  have k: "sort_keys example_plan (length [TInt64]) = [(0, False)]" "shown example_plan (length [TInt64]) = 1"
    "\<not> sp_distinct example_plan" "sp_aggregateFuncs example_plan = []"
    "length (sp_orderByColumn example_plan) = length (sp_orderByDirections example_plan)"
    by (simp_all add: sort_keys_def shown_def example_plan_def NewSelectPlan_def)
  have ty: "\<forall>rows \<in> set example_shards. sorted_wrt (row_le example_float [(0, False)]) rows \<and> (\<forall>v \<in> set rows. typed [TInt64] v)"
    "keys_in [(0, False)] [TInt64]" "example_shards \<noteq> []" "length (rs_Fields (hd ?rs)) = length [TInt64]"
    by code_simp+
  have vs: "map rs_Values ?rs = map (sql_limit ?l) example_shards" by (simp add: example_result_def comp_def)
  have lim: "sql_limit (limit_of 1 2) ys = take 2 (drop 1 ys)" for ys :: "int ResultRow list"
    using limit_of_values(1) [OF _ _ _ h, of ys] by simp
  from ordered_limit [OF _ _ _ h insertion_sort_ok example_float_order k(3,4) ty(3) vs, of "[TInt64]" id] h k ty
  show ?thesis unfolding lim by auto
qed

end
