(* ===== verification/Merge_Type.thy ===== *)
theory Merge_Type
  imports Merge_Order
begin

text \<open>
  Type safety of merging: on rows whose columns have the types of their fields no step panics, and the
  merged rows have those types again.
\<close>

section \<open>Outcomes that do not panic\<close>

fun safe :: "('a \<Rightarrow> bool) \<Rightarrow> 'a res \<Rightarrow> bool" where
  "safe P (Ok x) = P x"
| "safe P (Err e) = True"
| "safe P (Panic q) = False"

lemma safe_andThen: "safe P x \<Longrightarrow> (\<And>r. P r \<Longrightarrow> safe Q (f r)) \<Longrightarrow> safe Q (andThen x f)"
  by (cases x) auto

lemma safe_wrap [simp]: "safe P (wrap m x) = safe P x"
  by (cases x) auto

lemma safe_mono: "safe P x \<Longrightarrow> (\<And>r. P r \<Longrightarrow> Q r) \<Longrightarrow> safe Q x"
  by (cases x) auto

lemma safe_val_or_err [simp]: "safe (\<lambda>_. True) (val_or_err x)"
  by (cases x rule: val_or_err.cases) auto

section \<open>Aggregates keep the types\<close>

text \<open>\<^verbatim>\<open>COUNT\<close> is a signed integer, \<^verbatim>\<open>SUM\<close> a decimal or double, read as \<^verbatim>\<open>float64\<close>.\<close>

fun agg_ok :: "ctype list \<Rightarrow> AggregateFuncMerger \<Rightarrow> bool" where
  "agg_ok tys (AggregateFuncCountMerger i) \<longleftrightarrow> 0 \<le> i \<and> i < int (length tys) \<and> tys ! nat i = TInt64"
| "agg_ok tys (AggregateFuncSumMerger i) \<longleftrightarrow> 0 \<le> i \<and> i < int (length tys) \<and> tys ! nat i = TFloat64"
| "agg_ok tys (AggregateFuncMaxMerger i) \<longleftrightarrow> 0 \<le> i \<and> i < int (length tys)"
| "agg_ok tys (AggregateFuncMinMerger i) \<longleftrightarrow> 0 \<le> i \<and> i < int (length tys)"

lemma typed_update:
  assumes "typed tys v" "0 \<le> i" "i < int (length tys)" "has_type (tys ! nat i) x"
  shows "safe (typed tys) (SetValue v i x)"
proof -
  have "typed tys (v[nat i := x])"
    using list_all2_update_cong [of has_type tys v "tys ! nat i" x "nat i"] assms(1,4) by (simp add: typed_def)
  then show ?thesis using assms(2,3) typed_length [OF assms(1)] by (simp add: SetValue_def)
qed

lemma typed_column:
  assumes "typed tys v" "0 \<le> i" "i < int (length tys)"
  shows "has_type (tys ! nat i) (v ! nat i)" "at v i = Ok (v ! nat i)" "i < int (length v)"
  using typed_nth [OF assms] typed_length [OF assms(1)] assms(3) by simp_all

lemma MergeTo_typed:
  assumes "typed tys from" "typed tys to" "agg_ok tys m"
  shows "safe (typed tys) (MergeTo F m from to)"
proof -
  have count: "safe (typed tys) (count_MergeTo F i from to)" if i: "0 \<le> i" "i < int (length tys)" "tys ! nat i = TInt64" for i
  proof -
    note f = typed_column [OF assms(1) i(1,2)] and t = typed_column [OF assms(2) i(1,2)]
    have "safe (\<lambda>_. True) (GetInt F from i)" "safe (\<lambda>_. True) (GetInt F to i)"
      using f t i(3) by (auto simp: GetInt_def has_type_iff)
    then show ?thesis using f t i typed_update [OF assms(2) i(1,2)]
      by (auto simp: count_MergeTo_def in_rows_def intro!: safe_andThen)
  qed
  have sum: "safe (typed tys) (sum_MergeTo F i from to)" if i: "0 \<le> i" "i < int (length tys)" "tys ! nat i = TFloat64" for i
  proof -
    note f = typed_column [OF assms(1) i(1,2)] and t = typed_column [OF assms(2) i(1,2)]
    have "safe (\<lambda>_. True) (GetFloat F from i)" "safe (\<lambda>_. True) (GetFloat F to i)"
      using f t i(3) by (auto simp: GetFloat_def has_type_iff)
    then have "safe (typed tys) (sumToFloat64 F i from to)" using i typed_update [OF assms(2) i(1,2)]
      by (auto simp: sumToFloat64_def intro!: safe_andThen)
    then show ?thesis using f t i(3) assms(2) by (auto simp: sum_MergeTo_def in_rows_def GetValue_def has_type_iff)
  qed
  have ext: "safe (typed tys) (extremum_MergeTo F b i from to)" if i: "0 \<le> i" "i < int (length tys)" for i b
  proof -
    note t = typed_column [OF assms(2) i]
    obtain v where f: "has_type (tys ! nat i) v" "at from i = Ok v" "i < int (length from)"
      using typed_column [OF assms(1) i] by blast
    have "safe (\<lambda>_. True) (replaces F b v (to ! nat i))" if "v \<noteq> VNil"
      using f(1) t(1) that by (cases "tys ! nat i") (auto simp: has_type_iff)
    then have "safe (typed tys) (andThen (replaces F b v (to ! nat i)) (\<lambda>b. if b then SetValue to i v else Ok to))"
      if "v \<noteq> VNil"
      using that assms(2) typed_update [OF assms(2) i f(1)] by (auto intro!: safe_andThen)
    then show ?thesis using f t assms(2)
      by (cases v) (auto simp: extremum_MergeTo_def in_rows_def GetValue_def)
  qed
  show ?thesis using assms(3) count sum ext by (cases m) simp_all
qed

lemma merge_all_typed:
  "typed tys from \<Longrightarrow> typed tys to \<Longrightarrow> \<forall>(i, m) \<in> set fs. agg_ok tys m \<Longrightarrow> safe (typed tys) (merge_all F fs from to)"
proof (induction fs arbitrary: to)
  case (Cons a fs)
  obtain i m where a: "a = (i, m)" by (cases a)
  have "safe (typed tys) (MergeTo F m from to)" using Cons.prems a by (intro MergeTo_typed) auto
  then show ?case using Cons by (auto simp: a intro!: safe_andThen [where P = "typed tys"])
qed simp

section \<open>The steps keep the types\<close>

definition good :: "ctype list \<Rightarrow> 'f Result \<Rightarrow> bool" where
  "good tys r \<longleftrightarrow> (\<forall>v \<in> set (rs_Values r). typed tys v) \<and> length (rs_Fields r) = length tys"

lemma formatValue_typed: "has_type t v \<Longrightarrow> safe (\<lambda>_. True) (formatValue F v)"
  by (cases v) auto

lemma generateMapKey_typed: "\<forall>v \<in> set vs. \<exists>t. has_type t v \<Longrightarrow> safe (\<lambda>_. True) (generateMapKey F vs)"
proof (induction vs)
  case (Cons v vs)
  then have "safe (\<lambda>_. True) (formatValue F v)" using formatValue_typed by auto
  then show ?case using Cons by (auto intro!: safe_andThen)
qed simp

lemma typed_values: "typed tys v \<Longrightarrow> x \<in> set v \<Longrightarrow> \<exists>t. has_type t x"
  unfolding typed_def list_all2_conv_all_nth in_set_conv_nth by metis

lemma distinct_loop_typed:
  assumes "0 \<le> n" "n \<le> int (length tys)"
  shows "\<forall>v \<in> set vs. typed tys v \<Longrightarrow> safe (\<lambda>ws. \<forall>v \<in> set ws. typed tys v) (distinct_loop F n seen vs)"
proof (induction vs arbitrary: seen)
  case (Cons v vs)
  have v: "typed tys v" "slice_of v 0 n = Ok (take (nat n) v)"
    using Cons.prems assms typed_length [of tys v] by (auto simp: slice_of_def)
  have k: "safe (\<lambda>_. True) (generateMapKey F (take (nat n) v))"
    using typed_values [OF v(1)] by (intro generateMapKey_typed) (auto dest: in_set_takeD)
  have "safe (\<lambda>ws. \<forall>v \<in> set ws. typed tys v) (distinct_loop F n seen vs)" for seen using Cons by simp
  then show ?case using v k by (auto intro!: safe_andThen [OF k] safe_andThen [where P = "\<lambda>ws. \<forall>v \<in> set ws. typed tys v"])
qed simp

lemma removeDistinct_typed:
  assumes "good tys r" "0 \<le> shown p (length tys)" "shown p (length tys) \<le> int (length tys)"
  shows "safe (good tys) (removeDistinctRowInResult F p r)"
proof -
  have "sp_originColumnCount p + deltaColumnCount p r = shown p (length tys)"
    using assms(1) by (simp add: good_def shown_def deltaColumnCount_def)
  then show ?thesis using assms distinct_loop_typed [OF assms(2,3), of "rs_Values r" F "[]"]
    by (auto simp: removeDistinctRowInResult_def good_def intro!: safe_andThen)
qed

lemma removeDistinct_nonempty:
  assumes "removeDistinctRowInResult F p r = Ok r'" "rs_Values r \<noteq> []"
  shows "rs_Values r' \<noteq> []"
proof -
  obtain v vs where "rs_Values r = v # vs" using assms(2) by (cases "rs_Values r") auto
  then show ?thesis using assms(1) by (auto simp: removeDistinctRowInResult_def split: if_splits)
qed

lemma update_rows: "(k, v) \<in> set (AList.update i x m) \<Longrightarrow> v = x \<or> (k, v) \<in> set m"
  by (induction m) (auto split: if_splits)

definition rows_typed :: "ctype list \<Rightarrow> (string \<times> 'f ResultRow) list \<Rightarrow> bool" where
  "rows_typed tys m \<longleftrightarrow> (\<forall>(k, v) \<in> set m. typed tys v)"

lemma rows_typed_simps:
  "rows_typed tys []" "rows_typed tys m \<Longrightarrow> typed tys v \<Longrightarrow> rows_typed tys (m @ [(k, v)])"
  "rows_typed tys m \<Longrightarrow> typed tys v \<Longrightarrow> rows_typed tys (AList.update k v m)"
  "rows_typed tys m \<Longrightarrow> map_of m k = Some v \<Longrightarrow> typed tys v"
  by (auto simp: rows_typed_def dest: update_rows map_of_SomeD)

lemma group_loop_typed:
  assumes "\<forall>c \<in> set (sp_groupByColumn p). 0 \<le> c + delta \<and> c + delta < int (length tys)"
    "\<forall>(i, f) \<in> set (sp_aggregateFuncs p). agg_ok tys f"
  shows "\<forall>v \<in> set vs. typed tys v \<Longrightarrow> rows_typed tys m \<Longrightarrow> safe (rows_typed tys) (group_loop F p delta m vs)"
proof (induction vs arbitrary: m)
  case (Cons v vs)
  have v: "typed tys v" using Cons.prems by simp
  let ?ks = "map (\<lambda>c. v ! nat (c + delta)) (sp_groupByColumn p)"
  have a: "all_ok (map (\<lambda>c. at v (c + delta)) (sp_groupByColumn p)) = Ok ?ks"
    using assms(1) typed_nth [OF v] by (intro all_ok_mapI) auto
  have k: "safe (\<lambda>_. True) (generateMapKey F ?ks)"
    using assms(1) typed_nth [OF v] by (intro generateMapKey_typed) fastforce
  have step: "safe (rows_typed tys) (case map_of m mk of None \<Rightarrow> group_loop F p delta (m @ [(mk, v)]) vs
      | Some to \<Rightarrow> andThen (merge_all F (sp_aggregateFuncs p) v to) (\<lambda>to. group_loop F p delta (AList.update mk to m) vs))" for mk
  proof (cases "map_of m mk")
    case None
    then show ?thesis using Cons v by (simp add: rows_typed_simps)
  next
    case (Some to)
    then have "typed tys to" using Cons.prems(2) rows_typed_simps(4) by blast
    then have "safe (rows_typed tys) (andThen (merge_all F (sp_aggregateFuncs p) v to) (\<lambda>to. group_loop F p delta (AList.update mk to m) vs))"
      using Cons v by (intro safe_andThen [OF merge_all_typed [OF v _ assms(2)]]) (simp_all add: rows_typed_simps)
    then show ?thesis using Some by simp
  qed
  show ?case using safe_andThen [OF k step] a by simp
qed simp

lemma buildGroup_typed:
  assumes "good tys r" "\<forall>c \<in> set (sp_groupByColumn p). 0 \<le> c + deltaColumnCount p r \<and> c + deltaColumnCount p r < int (length tys)"
    "\<forall>(i, f) \<in> set (sp_aggregateFuncs p). agg_ok tys f" "\<And>ks. set (order ks) \<subseteq> set ks"
  shows "safe (good tys) (buildSelectGroupByResult F order p r)"
proof -
  have g: "safe (rows_typed tys) (group_loop F p (deltaColumnCount p r) [] (rs_Values r))"
    using assms(1) rows_typed_simps(1) by (intro group_loop_typed [OF assms(2,3)]) (simp_all add: good_def)
  have "good tys (buildResultFromResultMap order r m)" if m: "rows_typed tys m" for m
  proof -
    have "typed tys (the (map_of m k))" if "k \<in> set (order (map fst m))" for k
    proof -
      have "k \<in> fst ` set m" using that assms(4) [of "map fst m"] by auto
      then obtain v where v: "map_of m k = Some v" by (meson map_of_eq_None_iff not_Some_eq)
      then show ?thesis using rows_typed_simps(4) [OF m v] by simp
    qed
    then show ?thesis using assms(1) by (auto simp: buildResultFromResultMap_def good_def)
  qed
  then show ?thesis unfolding buildSelectGroupByResult_def by (intro safe_andThen [OF g]) simp
qed

lemma only_loop_typed:
  "typed tys cur \<Longrightarrow> \<forall>v \<in> set vs. typed tys v \<Longrightarrow> \<forall>(i, f) \<in> set fs. agg_ok tys f \<Longrightarrow>
   safe (typed tys) (only_loop F fs cur vs)"
proof (induction vs arbitrary: cur)
  case (Cons v vs)
  have "safe (typed tys) (merge_all F fs v cur)" using Cons.prems by (intro merge_all_typed) auto
  then show ?case using Cons by (auto intro!: safe_andThen [where P = "typed tys"])
qed simp

lemma buildOnly_typed:
  assumes "good tys r" "\<forall>(i, f) \<in> set (sp_aggregateFuncs p). agg_ok tys f"
    "sp_aggregateFuncs p = [] \<or> rs_Values r \<noteq> []"
  shows "safe (good tys) (buildSelectOnlyResult F p r)"
proof (cases "sp_aggregateFuncs p = []")
  case False
  then obtain v vs where v: "rs_Values r = v # vs" using assms(3) by (cases "rs_Values r") auto
  then have "safe (typed tys) (only_loop F (sp_aggregateFuncs p) v vs)"
    using assms(1,2) by (intro only_loop_typed) (auto simp: good_def)
  then show ?thesis using False v assms(1)
    by (auto simp: buildSelectOnlyResult_def good_def intro!: safe_andThen [where P = "typed tys"])
qed (use assms(1) in \<open>simp add: buildSelectOnlyResult_def\<close>)

lemma sort_good:
  assumes "sorter_ok srt" "fl_order F" "good tys r" "keys_in (sort_keys p (length tys)) tys"
    "length (sp_orderByColumn p) = length (sp_orderByDirections p)"
  shows "safe (good tys) (sortSelectResult F srt p r)"
proof -
  obtain zs ds where z: "sortSelectResult F srt p r = Ok (r\<lparr>rs_Values := zs, rs_RowDatas := ds\<rparr>)" "mset zs = mset (rs_Values r)"
    using sort_select_typed [OF assms(1,2) _ _ assms(4,5), of r] assms(3) by (auto simp: good_def)
  then show ?thesis using assms(3) mset_eq_setD [OF z(2)] by (simp add: good_def)
qed

lemma limit_good:
  assumes "good tys r" "\<not> HasLimit p \<or> 0 \<le> sp_offset p \<and> 0 \<le> sp_count p \<and> sp_offset p + sp_count p < 2 ^ 63"
  shows "safe (good tys) (limitSelectResult p r)"
proof (cases "HasLimit p")
  case True
  then obtain ds where "limitSelectResult p r =
      Ok (r\<lparr>rs_Values := take (nat (sp_count p)) (drop (nat (sp_offset p)) (rs_Values r)), rs_RowDatas := ds\<rparr>)"
    using limit_rows assms(2) by blast
  then show ?thesis using assms(1) by (auto simp: good_def dest: in_set_takeD in_set_dropD)
qed (use assms(1) in \<open>simp add: limitSelectResult_def\<close>)

lemma finish_good:
  assumes "good tys r" "0 \<le> shown p (length tys)" "shown p (length tys) \<le> int (length tys)"
  shows "safe (good (take (nat (shown p (length tys))) tys))
    (andThen (wrap m (trimExtraFields p r)) (\<lambda>r. wrap m' (GenerateSelectResultRowData F r)))"
proof -
  let ?w = "nat (shown p (length tys))"
  have g: "\<forall>v \<in> set (rs_Values r). typed tys v" "length (rs_Fields r) = length tys" using assms(1) by (simp_all add: good_def)
  obtain r' where r': "andThen (wrap m (trimExtraFields p r)) (\<lambda>r. wrap m' (GenerateSelectResultRowData F r)) = Ok r'"
    "rs_Fields r' = take ?w (rs_Fields r)" "rs_Values r' = map (take ?w) (rs_Values r)"
    using finish_typed [OF g assms(2,3)] by blast
  have "typed (take ?w tys) v" if "v \<in> set (rs_Values r')" for v
    using that g(1) r'(3) typed_take [of tys _ ?w] by (simp only: set_map) blast
  then have "good (take ?w tys) r'" using g(2) r'(2) by (simp add: good_def)
  then show ?thesis unfolding r'(1) safe.simps .
qed

text \<open>The columns that a plan names lie within a result of \<open>n\<close> columns of these types.\<close>

definition plan_fits :: "SelectPlan \<Rightarrow> ctype list \<Rightarrow> bool" where
  "plan_fits p tys \<longleftrightarrow>
     (\<forall>c \<in> set (sp_groupByColumn p). 0 \<le> c + (int (length tys) - sp_columnCount p) \<and> c + (int (length tys) - sp_columnCount p) < int (length tys)) \<and>
     keys_in (sort_keys p (length tys)) tys \<and> length (sp_orderByColumn p) = length (sp_orderByDirections p) \<and>
     0 \<le> shown p (length tys) \<and> shown p (length tys) \<le> int (length tys) \<and>
     (\<forall>(i, f) \<in> set (sp_aggregateFuncs p). agg_ok tys f) \<and>
     (\<not> HasLimit p \<or> 0 \<le> sp_offset p \<and> 0 \<le> sp_count p \<and> sp_offset p + sp_count p < 2 ^ 63)"

text \<open>
  C9: merging is type safe. For shard results whose rows have the column types \<open>tys\<close>, a plan whose columns and
  aggregates fit these types, and at least one row where aggregates are selected without \<^verbatim>\<open>GROUP BY\<close>, merging
  does not panic; if it succeeds, every row of the result has the types of the selected columns.
\<close>

theorem merge_type_safe:
  assumes "rs \<noteq> []" "\<forall>r \<in> set rs. good tys r" "plan_fits p tys" "sorter_ok srt" "fl_order F" "\<forall>ks. set (order ks) \<subseteq> set ks"
    "grouped \<or> sp_aggregateFuncs p = [] \<or> (\<exists>r \<in> set rs. rs_Values r \<noteq> [])"
  shows "safe (good (take (nat (shown p (length tys))) tys)) (MergeSelectResult F order srt p grouped rs)"
proof -
  note f = assms(3) [unfolded plan_fits_def]
  obtain r0 where r0: "mergeMultiResultSet rs = Ok r0" using assms(1) by (cases rs) (auto simp: mergeMultiResultSet_def)
  have v0: "rs_Values r0 = concat (map rs_Values rs)" "rs_Fields r0 = rs_Fields (hd rs)" using merge_values [OF r0] by simp_all
  then have g0: "good tys r0" using assms(1,2) by (auto simp: good_def)
  define Q where "Q r \<longleftrightarrow> good tys r \<and> (grouped \<or> sp_aggregateFuncs p = [] \<or> rs_Values r \<noteq> [])" for r :: "'a Result"
  have q0: "Q r0" using g0 v0(1) assms(7) by (auto simp: Q_def)
  have "Q r" if "removeDistinctRowInResult F p r0 = Ok r" "good tys r" for r
    using that q0 removeDistinct_nonempty [OF that(1)] by (auto simp: Q_def)
  then have dist: "safe Q (if sp_distinct p then removeDistinctRowInResult F p r0 else Ok r0)"
    using q0 removeDistinct_typed [OF g0, of p F] f by (cases "removeDistinctRowInResult F p r0") auto
  have build: "safe (good tys) (if grouped then buildSelectGroupByResult F order p r else buildSelectOnlyResult F p r)" if "Q r" for r
  proof -
    have g: "good tys r" and o: "grouped \<or> sp_aggregateFuncs p = [] \<or> rs_Values r \<noteq> []" using that by (simp_all add: Q_def)
    have "deltaColumnCount p r = int (length tys) - sp_columnCount p" using g by (simp add: good_def deltaColumnCount_def)
    then show ?thesis using buildGroup_typed [OF g, of p order F] buildOnly_typed [OF g, of p F] f assms(6) o by auto
  qed
  have rest: "safe (good (take (nat (shown p (length tys))) tys)) (andThen (sortSelectResult F srt p r) (\<lambda>r. andThen (limitSelectResult p r)
      (\<lambda>r. andThen (wrap ''trimExtraFields error'' (trimExtraFields p r)) (\<lambda>r. wrap ''generate RowData error'' (GenerateSelectResultRowData F r)))))"
    if "good tys r" for r
    by (intro safe_andThen [OF sort_good [OF assms(4,5)]] safe_andThen [OF limit_good] finish_good) (use f that in blast)+
  show ?thesis unfolding MergeSelectResult_def r0 andThen.simps
    by (rule safe_andThen [OF dist], rule safe_andThen [OF build], assumption, rule rest)
qed

theorem merge_type_safe_witness:
  "safe (good [TInt64]) (MergeSelectResult example_float id insertion_sort example_plan False (map (example_result 1) example_shards))"
proof -
  have "plan_fits example_plan [TInt64]" "sp_aggregateFuncs example_plan = []"
    "take (nat (shown example_plan (length [TInt64]))) [TInt64] = [TInt64]"
    by (simp_all add: plan_fits_def sort_keys_def shown_def keys_in_def HasLimit_def example_plan_def NewSelectPlan_def)
  moreover have "map (example_result 1) example_shards \<noteq> []"
    "\<forall>r \<in> set (map (example_result 1) example_shards). good [TInt64] r"
    by code_simp+
  ultimately show ?thesis
    using merge_type_safe [of "map (example_result 1) example_shards" "[TInt64]" example_plan insertion_sort example_float id False]
      insertion_sort_ok example_float_order by simp
qed

end
