(* ===== verification/Merge_Group.thy ===== *)
theory Merge_Group
  imports Merge_Type Sequence
begin

text \<open>
  Grouping and aggregation over shards: the merged result of the shards is the result of the grouped
  query on the rows of all shards.
\<close>

section \<open>Aggregates of integer columns\<close>

datatype agg = ACount | ASum | AMax | AMin

fun merger_of :: "agg \<Rightarrow> int \<Rightarrow> AggregateFuncMerger" where
  "merger_of ACount i = AggregateFuncCountMerger i"
| "merger_of ASum i = AggregateFuncSumMerger i"
| "merger_of AMax i = AggregateFuncMaxMerger i"
| "merger_of AMin i = AggregateFuncMinMerger i"

text \<open>What a database returns for an aggregate of a column with the values \<open>xs\<close>, \<open>None\<close> for NULL: the sum as a
  decimal, which the proxy reads as \<^verbatim>\<open>float64\<close>.\<close>

fun sql_agg :: "'f float64 \<Rightarrow> agg \<Rightarrow> int option list \<Rightarrow> 'f val" where
  "sql_agg F ACount xs = VInt64 (int (length (List.map_filter id xs)))"
| "sql_agg F ASum xs = (case List.map_filter id xs of [] \<Rightarrow> VNil | v # vs \<Rightarrow> VFloat64 (fl_of_int F (sum_list (v # vs))))"
| "sql_agg F AMax xs = (case List.map_filter id xs of [] \<Rightarrow> VNil | v # vs \<Rightarrow> VInt64 (fold max vs v))"
| "sql_agg F AMin xs = (case List.map_filter id xs of [] \<Rightarrow> VNil | v # vs \<Rightarrow> VInt64 (fold min vs v))"

text \<open>Integers up to \<open>2 ^ 53\<close> are exact in \<^verbatim>\<open>float64\<close>.\<close>

definition exact_sums :: "'f float64 \<Rightarrow> bool" where
  "exact_sums F \<longleftrightarrow>
     (\<forall>a b. \<bar>a\<bar> \<le> 2 ^ 53 \<longrightarrow> \<bar>b\<bar> \<le> 2 ^ 53 \<longrightarrow> \<bar>a + b\<bar> \<le> 2 ^ 53 \<longrightarrow> fl_add F (fl_of_int F a) (fl_of_int F b) = fl_of_int F (a + b))"

definition fits :: "int option list \<Rightarrow> bool" where
  "fits xs \<longleftrightarrow> int (length xs) < 2 ^ 63 \<and> sum_list (map abs (List.map_filter id xs)) \<le> 2 ^ 53"

lemma map_filter_app [simp]: "List.map_filter f (xs @ ys) = List.map_filter f xs @ List.map_filter f ys"
  by (simp add: List.map_filter_def)

lemma length_map_filter: "length (List.map_filter f xs) \<le> length xs"
  by (simp add: List.map_filter_def)

lemma sum_list_abs_nonneg: "0 \<le> sum_list (map abs (xs :: int list))"
  by (induction xs) auto

lemma abs_sum_list: "\<bar>sum_list xs\<bar> \<le> sum_list (map abs (xs :: int list))"
  by (induction xs) auto

lemma fits_appendD: "fits (xs @ ys) \<Longrightarrow> fits xs \<and> fits ys"
  using sum_list_abs_nonneg [of "List.map_filter id xs"] sum_list_abs_nonneg [of "List.map_filter id ys"]
  by (auto simp: fits_def)

lemma fits_sum: "fits xs \<Longrightarrow> \<bar>sum_list (List.map_filter id xs)\<bar> \<le> 2 ^ 53"
  using abs_sum_list [of "List.map_filter id xs"] by (simp add: fits_def)

lemma count_merge:
  assumes "fits (ys @ xs)"
  shows "i64 (int (length (List.map_filter id ys)) + int (length (List.map_filter id xs))) =
    int (length (List.map_filter id (ys @ xs)))"
  using assms length_map_filter [of id ys] length_map_filter [of id xs]
  by (subst i64_id) (auto simp: fits_def in_i64_bounds)

lemma sum_merge:
  assumes "fits (ys @ xs)" "exact_sums F"
  shows "fl_add F (fl_of_int F (sum_list (List.map_filter id ys))) (fl_of_int F (sum_list (List.map_filter id xs))) =
    fl_of_int F (sum_list (List.map_filter id ys) + sum_list (List.map_filter id xs))"
  using fits_sum [OF assms(1)] fits_appendD [OF assms(1)] fits_sum [of xs] fits_sum [of ys] assms(2)
  by (simp add: exact_sums_def)

lemma fold_max_merge: "fold max (vs @ w # ws) v = max (fold max vs v) (fold max ws (w :: int))"
proof -
  have h: "fold max ws (max a b) = max a (fold max ws b)" for a b :: int
    by (induction ws arbitrary: a b) (auto simp: max.left_commute max.commute)
  have "fold max (vs @ w # ws) v = fold max ws (max (fold max vs v) w)" by (simp add: max.commute)
  then show ?thesis unfolding h .
qed

lemma fold_min_merge: "fold min (vs @ w # ws) v = min (fold min vs v) (fold min ws (w :: int))"
proof -
  have h: "fold min ws (min a b) = min a (fold min ws b)" for a b :: int
    by (induction ws arbitrary: a b) (auto simp: min.left_commute min.commute)
  have "fold min (vs @ w # ws) v = fold min ws (min (fold min vs v) w)" by (simp add: min.commute)
  then show ?thesis unfolding h .
qed

lemma MergeTo_agg:
  assumes "from ! nat i = sql_agg F a xs" "to ! nat i = sql_agg F a ys" "0 \<le> i" "i < int (length from)" "i < int (length to)"
    "fits (ys @ xs)" "exact_sums F"
  shows "MergeTo F (merger_of a i) from to = Ok (to[nat i := sql_agg F a (ys @ xs)])"
proof -
  have at': "at from i = Ok (sql_agg F a xs)" "at to i = Ok (sql_agg F a ys)" using assms(1-5) by (simp_all add: at_def)
  have keep: "to[nat i := sql_agg F a ys] = to" using assms(2,5) by (metis list_update_id)
  have rows: "in_rows i from to k = k" for k :: "'b ResultRow res" using assms(4,5) by (simp add: in_rows_def)
  have sv: "SetValue to i v = Ok (to[nat i := v])" for v using assms(3,5) by (simp add: SetValue_def)
  show ?thesis
  proof (cases a)
    case ACount
    then show ?thesis using at' count_merge [OF assms(6)] by (simp add: count_MergeTo_def rows GetInt_def sv)
  next
    case ASum
    note s = sum_merge [OF assms(6,7)]
    show ?thesis
      using ASum at' keep s
      by (cases "List.map_filter id xs"; cases "List.map_filter id ys")
         (simp_all add: sum_MergeTo_def rows GetValue_def sumToFloat64_def GetFloat_def sv add.assoc)
  next
    case AMax
    show ?thesis using AMax at' keep
      by (cases "List.map_filter id xs"; cases "List.map_filter id ys")
         (simp_all add: extremum_MergeTo_def rows GetValue_def sv fold_max_merge max_def del: fold_append)
  next
    case AMin
    show ?thesis using AMin at' keep
      by (cases "List.map_filter id xs"; cases "List.map_filter id ys")
         (simp_all add: extremum_MergeTo_def rows GetValue_def sv fold_min_merge min_def del: fold_append)
  qed
qed

section \<open>Rows of groups\<close>

text \<open>\<open>agg_step F from to new (i, m)\<close>: merger \<open>m\<close> for column \<open>i\<close> combines two aggregates into that of \<open>new\<close>.\<close>

definition agg_step :: "'f float64 \<Rightarrow> 'f ResultRow \<Rightarrow> 'f ResultRow \<Rightarrow> 'f ResultRow \<Rightarrow> int \<times> AggregateFuncMerger \<Rightarrow> bool" where
  "agg_step F from to new im \<longleftrightarrow>
     (case im of (i, m) \<Rightarrow> 0 \<le> i \<and> i < int (length to) \<and>
        (\<exists>a xs ys. m = merger_of a i \<and> from ! nat i = sql_agg F a xs \<and> to ! nat i = sql_agg F a ys \<and> fits (ys @ xs) \<and>
           new ! nat i = sql_agg F a (ys @ xs)))"

lemma merge_all_rows:
  assumes "exact_sums F" "length from = length to" "length new = length to" "distinct (map fst fs)"
    "\<forall>im \<in> set fs. agg_step F from to new im" "\<forall>j < length to. int j \<notin> fst ` set fs \<longrightarrow> new ! j = to ! j"
  shows "merge_all F fs from to = Ok new"
  using assms(2-6)
proof (induction fs arbitrary: to)
  case Nil
  then show ?case by (auto intro: nth_equalityI)
next
  case (Cons im fs)
  obtain i m where im: "im = (i, m)" by (cases im)
  obtain a xs ys where a: "0 \<le> i" "i < int (length to)" "m = merger_of a i" "from ! nat i = sql_agg F a xs" "to ! nat i = sql_agg F a ys"
    "fits (ys @ xs)" "new ! nat i = sql_agg F a (ys @ xs)"
    using Cons.prems(4) im by (auto simp: agg_step_def)
  let ?to = "to[nat i := new ! nat i]"
  have m: "MergeTo F m from to = Ok ?to"
    using MergeTo_agg [OF a(4,5,1) _ a(2,6) assms(1)] a(2,3,7) Cons.prems(1) by simp
  have "agg_step F from ?to new x" if x: "x \<in> set fs" for x
  proof -
    have "fst x \<noteq> i" using x Cons.prems(3) im by force
    then have "0 \<le> fst x \<Longrightarrow> nat (fst x) \<noteq> nat i" using a(1) by simp
    moreover have "agg_step F from to new x" using Cons.prems(4) x by simp
    ultimately show ?thesis by (auto simp: agg_step_def split: prod.splits)
  qed
  moreover have "new ! j = ?to ! j" if "j < length to" "int j \<notin> fst ` set fs" for j
    using Cons.prems(5) that a(1) im by (cases "j = nat i") auto
  ultimately have "merge_all F fs from ?to = Ok new"
    using Cons.prems by (intro Cons.IH) auto
  then show ?case by (simp add: im m)
qed

text \<open>
  The columns of a grouped query: the \<open>j\<close>-th value to group by, or an aggregate of a column of the table
  rows. \<open>row_of F g cols s k\<close> is the row that the query returns on the rows \<open>s\<close> for the group \<open>k\<close>.
\<close>

datatype 'r item = IKey nat | IAgg agg "'r \<Rightarrow> int option"

fun item_value :: "'f float64 \<Rightarrow> int list \<Rightarrow> 'r list \<Rightarrow> 'r item \<Rightarrow> 'f val" where
  "item_value F k s (IKey j) = VInt64 (k ! j)"
| "item_value F k s (IAgg a f) = sql_agg F a (map f s)"

definition row_of :: "'f float64 \<Rightarrow> ('r \<Rightarrow> int list) \<Rightarrow> 'r item list \<Rightarrow> 'r list \<Rightarrow> int list \<Rightarrow> 'f ResultRow" where
  "row_of F g cols s k = map (item_value F k (filter (\<lambda>r. g r = k) s)) cols"

definition agg_funcs :: "'r item list \<Rightarrow> (int \<times> AggregateFuncMerger) list \<Rightarrow> bool" where
  "agg_funcs cols fs \<longleftrightarrow> distinct (map fst fs) \<and>
     set fs = {(int i, merger_of a (int i)) |i a. i < length cols \<and> (\<exists>f. cols ! i = IAgg a f)}"

definition all_fit :: "'r item list \<Rightarrow> 'r list \<Rightarrow> bool" where
  "all_fit cols s \<longleftrightarrow> (\<forall>a f. IAgg a f \<in> set cols \<longrightarrow> fits (map f s))"

lemma fits_filter: "fits (map f s) \<Longrightarrow> fits (map f (filter P s))"
proof -
  assume a: "fits (map f s)"
  have "sum_list (map abs (List.map_filter id (map f (filter P s)))) \<le> sum_list (map abs (List.map_filter id (map f s)))"
    by (induction s) (auto simp: List.map_filter_def)
  moreover have "length (filter P s) \<le> length s" by simp
  ultimately show ?thesis using a unfolding fits_def length_map by linarith
qed

lemma merge_groups:
  assumes "agg_funcs cols fs" "exact_sums F" "all_fit cols (filter (\<lambda>r. g r = k) (t @ s))"
  shows "merge_all F fs (row_of F g cols s k) (row_of F g cols t k) = Ok (row_of F g cols (t @ s) k)"
proof (rule merge_all_rows [OF assms(2)])
  show "distinct (map fst fs)" using assms(1) by (simp add: agg_funcs_def)
  show "\<forall>im \<in> set fs. agg_step F (row_of F g cols s k) (row_of F g cols t k) (row_of F g cols (t @ s) k) im"
  proof
    fix im
    assume "im \<in> set fs"
    then obtain i a f where i: "im = (int i, merger_of a (int i))" "i < length cols" "cols ! i = IAgg a f"
      using assms(1) by (auto simp: agg_funcs_def)
    then have "fits (map f (filter (\<lambda>r. g r = k) (t @ s)))" using assms(3) nth_mem [OF i(2)] unfolding all_fit_def by metis
    with i show "agg_step F (row_of F g cols s k) (row_of F g cols t k) (row_of F g cols (t @ s) k) im"
      by (auto simp: agg_step_def row_of_def)
  qed
  show "\<forall>j < length (row_of F g cols t k). int j \<notin> fst ` set fs \<longrightarrow> row_of F g cols (t @ s) k ! j = row_of F g cols t k ! j"
  proof (intro allI impI)
    fix j
    assume j: "j < length (row_of F g cols t k)" "int j \<notin> fst ` set fs"
    then obtain n where "cols ! j = IKey n"
      using assms(1) by (cases "cols ! j") (force simp: agg_funcs_def row_of_def)+
    then show "row_of F g cols (t @ s) k ! j = row_of F g cols t k ! j" using j(1) by (simp add: row_of_def)
  qed
qed (simp_all add: row_of_def)

section \<open>Keys of groups\<close>

definition enc :: "int list \<Rightarrow> string" where
  "enc k = concat (map (\<lambda>n. itoa n @ ''+'') k)"

lemma generateMapKey_ints: "generateMapKey F (map VInt64 k) = Ok (enc k)"
  by (induction k) (simp_all add: enc_def)

lemma itoa_inj: "in_i64 m \<Longrightarrow> in_i64 n \<Longrightarrow> itoa m = itoa n \<Longrightarrow> m = n"
  using atoi_itoa by (metis res.inject(1))

lemma plus_itoa: "CHR ''+'' \<notin> set (itoa n)"
  using itoa_chars [of "CHR ''+''" n] by (auto simp: is_digit_def)

lemma split_at_sep: "c \<notin> set a \<Longrightarrow> c \<notin> set b \<Longrightarrow> a @ c # x = b @ c # y \<Longrightarrow> a = b \<and> x = y"
  by (induction a arbitrary: b) (auto simp: Cons_eq_append_conv append_eq_Cons_conv)

lemma enc_inj: "list_all in_i64 k \<Longrightarrow> list_all in_i64 k' \<Longrightarrow> enc k = enc k' \<Longrightarrow> k = k'"
proof (induction k arbitrary: k')
  case Nil
  then show ?case by (cases k') (auto simp: enc_def)
next
  case (Cons n k)
  obtain n' l where k': "k' = n' # l" using Cons.prems(3) by (cases k') (auto simp: enc_def)
  have "itoa n @ CHR ''+'' # enc k = itoa n' @ CHR ''+'' # enc l" using Cons.prems(3) by (simp add: enc_def k')
  then have "itoa n = itoa n' \<and> enc k = enc l" using split_at_sep plus_itoa by metis
  then show ?case using Cons itoa_inj by (auto simp: k')
qed

section \<open>Grouping\<close>

definition group_map :: "(int list \<Rightarrow> 'a) \<Rightarrow> int list list \<Rightarrow> (string \<times> 'a) list" where
  "group_map R ks = map (\<lambda>k. (enc k, R k)) ks"

definition key_list :: "int list list \<Rightarrow> bool" where
  "key_list ks \<longleftrightarrow> distinct ks \<and> list_all (list_all in_i64) ks"

lemma group_map_lookup:
  assumes "key_list ks" "list_all in_i64 k"
  shows "map_of (group_map R ks) (enc k) = (if k \<in> set ks then Some (R k) else None)"
  using assms(1)
proof (induction ks)
  case (Cons l ks)
  then have "enc k = enc l \<longleftrightarrow> k = l" using enc_inj assms(2) by (auto simp: key_list_def)
  then show ?case using Cons by (auto simp: group_map_def key_list_def)
qed (simp add: group_map_def)

lemma group_map_update:
  assumes "key_list ks" "k \<in> set ks"
  shows "AList.update (enc k) x (group_map R ks) = group_map (\<lambda>l. if l = k then x else R l) ks"
  using assms
proof (induction ks)
  case (Cons l ks)
  have ik: "list_all in_i64 k" using Cons.prems by (auto simp: key_list_def list_all_iff)
  show ?case
  proof (cases "k = l")
    case True
    then have "k \<notin> set ks" using Cons.prems by (auto simp: key_list_def)
    then show ?thesis using True by (auto simp: group_map_def)
  next
    case False
    then have "enc k \<noteq> enc l" using enc_inj ik Cons.prems(1) by (auto simp: key_list_def)
    moreover have "key_list ks" "k \<in> set ks" using Cons.prems False by (auto simp: key_list_def)
    ultimately show ?thesis using Cons.IH False by (auto simp: group_map_def)
  qed
qed simp

text \<open>A part is the row of one group of one shard. \<open>firsts\<close> lists the groups in order of appearance, \<open>rows_in\<close>
  collects the shards in which a group occurs.\<close>

definition firsts :: "'a list \<Rightarrow> 'a list" where
  "firsts xs = rev (remdups (rev xs))"

definition rows_in :: "('r list \<times> int list) list \<Rightarrow> int list \<Rightarrow> 'r list" where
  "rows_in parts k = concat (map fst (filter (\<lambda>x. snd x = k) parts))"

lemma firsts_simps [simp]:
  "firsts [] = []" "firsts (xs @ [x]) = (if x \<in> set xs then firsts xs else firsts xs @ [x])"
  "set (firsts xs) = set xs" "distinct (firsts xs)"
  by (simp_all add: firsts_def)

lemma rows_in_snoc:
  "rows_in (parts @ [(s, k)]) l = (if l = k then rows_in parts k @ s else rows_in parts l)"
  by (simp add: rows_in_def)

lemma group_loop_append:
  "group_loop F p d m (vs @ ws) = andThen (group_loop F p d m vs) (\<lambda>m. group_loop F p d m ws)"
proof (induction vs arbitrary: m)
  case (Cons v vs)
  obtain a where a: "all_ok (map (\<lambda>index. at v (index + d)) (sp_groupByColumn p)) = a" by blast
  show ?case
  proof (cases a)
    case (Ok ks)
    show ?thesis
    proof (cases "generateMapKey F ks")
      case (Ok mk)
      show ?thesis
      proof (cases "map_of m mk")
        case (Some to)
        then show ?thesis using Cons Ok \<open>a = Ok ks\<close> a by (cases "merge_all F (sp_aggregateFuncs p) v to") simp_all
      qed (use Cons Ok \<open>a = Ok ks\<close> a in simp)
    qed (use Ok a in simp_all)
  qed (use a in simp_all)
qed simp

definition key_columns :: "'r item list \<Rightarrow> int list \<Rightarrow> int \<Rightarrow> bool" where
  "key_columns cols gs d \<longleftrightarrow>
     (\<forall>j < length gs. 0 \<le> gs ! j + d \<and> gs ! j + d < int (length cols) \<and> cols ! nat (gs ! j + d) = IKey j)"

lemma row_key:
  assumes "key_columns cols gs d" "length k = length gs"
  shows "all_ok (map (\<lambda>c. at (row_of F g cols s k) (c + d)) gs) = Ok (map VInt64 k)"
proof -
  have "all_ok (map (\<lambda>c. at (row_of F g cols s k) (c + d)) gs) = Ok (map (\<lambda>c. row_of F g cols s k ! nat (c + d)) gs)"
    using assms(1) by (intro all_ok_mapI) (auto simp: key_columns_def in_set_conv_nth at_def row_of_def)
  also have "map (\<lambda>c. row_of F g cols s k ! nat (c + d)) gs = map VInt64 k"
    using assms by (intro nth_equalityI) (auto simp: key_columns_def row_of_def)
  finally show ?thesis .
qed

lemma all_fit_appendD: "all_fit cols (s @ t) \<Longrightarrow> all_fit cols s"
  by (auto simp: all_fit_def dest: fits_appendD)

lemma group_loop_parts:
  assumes "key_columns cols (sp_groupByColumn p) d" "agg_funcs cols (sp_aggregateFuncs p)" "exact_sums F"
    "\<forall>(s, k) \<in> set parts. length k = length (sp_groupByColumn p) \<and> list_all in_i64 k"
    "\<forall>k. all_fit cols (filter (\<lambda>r. g r = k) (rows_in parts k))"
  shows "group_loop F p d [] (map (\<lambda>(s, k). row_of F g cols s k) parts) =
    Ok (group_map (\<lambda>k. row_of F g cols (rows_in parts k) k) (firsts (map snd parts)))"
  using assms(4,5)
proof (induction parts rule: rev_induct)
  case Nil
  then show ?case by (simp add: group_map_def)
next
  case (snoc x parts)
  obtain s k where x: "x = (s, k)" by (cases x)
  let ?ks = "firsts (map snd parts)" and ?R = "\<lambda>k. row_of F g cols (rows_in parts k) k"
  have fit2: "all_fit cols (filter (\<lambda>r. g r = k) (rows_in parts k @ s))"
    using spec [OF snoc.prems(2), of k] unfolding x rows_in_snoc by simp
  have fit1: "all_fit cols (filter (\<lambda>r. g r = l) (rows_in parts l))" for l
    using spec [OF snoc.prems(2), of l] all_fit_appendD [OF fit2 [unfolded filter_append]] unfolding x rows_in_snoc
    by (cases "l = k") simp_all
  have IH: "group_loop F p d [] (map (\<lambda>(s, k). row_of F g cols s k) parts) = Ok (group_map ?R ?ks)"
    using snoc.IH snoc.prems(1) fit1 by simp
  have k: "length k = length (sp_groupByColumn p)" "list_all in_i64 k" using snoc.prems(1) x by auto
  have kl: "key_list ?ks" using snoc.prems(1) by (auto simp: key_list_def list_all_iff)
  note key = row_key [OF assms(1) k(1)] generateMapKey_ints group_map_lookup [OF kl k(2)]
  have step: "group_loop F p d (group_map ?R ?ks) [row_of F g cols s k] =
      Ok (group_map (\<lambda>l. row_of F g cols (rows_in (parts @ [x]) l) l) (firsts (map snd (parts @ [x]))))"
  proof (cases "k \<in> set ?ks")
    case True
    have "group_map (\<lambda>l. if l = k then row_of F g cols (rows_in parts k @ s) k else ?R l) ?ks =
        group_map (\<lambda>l. row_of F g cols (rows_in (parts @ [x]) l) l) ?ks"
      by (auto simp: group_map_def x rows_in_snoc)
    moreover have "firsts (map snd (parts @ [x])) = ?ks" using True by (simp add: x)
    ultimately show ?thesis
      using True by (simp add: key merge_groups [OF assms(2,3) fit2] group_map_update [OF kl True])
  next
    case False
    then have "filter (\<lambda>x. snd x = k) parts = []" by (force simp: filter_empty_conv)
    then have "rows_in parts k = []" by (simp add: rows_in_def)
    moreover have "group_map (\<lambda>l. row_of F g cols (rows_in (parts @ [x]) l) l) ?ks = group_map ?R ?ks"
      using False by (auto simp: group_map_def x rows_in_snoc)
    ultimately show ?thesis using False by (simp add: key) (simp add: group_map_def x rows_in_snoc)
  qed
  show ?case using IH step by (simp add: group_loop_append x)
qed

section \<open>The shards of a grouped query\<close>

text \<open>\<open>enumerates g ks s\<close>: the groups of the rows \<open>s\<close>, each once, in the order in which a shard returns them.\<close>

definition enumerates :: "('r \<Rightarrow> int list) \<Rightarrow> int list list \<Rightarrow> 'r list \<Rightarrow> bool" where
  "enumerates g ks s \<longleftrightarrow> distinct ks \<and> set ks = g ` set s"

definition parts_of :: "'r list list \<Rightarrow> int list list list \<Rightarrow> ('r list \<times> int list) list" where
  "parts_of shards kss = concat (map2 (\<lambda>s ks. map (Pair s) ks) shards kss)"

lemma filter_key: "distinct ks \<Longrightarrow> filter (\<lambda>x. snd x = k) (map (Pair s) ks) = (if k \<in> set ks then [(s, k)] else [])"
  by (induction ks) auto

lemma rows_in_append: "rows_in (xs @ ys) k = rows_in xs k @ rows_in ys k"
  by (simp add: rows_in_def)

lemma parts_rows:
  assumes "list_all2 (enumerates g) kss shards"
  shows "filter (\<lambda>r. g r = k) (rows_in (parts_of shards kss) k) = filter (\<lambda>r. g r = k) (concat shards)"
  using assms
proof (induction kss shards rule: list_all2_induct)
  case Nil
  then show ?case by (simp add: parts_of_def rows_in_def)
next
  case (Cons ks kss s shards)
  have "parts_of (s # shards) (ks # kss) = map (Pair s) ks @ parts_of shards kss" by (simp add: parts_of_def)
  moreover have "rows_in (map (Pair s) ks) k = (if k \<in> set ks then s else [])"
    using Cons.hyps(1) by (simp add: rows_in_def filter_key enumerates_def)
  moreover have "filter (\<lambda>r. g r = k) s = []" if "k \<notin> set ks"
    using that Cons.hyps(1) by (auto simp: enumerates_def filter_empty_conv)
  ultimately show ?case using Cons.IH by (simp add: rows_in_append)
qed

lemma parts_keys:
  assumes "list_all2 (enumerates g) kss shards"
  shows "set (map snd (parts_of shards kss)) = g ` set (concat shards)"
  using assms
proof (induction kss shards rule: list_all2_induct)
  case (Cons ks kss s shards)
  then show ?case by (auto simp: parts_of_def enumerates_def image_Un)
qed (simp add: parts_of_def)

text \<open>
  C8: a grouped query over shards, by values that are 64-bit integers and not \<^verbatim>\<open>NULL\<close>, with aggregates of integer
  columns. Every shard returns one row for each of its groups, with the values to group by and the aggregates of
  the rows of the group; merging gives exactly one row for each
  group of the rows of all shards, with the aggregates over all these rows, in the order in which Go visits
  the map. Counts stay below \<open>2 ^ 63\<close> and sums within \<open>2 ^ 53\<close>.
\<close>

theorem grouped_aggregates:
  assumes "list_all2 (enumerates g) kss shards" "shards \<noteq> []"
    and "map rs_Values rs = map2 (\<lambda>s ks. map (row_of F g cols s) ks) shards kss" "length (rs_Fields (hd rs)) = length cols"
    and "key_columns cols (sp_groupByColumn p) (int (length cols) - sp_columnCount p)" "agg_funcs cols (sp_aggregateFuncs p)"
    and "\<forall>r \<in> set (concat shards). length (g r) = length (sp_groupByColumn p) \<and> list_all in_i64 (g r)"
    and "exact_sums F" "all_fit cols (concat shards)" "\<forall>ks. mset (order ks) = mset ks"
  shows "\<exists>r ks. andThen (mergeMultiResultSet rs) (buildSelectGroupByResult F order p) = Ok r \<and>
    enumerates g ks (concat shards) \<and> mset (rs_Values r) = mset (map (row_of F g cols (concat shards)) ks)"
proof -
  let ?parts = "parts_of shards kss" and ?d = "int (length cols) - sp_columnCount p"
  let ?ks = "firsts (map snd ?parts)" and ?R = "\<lambda>k. row_of F g cols (concat shards) k"
  have keys: "set ?ks = g ` set (concat shards)" using parts_keys [OF assms(1)] by simp
  have "rs \<noteq> []" using assms(1-3) by (cases shards) (auto simp: list_all2_Cons2)
  then obtain r0 where r0: "mergeMultiResultSet rs = Ok r0" by (cases rs) (auto simp: mergeMultiResultSet_def)
  have "concat (map2 (\<lambda>s ks. map (row_of F g cols s) ks) shards kss) = map (\<lambda>(s, k). row_of F g cols s k) ?parts"
    by (simp add: parts_of_def map_concat comp_def split_def)
  then have v0: "rs_Values r0 = map (\<lambda>(s, k). row_of F g cols s k) ?parts" "deltaColumnCount p r0 = ?d"
    using merge_values [OF r0] assms(3,4) by (simp_all add: deltaColumnCount_def)
  have "length k = length (sp_groupByColumn p) \<and> list_all in_i64 k" if sk: "(s, k) \<in> set ?parts" for s k
  proof -
    have "k \<in> g ` set (concat shards)" using imageI [OF sk, of snd] parts_keys [OF assms(1)] by simp
    then show ?thesis using assms(7) by blast
  qed
  then have k: "\<forall>(s, k) \<in> set ?parts. length k = length (sp_groupByColumn p) \<and> list_all in_i64 k" by blast
  have fit: "\<forall>k. all_fit cols (filter (\<lambda>r. g r = k) (rows_in ?parts k))"
    using assms(9) fits_filter unfolding parts_rows [OF assms(1)] all_fit_def by blast
  have "row_of F g cols (rows_in ?parts k) k = ?R k" for k by (simp add: row_of_def parts_rows [OF assms(1)])
  then have g: "group_loop F p (deltaColumnCount p r0) [] (rs_Values r0) = Ok (group_map ?R ?ks)"
    using group_loop_parts [OF assms(5,6,8) k fit] unfolding v0 by simp
  have kl: "key_list ?ks" using keys assms(7) by (auto simp: key_list_def list_all_iff)
  have "map_of (group_map ?R ?ks) (enc k) = Some (?R k)" if "k \<in> set ?ks" for k
    using group_map_lookup [OF kl, of k ?R] that kl by (auto simp: key_list_def list_all_iff)
  then have "map (\<lambda>k. the (map_of (group_map ?R ?ks) (enc k))) ?ks = map ?R ?ks" by (intro map_cong refl) simp
  then have "mset (map (\<lambda>e. the (map_of (group_map ?R ?ks) e)) (map enc ?ks)) = mset (map ?R ?ks)"
    by (simp only: map_map comp_def)
  then have "image_mset (\<lambda>e. the (map_of (group_map ?R ?ks) e)) (mset (map enc ?ks)) = mset (map ?R ?ks)"
    by (simp only: mset_map)
  moreover have "map fst (group_map ?R ?ks) = map enc ?ks" by (simp add: group_map_def comp_def)
  ultimately have "mset (map (\<lambda>e. the (map_of (group_map ?R ?ks) e)) (order (map fst (group_map ?R ?ks)))) = mset (map ?R ?ks)"
    using assms(10) by simp
  then have "mset (rs_Values (buildResultFromResultMap order r0 (group_map ?R ?ks))) = mset (map ?R ?ks)"
    using v0(1) by (auto simp: buildResultFromResultMap_def group_map_def firsts_def)
  then show ?thesis using r0 g keys
    by (intro exI [of _ "buildResultFromResultMap order r0 (group_map ?R ?ks)"] exI [of _ ?ks])
       (simp add: buildSelectGroupByResult_def enumerates_def)
qed

definition example_group_plan :: SelectPlan where
  "example_group_plan = example_plan
     \<lparr>sp_orderByColumn := [], sp_orderByDirections := [], sp_groupByColumn := [0], sp_originColumnCount := 4, sp_columnCount := 4,
      sp_aggregateFuncs := [(1, AggregateFuncCountMerger 1), (2, AggregateFuncMaxMerger 2), (3, AggregateFuncSumMerger 3)]\<rparr>"

theorem grouped_aggregates_witness:
  "\<exists>r. andThen (mergeMultiResultSet
        [example_result 4 [[VInt64 1, VInt64 1, VInt64 5, VFloat64 5], [VInt64 2, VInt64 0, VNil, VNil]],
         example_result 4 [[VInt64 1, VInt64 1, VInt64 7, VFloat64 7]]])
      (buildSelectGroupByResult example_float rev example_group_plan) = Ok r \<and>
    mset (rs_Values r) = {# [VInt64 1, VInt64 2, VInt64 7, VFloat64 12], [VInt64 2, VInt64 0, VNil, VNil] #}"
proof -
  let ?shards = "[[(1, Some 5), (2, None)], [(1, Some 7)]] :: (int \<times> int option) list list"
  let ?kss = "[[[1], [2]], [[1]]] :: int list list list"
  let ?g = "\<lambda>r :: int \<times> int option. [fst r]"
  let ?cols = "[IKey 0, IAgg ACount snd, IAgg AMax snd, IAgg ASum snd] :: (int \<times> int option) item list"
  let ?rs = "[example_result 4 [[VInt64 1, VInt64 1, VInt64 5, VFloat64 5], [VInt64 2, VInt64 0, VNil, VNil]],
         example_result 4 [[VInt64 1, VInt64 1, VInt64 7, VFloat64 7]]]"
  have a: "list_all2 (enumerates ?g) ?kss ?shards" by (auto simp: enumerates_def)
  have v: "map rs_Values ?rs = map2 (\<lambda>s ks. map (row_of example_float ?g ?cols s) ks) ?shards ?kss"
    by (simp add: example_result_def row_of_def example_float_def List.map_filter_def)
  have p: "key_columns ?cols (sp_groupByColumn example_group_plan) (int (length ?cols) - sp_columnCount example_group_plan)"
    "length (rs_Fields (hd ?rs)) = length ?cols" "length (sp_groupByColumn example_group_plan) = 1"
    by (simp_all add: key_columns_def example_group_plan_def example_result_def)
  have "{(int i, merger_of a (int i)) |i a. i < length ?cols \<and> (\<exists>f. ?cols ! i = IAgg a f)} =
      {(1, AggregateFuncCountMerger 1), (2, AggregateFuncMaxMerger 2), (3, AggregateFuncSumMerger 3)}"
    by (auto simp: less_Suc_eq numeral_nat)
  then have f: "agg_funcs ?cols (sp_aggregateFuncs example_group_plan)"
    by (simp add: agg_funcs_def example_group_plan_def)
  have e: "exact_sums example_float" by (simp add: exact_sums_def example_float_def)
  have fit: "all_fit ?cols (concat ?shards)" by (auto simp: all_fit_def fits_def List.map_filter_def)
  have i: "\<forall>r \<in> set (concat ?shards). length (?g r) = length (sp_groupByColumn example_group_plan) \<and> list_all in_i64 (?g r)"
    using p(3) by (simp add: in_i64_def MinInt64_def MaxInt64_def)
  obtain r ks where r: "andThen (mergeMultiResultSet ?rs) (buildSelectGroupByResult example_float rev example_group_plan) = Ok r"
      "enumerates ?g ks (concat ?shards)" "mset (rs_Values r) = mset (map (row_of example_float ?g ?cols (concat ?shards)) ks)"
    using grouped_aggregates [OF a list.distinct(2) v p(2,1) f i e fit, of rev] mset_rev by blast
  have "distinct ks" "set ks = set [[1], [2]]" using r(2) by (auto simp: enumerates_def)
  then have "mset ks = mset [[1], [2]]" using set_eq_iff_mset_eq_distinct [of ks "[[1], [2]]"] by simp
  then have "mset (rs_Values r) = {# [VInt64 1, VInt64 2, VInt64 7, VFloat64 12], [VInt64 2, VInt64 0, VNil, VNil] #}"
    unfolding r(3) mset_map by (simp add: row_of_def example_float_def List.map_filter_def)
  with r(1) show ?thesis by blast
qed

section \<open>Where merging differs from one database\<close>

text \<open>The separator of a map key may be part of a value, and NULL is formatted as the string NULL: different rows
  count as duplicates and different groups as the same one.\<close>

lemma map_key_collisions:
  "generateMapKey F [VString ''a+'', VString ''b''] = generateMapKey F [VString ''a'', VString ''+b'']"
  "generateMapKey F [VNil] = generateMapKey F [VString ''NULL'']"
  by simp_all

definition example_distinct_plan :: SelectPlan where
  "example_distinct_plan = example_plan
     \<lparr>sp_orderByColumn := [], sp_orderByDirections := [], sp_distinct := True, sp_originColumnCount := 2, sp_columnCount := 2\<rparr>"

lemma distinct_drops_row:
  "andThen (MergeSelectResult example_float id insertion_sort example_distinct_plan False
       [example_result 2 [[VString ''a+'', VString ''b''], [VString ''a'', VString ''+b'']]]) (\<lambda>r. Ok (rs_Values r)) =
     Ok [[VString ''a+'', VString ''b'']]"
  by code_simp

text \<open>Aggregates without a row, as with a \<^verbatim>\<open>HAVING\<close> that no shard satisfies: the appended nil row is cut to the fields.\<close>

definition example_count_plan :: SelectPlan where
  "example_count_plan = example_plan
     \<lparr>sp_orderByColumn := [], sp_orderByDirections := [], sp_aggregateFuncs := [(0, AggregateFuncCountMerger 0)]\<rparr>"

lemma aggregate_without_rows:
  "MergeSelectResult example_float id insertion_sort example_count_plan False [example_result 1 []] = Panic PIndex"
  by code_simp

text \<open>A wildcard before an aggregate: the merger keeps the position of the aggregate in the statement, so for
  \<^verbatim>\<open>SELECT *, COUNT(x)\<close> over two columns the second column is added up, and not the count.\<close>

lemma wildcard_before_aggregate:
  "andThen (buildSelectOnlyResult example_float
       (example_plan\<lparr>sp_originColumnCount := 2, sp_columnCount := 2, sp_aggregateFuncs := [(1, AggregateFuncCountMerger 1)]\<rparr>)
       (example_result 3 [[VInt64 7, VInt64 8, VInt64 1], [VInt64 7, VInt64 8, VInt64 2]])) (\<lambda>r. Ok (rs_Values r)) =
     Ok [[VInt64 7, VInt64 16, VInt64 1]]"
  by code_simp

text \<open>A column before a wildcard: \<^verbatim>\<open>SELECT a, * ... ORDER BY a\<close> over three columns sorts by the third one.\<close>

lemma column_before_wildcard:
  "andThen (sortSelectResult example_float insertion_sort (example_plan\<lparr>sp_originColumnCount := 2, sp_columnCount := 2\<rparr>)
       (example_result 4 [[VInt64 2, VInt64 2, VInt64 0, VInt64 0], [VInt64 1, VInt64 1, VInt64 9, VInt64 9]])) (\<lambda>r. Ok (rs_Values r)) =
     Ok [[VInt64 2, VInt64 2, VInt64 0, VInt64 0], [VInt64 1, VInt64 1, VInt64 9, VInt64 9]]"
  by code_simp

text \<open>The limit is pushed down also with \<^verbatim>\<open>GROUP BY\<close>: of the groups \<open>1\<close> and \<open>2\<close> of two shards, with counts \<open>1, 5\<close>
  and \<open>3, 4\<close>, each shard may return another one under \<^verbatim>\<open>LIMIT 1\<close>, and the count of the group \<open>1\<close> is that of one shard.\<close>

lemma grouped_limit:
  "andThen (MergeSelectResult example_float id insertion_sort
       (example_plan\<lparr>sp_orderByColumn := [], sp_orderByDirections := [], sp_groupByColumn := [0], sp_originColumnCount := 2,
          sp_columnCount := 2, sp_aggregateFuncs := [(1, AggregateFuncCountMerger 1)], sp_offset := 0, sp_count := 1\<rparr>) True
       [example_result 2 (take 1 [[VInt64 1, VInt64 1], [VInt64 2, VInt64 5]]),
        example_result 2 (take 1 [[VInt64 2, VInt64 4], [VInt64 1, VInt64 3]])]) (\<lambda>r. Ok (rs_Values r)) =
     Ok [[VInt64 1, VInt64 1]]"
  by code_simp

end
