(* ===== verification/Resource_Pool.thy ===== *)
theory Resource_Pool
  imports Go_Base
begin

text \<open>
  The pool of resources of \<^verbatim>\<open>util/resource_pool.go\<close>, as goroutines that run against one pool.

  A pool is its record: the buffered channel of resource wrappers, the counters, and the timer that looks for
  idle resources. A goroutine is at a point of one of the operations, a \<open>thread\<close>; \<open>thread_step\<close> runs it
  to its next access of the shared state, and gives \<open>None\<close> where it blocks. One step makes at most one
  access that another goroutine reads; the counters of waits and of idle resources closed are only read for
  statistics and change together with the access before them. The counters \<open>available\<close>, \<open>active\<close> and \<open>inUse\<close> are
  unbounded integers: by the balances in \<open>Pool_Props\<close> each is a number of places of the channel and at most one
  for every goroutine, far from the bounds of 64 bits.
\<close>

section \<open>The pool\<close>

record 'r resourceWrapper =
  wr_resource :: "'r option"
  wr_timeUsed :: int

definition zero_wrapper :: "'r resourceWrapper" where
  "zero_wrapper = \<lparr>wr_resource = None, wr_timeUsed = 0\<rparr>"

text \<open>
  The timer of \<^verbatim>\<open>util/timer/timer.go\<close>: its goroutine waits or runs the function, or has been stopped. It reads
  the interval when it starts to wait, and then waits for the time to pass only if the interval is positive:
  \<open>rp_armed\<close> says whether it does.
\<close>

datatype idle_timer = TimerNil | TimerWaiting | TimerRunning | TimerStopped

record 'r ResourcePool =
  rp_resources :: "'r resourceWrapper list"
  rp_maxCap :: int
  rp_closed :: bool
  rp_capacity :: int
  rp_idleTimeout :: int
  rp_idleTimer :: idle_timer
  rp_interval :: int
  rp_armed :: bool
  rp_available :: int
  rp_active :: int
  rp_inUse :: int
  rp_waitCount :: int
  rp_waitTime :: int
  rp_idleClosed :: int

definition NewResourcePool :: "int \<Rightarrow> int \<Rightarrow> int \<Rightarrow> 'r ResourcePool res" where
  "NewResourcePool capacity maxCap idleTimeout =
     (if capacity \<le> 0 \<or> maxCap \<le> 0 \<or> capacity > maxCap then Panic (PMsg ''invalid/out of range capacity'')
      else Ok \<lparr>rp_resources = replicate (nat capacity) zero_wrapper, rp_maxCap = maxCap, rp_closed = False,
               rp_capacity = capacity, rp_idleTimeout = idleTimeout,
               rp_idleTimer = (if idleTimeout \<noteq> 0 then TimerWaiting else TimerNil), rp_interval = idleTimeout sdiv 10,
               rp_armed = (idleTimeout sdiv 10 > 0),
               rp_available = capacity, rp_active = 0, rp_inUse = 0, rp_waitCount = 0, rp_waitTime = 0, rp_idleClosed = 0\<rparr>)"

definition IsClosed :: "'r ResourcePool \<Rightarrow> bool" where
  "IsClosed p \<longleftrightarrow> rp_capacity p = 0"

definition ErrClosed :: err where "ErrClosed = ErrMsg ''resource pool is closed''"
definition ErrTimeout :: err where "ErrTimeout = ErrMsg ''resource pool timed out''"

section \<open>Operations\<close>

text \<open>
  The points of the operations: of \<^verbatim>\<open>Get\<close> up to a resource in the hands of a client (\<open>Holding\<close>),
  of \<^verbatim>\<open>Put\<close>, \<^verbatim>\<open>SetCapacity\<close>, \<^verbatim>\<open>Close\<close>, \<^verbatim>\<open>SetIdleTimeout\<close> and
  \<^verbatim>\<open>closeIdleResources\<close>. Loop counters count what is left.
\<close>

datatype 'r thread =
    GetStart bool | GetFetch bool | GetWait int | GetGot "'r resourceWrapper option" | GetFailed err
  | GetActive 'r | GetAvail 'r | GetInUse 'r | Holding 'r
  | PutStart "'r option" | PutSend "'r resourceWrapper" | PutInUse | PutAvail
  | CloseStart | SetStart int | SetLoad int | SetCas int int
  | Shrink nat int | ShrinkGot nat int "'r resourceWrapper" | ShrinkAvail nat int
  | Grow nat int | GrowAvail nat int | SetClose
  | SetIdleStart int | SetIdleReset int | SetIdleSend
  | IdleStart | IdleRead nat | IdleLoop nat int | IdleGot nat int "'r resourceWrapper" | IdleSend nat int "'r resourceWrapper"
  | Finished | Failed err

text \<open>What a step takes from outside: whether the context has expired, which ready case \<^verbatim>\<open>select\<close> takes, the time, and
  the outcome of the factory.\<close>

record 'r env =
  env_done :: bool
  env_pick :: bool
  env_now :: int
  env_make :: "err + 'r"

definition send :: "'r resourceWrapper \<Rightarrow> 'r ResourcePool \<Rightarrow> 'r ResourcePool" where
  "send w p = p\<lparr>rp_resources := rp_resources p @ [w]\<rparr>"

definition full :: "'r ResourcePool \<Rightarrow> bool" where
  "full p \<longleftrightarrow> int (length (rp_resources p)) \<ge> rp_maxCap p"

definition send_closed :: "'a res" where
  "send_closed = Panic (PMsg ''send on closed channel'')"

text \<open>A blocking send.\<close>

definition send_then :: "'r resourceWrapper \<Rightarrow> 'r ResourcePool \<Rightarrow> 't \<Rightarrow> ('r ResourcePool \<times> 't) res option" where
  "send_then w p t = (if rp_closed p then Some send_closed else if full p then None else Some (Ok (send w p, t)))"

text \<open>A receive: \<open>got\<close> takes the wrapper, or \<open>None\<close> from a closed and empty channel; \<open>otherwise\<close> is what happens
  where there is nothing to receive.\<close>

definition receive ::
  "'r ResourcePool \<Rightarrow> ('r resourceWrapper option \<Rightarrow> 't) \<Rightarrow> ('r ResourcePool \<times> 't) res option \<Rightarrow> ('r ResourcePool \<times> 't) res option" where
  "receive p got otherwise =
     (case rp_resources p of
        w # ws \<Rightarrow> Some (Ok (p\<lparr>rp_resources := ws\<rparr>, got (Some w)))
      | [] \<Rightarrow> if rp_closed p then Some (Ok (p, got None)) else otherwise)"

definition zero_if_closed :: "'r resourceWrapper option \<Rightarrow> 'r resourceWrapper" where
  "zero_if_closed w = (case w of None \<Rightarrow> zero_wrapper | Some w \<Rightarrow> w)"

definition recordWait :: "int \<Rightarrow> int \<Rightarrow> 'r ResourcePool \<Rightarrow> 'r ResourcePool" where
  "recordWait start now p = p\<lparr>rp_waitCount := i64 (rp_waitCount p + 1), rp_waitTime := i64 (rp_waitTime p + (now - start))\<rparr>"

definition set_end :: "int \<Rightarrow> 'r thread" where
  "set_end capacity = (if capacity = 0 then SetClose else Finished)"

text \<open>The goroutine of the timer starts to wait again.\<close>

definition rearm :: "'r ResourcePool \<Rightarrow> 'r ResourcePool" where
  "rearm p = p\<lparr>rp_idleTimer := TimerWaiting, rp_armed := rp_interval p > 0\<rparr>"

definition idle_end :: "'r ResourcePool \<Rightarrow> ('r ResourcePool \<times> 'r thread) res option" where
  "idle_end p = Some (Ok (rearm p, Finished))"

fun get_step :: "'r env \<Rightarrow> 'r ResourcePool \<Rightarrow> 'r thread \<Rightarrow> ('r ResourcePool \<times> 'r thread) res option" where
  "get_step e p (GetStart wait) = Some (Ok (p, if env_done e then Failed ErrTimeout else GetFetch wait))"
| "get_step e p (GetFetch wait) = receive p GetGot (Some (Ok (p, if wait then GetWait (env_now e) else Finished)))"
| "get_step e p (GetWait startTime) =
     (if env_done e \<and> (env_pick e \<or> rp_resources p = [] \<and> \<not> rp_closed p) then Some (Ok (p, Failed ErrTimeout))
      else receive (if rp_resources p = [] \<and> \<not> rp_closed p then p else recordWait startTime (env_now e) p) GetGot None)"
| "get_step e p (GetGot got) =
     (case got of
        None \<Rightarrow> Some (Ok (p, Failed ErrClosed))
      | Some w \<Rightarrow>
          (case wr_resource w of
             Some r \<Rightarrow> Some (Ok (p, GetAvail r))
           | None \<Rightarrow> (case env_make e of Inl er \<Rightarrow> Some (Ok (p, GetFailed er)) | Inr r \<Rightarrow> Some (Ok (p, GetActive r)))))"
| "get_step e p (GetFailed er) = send_then zero_wrapper p (Failed er)"
| "get_step e p (GetActive r) = Some (Ok (p\<lparr>rp_active := rp_active p + 1\<rparr>, GetAvail r))"
| "get_step e p (GetAvail r) = Some (Ok (p\<lparr>rp_available := rp_available p - 1\<rparr>, GetInUse r))"
| "get_step e p (GetInUse r) = Some (Ok (p\<lparr>rp_inUse := rp_inUse p + 1\<rparr>, Holding r))"
| "get_step e p t = None"

fun put_step :: "'r env \<Rightarrow> 'r ResourcePool \<Rightarrow> 'r thread \<Rightarrow> ('r ResourcePool \<times> 'r thread) res option" where
  "put_step e p (PutStart resource) =
     (case resource of
        Some r \<Rightarrow> Some (Ok (p, PutSend \<lparr>wr_resource = Some r, wr_timeUsed = env_now e\<rparr>))
      | None \<Rightarrow> Some (Ok (p\<lparr>rp_active := rp_active p - 1\<rparr>, PutSend zero_wrapper)))"
| "put_step e p (PutSend w) =
     (if rp_closed p then Some send_closed
      else if full p then Some (Panic (PMsg ''attempt to Put into a full ResourcePool''))
      else Some (Ok (send w p, PutInUse)))"
| "put_step e p PutInUse = Some (Ok (p\<lparr>rp_inUse := rp_inUse p - 1\<rparr>, PutAvail))"
| "put_step e p PutAvail = Some (Ok (p\<lparr>rp_available := rp_available p + 1\<rparr>, Finished))"
| "put_step e p t = None"

fun set_step :: "'r ResourcePool \<Rightarrow> 'r thread \<Rightarrow> ('r ResourcePool \<times> 'r thread) res option" where
  "set_step p (SetStart c) =
     Some (Ok (p, if c < 0 \<or> c > rp_maxCap p then Failed (ErrMsg ''capacity out of range'') else SetLoad c))"
| "set_step p (SetLoad c) =
     Some (Ok (p, if rp_capacity p = 0 then Failed ErrClosed else if rp_capacity p = c then Finished else SetCas c (rp_capacity p)))"
| "set_step p (SetCas c oldcap) =
     (if rp_capacity p = oldcap
      then Some (Ok (p\<lparr>rp_capacity := c\<rparr>, if c < oldcap then Shrink (nat (oldcap - c)) c else Grow (nat (c - oldcap)) c))
      else Some (Ok (p, SetLoad c)))"
| "set_step p (Shrink n c) =
     (case n of 0 \<Rightarrow> Some (Ok (p, set_end c)) | Suc k \<Rightarrow> receive p (\<lambda>w. ShrinkGot k c (zero_if_closed w)) None)"
| "set_step p (ShrinkGot k c w) =
     Some (Ok (if wr_resource w \<noteq> None then p\<lparr>rp_active := rp_active p - 1\<rparr> else p, ShrinkAvail k c))"
| "set_step p (ShrinkAvail k c) = Some (Ok (p\<lparr>rp_available := rp_available p - 1\<rparr>, Shrink k c))"
| "set_step p (Grow n c) = (case n of 0 \<Rightarrow> Some (Ok (p, set_end c)) | Suc k \<Rightarrow> send_then zero_wrapper p (GrowAvail k c))"
| "set_step p (GrowAvail k c) = Some (Ok (p\<lparr>rp_available := rp_available p + 1\<rparr>, Grow k c))"
| "set_step p SetClose =
     (if rp_closed p then Some (Panic (PMsg ''close of closed channel'')) else Some (Ok (p\<lparr>rp_closed := True\<rparr>, Finished)))"
| "set_step p t = None"

text \<open>\<^verbatim>\<open>Stop\<close> and \<^verbatim>\<open>SetInterval\<close> of the timer send on an unbuffered channel, which the timer receives from only
  while it waits.\<close>

definition close_step :: "'r ResourcePool \<Rightarrow> ('r ResourcePool \<times> 'r thread) res option" where
  "close_step p =
     (case rp_idleTimer p of
        TimerRunning \<Rightarrow> None
      | TimerWaiting \<Rightarrow> Some (Ok (p\<lparr>rp_idleTimer := TimerStopped\<rparr>, SetStart 0))
      | _ \<Rightarrow> Some (Ok (p, SetStart 0)))"

fun timer_step :: "'r ResourcePool \<Rightarrow> 'r thread \<Rightarrow> ('r ResourcePool \<times> 'r thread) res option" where
  "timer_step p (SetIdleStart d) =
     (if rp_idleTimer p = TimerNil then Some (Panic (PMsg ''SetIdleTimeout called when timer not initialized''))
      else Some (Ok (p\<lparr>rp_idleTimeout := d\<rparr>, SetIdleReset d)))"
| "timer_step p (SetIdleReset d) = Some (Ok (p\<lparr>rp_interval := d sdiv 10\<rparr>, SetIdleSend))"
| "timer_step p SetIdleSend =
     (case rp_idleTimer p of
        TimerRunning \<Rightarrow> None
      | TimerWaiting \<Rightarrow> Some (Ok (rearm p, Finished))
      | _ \<Rightarrow> Some (Ok (p, Finished)))"
| "timer_step p t = None"

fun idle_step :: "'r env \<Rightarrow> 'r ResourcePool \<Rightarrow> 'r thread \<Rightarrow> ('r ResourcePool \<times> 'r thread) res option" where
  "idle_step e p IdleStart = Some (Ok (p, IdleRead (nat (rp_available p))))"
| "idle_step e p (IdleRead n) = Some (Ok (p, IdleLoop n (rp_idleTimeout p)))"
| "idle_step e p (IdleLoop n idleTimeout) =
     (case n of 0 \<Rightarrow> idle_end p | Suc n \<Rightarrow> receive p (\<lambda>w. IdleGot n idleTimeout (zero_if_closed w)) (idle_end p))"
| "idle_step e p (IdleGot n idleTimeout w) =
     (if wr_resource w \<noteq> None \<and> idleTimeout > 0 \<and> wr_timeUsed w + idleTimeout - env_now e < 0
      then Some (Ok (p\<lparr>rp_idleClosed := i64 (rp_idleClosed p + 1), rp_active := rp_active p - 1\<rparr>,
                     IdleSend n idleTimeout (w\<lparr>wr_resource := None\<rparr>)))
      else Some (Ok (p, IdleSend n idleTimeout w)))"
| "idle_step e p (IdleSend n idleTimeout w) = send_then w p (IdleLoop n idleTimeout)"
| "idle_step e p t = None"

definition thread_step :: "'r env \<Rightarrow> 'r ResourcePool \<Rightarrow> 'r thread \<Rightarrow> ('r ResourcePool \<times> 'r thread) res option" where
  "thread_step e p t =
     (case t of
        GetStart _ \<Rightarrow> get_step e p t | GetFetch _ \<Rightarrow> get_step e p t | GetWait _ \<Rightarrow> get_step e p t | GetGot _ \<Rightarrow> get_step e p t
      | GetFailed _ \<Rightarrow> get_step e p t | GetActive _ \<Rightarrow> get_step e p t | GetAvail _ \<Rightarrow> get_step e p t | GetInUse _ \<Rightarrow> get_step e p t
      | PutStart _ \<Rightarrow> put_step e p t | PutSend _ \<Rightarrow> put_step e p t | PutInUse \<Rightarrow> put_step e p t | PutAvail \<Rightarrow> put_step e p t
      | CloseStart \<Rightarrow> close_step p | SetIdleStart _ \<Rightarrow> timer_step p t | SetIdleReset _ \<Rightarrow> timer_step p t | SetIdleSend \<Rightarrow> timer_step p t
      | IdleStart \<Rightarrow> idle_step e p t | IdleRead _ \<Rightarrow> idle_step e p t | IdleLoop _ _ \<Rightarrow> idle_step e p t | IdleGot _ _ _ \<Rightarrow> idle_step e p t | IdleSend _ _ _ \<Rightarrow> idle_step e p t
      | Holding _ \<Rightarrow> None | Finished \<Rightarrow> None | Failed _ \<Rightarrow> None
      | _ \<Rightarrow> set_step p t)"

section \<open>Goroutines around one pool\<close>

fun resizing :: "'r thread \<Rightarrow> bool" where
  "resizing CloseStart = True" | "resizing (SetStart c) = True" | "resizing (SetLoad c) = True" | "resizing (SetCas c oldcap) = True"
| "resizing (Shrink k c) = True" | "resizing (ShrinkGot k c w) = True" | "resizing (ShrinkAvail k c) = True"
| "resizing (Grow k c) = True" | "resizing (GrowAvail k c) = True" | "resizing SetClose = True"
| "resizing _ = False"

text \<open>
  The operations a program may start: \<^verbatim>\<open>Get\<close> at any time, \<^verbatim>\<open>SetIdleTimeout\<close> on a pool with a timer, and
  \<^verbatim>\<open>SetCapacity\<close> to a capacity other than \<open>0\<close>, or \<^verbatim>\<open>Close\<close>, while no other of these two runs.
\<close>

fun startable :: "'r ResourcePool \<Rightarrow> 'r thread list \<Rightarrow> 'r thread \<Rightarrow> bool" where
  "startable p ts (GetStart wait) = True"
| "startable p ts (SetIdleStart d) = (rp_idleTimer p \<noteq> TimerNil)"
| "startable p ts (SetStart c) = (c \<noteq> 0 \<and> \<not> list_ex resizing ts)"
| "startable p ts CloseStart = (\<not> list_ex resizing ts)"
| "startable p ts t = False"

type_synonym 'r system = "'r ResourcePool \<times> 'r thread list"

text \<open>The operations that run: a goroutine makes its next step, or a client puts back what it holds, or nil for a
  resource that it has closed.\<close>

inductive pool_work :: "'r system \<Rightarrow> 'r system \<Rightarrow> bool" where
  run: "i < length ts \<Longrightarrow> thread_step e p (ts ! i) = Some (Ok (p', t')) \<Longrightarrow> pool_work (p, ts) (p', ts[i := t'])"
| release: "i < length ts \<Longrightarrow> ts ! i = Holding r \<Longrightarrow> x = Some r \<or> x = None \<Longrightarrow> pool_work (p, ts) (p, ts[i := PutStart x])"

inductive pool_step :: "'r system \<Rightarrow> 'r system \<Rightarrow> bool" where
  work: "pool_work s s' \<Longrightarrow> pool_step s s'"
| start: "startable p ts t \<Longrightarrow> pool_step (p, ts) (p, ts @ [t])"
| tick: "rp_idleTimer p = TimerWaiting \<Longrightarrow> rp_armed p \<Longrightarrow>
    pool_step (p, ts) (p\<lparr>rp_idleTimer := TimerRunning\<rparr>, ts @ [IdleStart])"

inductive pool_reach :: "'r system \<Rightarrow> bool" where
  init: "NewResourcePool capacity maxCap idleTimeout = Ok p \<Longrightarrow> pool_reach (p, [])"
| step: "pool_reach s \<Longrightarrow> pool_step s s' \<Longrightarrow> pool_reach s'"

inductive_cases pool_workE: "pool_work (p, ts) s'"
inductive_cases pool_stepE: "pool_step (p, ts) s'"

end
