(* ===== verification/Pool_Props.thy ===== *)
theory Pool_Props
  imports Resource_Pool
begin

text \<open>
  The resource pool under any interleaving: its counters, that no operation panics, and that every operation
  returns once the clients put back what they hold.
\<close>

section \<open>Balances\<close>

text \<open>A receive from a closed channel and the end of the idle loop do not keep the balances on their own.\<close>

fun guarded :: "'r ResourcePool \<Rightarrow> 'r thread \<Rightarrow> bool" where
  "guarded p (Shrink k c) = (\<not> rp_closed p)"
| "guarded p (IdleLoop n d) = (\<not> rp_closed p \<and> rp_idleTimer p = TimerRunning)"
| "guarded p t = True"

lemma sum_list_update: "i < length xs \<Longrightarrow> sum_list (map f (xs[i := y])) = sum_list (map f xs) - f (xs ! i) + (f y :: int)"
  by (induction xs arbitrary: i) (auto split: nat.splits)

text \<open>A quantity of the pool that every step moves between the pool and the goroutine that makes it.\<close>

locale balance =
  fixes pot :: "'r ResourcePool \<Rightarrow> int" and weight :: "'r thread \<Rightarrow> int"
  assumes at_run: "guarded p t \<Longrightarrow> thread_step e p t = Some (Ok (p', t')) \<Longrightarrow> pot p' + weight t' = pot p + weight t"
    and at_release: "weight (PutStart x) = weight (Holding r)"
    and at_start: "startable p ts t \<Longrightarrow> weight t = 0"
    and at_tick: "rp_idleTimer p = TimerWaiting \<Longrightarrow> pot (p\<lparr>rp_idleTimer := TimerRunning\<rparr>) + weight IdleStart = pot p"
    and at_init: "NewResourcePool c m d = Ok p \<Longrightarrow> pot p = 0"
begin

definition balanced :: "'r system \<Rightarrow> bool" where
  "balanced s \<longleftrightarrow> pot (fst s) + sum_list (map weight (snd s)) = 0"

lemma balanced_init: "NewResourcePool c m d = Ok p \<Longrightarrow> balanced (p, [])"
  by (simp add: balanced_def at_init)

lemma balanced_step:
  assumes "pool_step (p, ts) s'" "balanced (p, ts)" "\<forall>t \<in> set ts. guarded p t"
  shows "balanced s'"
  using assms(1)
proof (rule pool_stepE)
  assume "pool_work (p, ts) s'"
  then show ?thesis
  proof (rule pool_workE)
    fix i e p' t' assume r: "s' = (p', ts[i := t'])" "i < length ts" "thread_step e p (ts ! i) = Some (Ok (p', t'))"
    then have "guarded p (ts ! i)" using assms(3) by simp
    from at_run [OF this r(3)] show ?thesis using r assms(2) by (simp add: balanced_def sum_list_update)
  next
    fix i r x assume "s' = (p, ts[i := PutStart x])" "i < length ts" "ts ! i = Holding r"
    then show ?thesis using assms(2) at_release [of x r] by (simp add: balanced_def sum_list_update)
  qed
next
  fix t assume "s' = (p, ts @ [t])" "startable p ts t"
  then show ?thesis using assms(2) at_start [of p ts t] by (simp add: balanced_def)
next
  assume "s' = (p\<lparr>rp_idleTimer := TimerRunning\<rparr>, ts @ [IdleStart])" "rp_idleTimer p = TimerWaiting"
  then show ?thesis using assms(2) at_tick [of p] by (simp add: balanced_def)
qed

end

text \<open>The places of the channel: what a goroutine has taken out of it, and what a change of the capacity has still
  to take out or to put in.\<close>

fun places :: "'r thread \<Rightarrow> int" where
  "places (GetGot got) = (if got = None then 0 else 1)" | "places (GetFailed er) = 1" | "places (GetActive r) = 1" | "places (GetAvail r) = 1"
| "places (GetInUse r) = 1" | "places (Holding r) = 1" | "places (PutStart x) = 1" | "places (PutSend w) = 1"
| "places (IdleGot n d w) = 1" | "places (IdleSend n d w) = 1"
| "places _ = 0"

fun to_take :: "'r thread \<Rightarrow> nat" where
  "to_take (Shrink k c) = k" | "to_take (ShrinkGot k c w) = k" | "to_take (ShrinkAvail k c) = k" | "to_take _ = 0"

fun to_put :: "'r thread \<Rightarrow> nat" where
  "to_put (Grow k c) = k" | "to_put (GrowAvail k c) = k" | "to_put _ = 0"

fun counted_available :: "'r thread \<Rightarrow> int" where
  "counted_available (GetGot got) = (if got = None then 0 else 1)" | "counted_available (GetFailed er) = 1" | "counted_available (GetActive r) = 1"
| "counted_available (GetAvail r) = 1" | "counted_available PutInUse = - 1" | "counted_available PutAvail = - 1"
| "counted_available (IdleGot n d w) = 1" | "counted_available (IdleSend n d w) = 1"
| "counted_available (ShrinkGot k c w) = 1" | "counted_available (ShrinkAvail k c) = 1" | "counted_available (GrowAvail k c) = - 1"
| "counted_available _ = 0"

fun counted_in_use :: "'r thread \<Rightarrow> int" where
  "counted_in_use (Holding r) = 1" | "counted_in_use (PutStart x) = 1" | "counted_in_use (PutSend w) = 1" | "counted_in_use PutInUse = 1"
| "counted_in_use _ = 0"

definition opened :: "'r resourceWrapper \<Rightarrow> int" where
  "opened w = (if wr_resource w = None then 0 else 1)"

fun counted_active :: "'r thread \<Rightarrow> int" where
  "counted_active (GetGot got) = (case got of None \<Rightarrow> 0 | Some w \<Rightarrow> opened w)" | "counted_active (GetAvail r) = 1" | "counted_active (GetInUse r) = 1"
| "counted_active (Holding r) = 1" | "counted_active (PutStart x) = 1" | "counted_active (PutSend w) = opened w"
| "counted_active (ShrinkGot k c w) = opened w" | "counted_active (IdleGot n d w) = opened w" | "counted_active (IdleSend n d w) = opened w"
| "counted_active _ = 0"

fun idling :: "'r thread \<Rightarrow> int" where
  "idling IdleStart = 1" | "idling (IdleRead n) = 1" | "idling (IdleLoop n d) = 1" | "idling (IdleGot n d w) = 1" | "idling (IdleSend n d w) = 1"
| "idling _ = 0"

lemmas step_defs = thread_step_def close_step_def receive_def send_then_def send_def send_closed_def zero_if_closed_def recordWait_def set_end_def idle_end_def rearm_def

lemma opened_zero [simp]: "opened zero_wrapper = 0"
  by (simp add: opened_def zero_wrapper_def)

lemma startableE:
  assumes "startable p ts t"
  obtains b where "t = GetStart b" | d where "t = SetIdleStart d" "rp_idleTimer p \<noteq> TimerNil"
    | c where "t = SetStart c" "c \<noteq> 0" "\<not> list_ex resizing ts" | "t = CloseStart" "\<not> list_ex resizing ts"
  using assms by (cases t) auto

lemma NewResourcePool_Ok:
  "NewResourcePool c m d = Ok p \<longleftrightarrow> 0 < c \<and> c \<le> m \<and>
     p = \<lparr>rp_resources = replicate (nat c) zero_wrapper, rp_maxCap = m, rp_closed = False, rp_capacity = c, rp_idleTimeout = d,
         rp_idleTimer = (if d \<noteq> 0 then TimerWaiting else TimerNil), rp_interval = d sdiv 10, rp_armed = (d sdiv 10 > 0),
         rp_available = c, rp_active = 0, rp_inUse = 0, rp_waitCount = 0, rp_waitTime = 0, rp_idleClosed = 0\<rparr>"
  by (auto simp: NewResourcePool_def)

text \<open>The cases of a step.\<close>

lemmas step_splits = if_splits nat.splits list.splits option.splits sum.splits idle_timer.splits

interpretation placed: balance "\<lambda>p. int (length (rp_resources p)) - rp_capacity p" "\<lambda>t. places t - int (to_take t) + int (to_put t)"
proof (unfold_locales, goal_cases)
  case (1 p t e p' t')
  then show ?case
    by (cases t) (auto simp: step_defs split: step_splits)
qed (auto elim: startableE simp: NewResourcePool_Ok)

interpretation available: balance "\<lambda>p. int (length (rp_resources p)) - rp_available p" counted_available
proof (unfold_locales, goal_cases)
  case (1 p t e p' t')
  then show ?case by (cases t) (auto simp: step_defs split: step_splits)
qed (auto elim: startableE simp: NewResourcePool_Ok)

interpretation in_use: balance "\<lambda>p. - rp_inUse p" counted_in_use
proof (unfold_locales, goal_cases)
  case (1 p t e p' t')
  then show ?case by (cases t) (auto simp: step_defs split: step_splits)
qed (auto elim: startableE simp: NewResourcePool_Ok)

interpretation active: balance "\<lambda>p. sum_list (map opened (rp_resources p)) - rp_active p" counted_active
proof (unfold_locales, goal_cases)
  case (1 p t e p' t')
  then show ?case by (cases t) (auto simp: step_defs opened_def zero_wrapper_def split: step_splits)
qed (auto elim: startableE simp: NewResourcePool_Ok sum_list_replicate)

interpretation timer: balance "\<lambda>p. if rp_idleTimer p = TimerRunning then - 1 else 0" idling
proof (unfold_locales, goal_cases)
  case (1 p t e p' t')
  then show ?case by (cases t) (auto simp: step_defs split: step_splits)
qed (auto elim: startableE simp: NewResourcePool_Ok)

section \<open>The invariant\<close>

fun pending :: "'r thread \<Rightarrow> bool" where
  "pending (Shrink k c) = True" | "pending (ShrinkGot k c w) = True" | "pending (ShrinkAvail k c) = True"
| "pending (Grow k c) = True" | "pending (GrowAvail k c) = True" | "pending SetClose = True" | "pending _ = False"

definition stopped :: "'r ResourcePool \<Rightarrow> bool" where
  "stopped p \<longleftrightarrow> rp_idleTimer p = TimerNil \<or> rp_idleTimer p = TimerStopped"

fun thread_ok :: "'r ResourcePool \<Rightarrow> 'r thread \<Rightarrow> bool" where
  "thread_ok p (SetStart c) = (c = 0 \<longrightarrow> stopped p)"
| "thread_ok p (SetLoad c) = (0 \<le> c \<and> c \<le> rp_maxCap p \<and> (c = 0 \<longrightarrow> stopped p))"
| "thread_ok p (SetCas c oldcap) =
     (0 \<le> c \<and> c \<le> rp_maxCap p \<and> (c = 0 \<longrightarrow> stopped p) \<and> oldcap = rp_capacity p \<and> oldcap \<noteq> 0 \<and> oldcap \<noteq> c)"
| "thread_ok p (Shrink k c) = (rp_capacity p = c \<and> \<not> rp_closed p \<and> c + int k \<le> rp_maxCap p)"
| "thread_ok p (ShrinkGot k c w) = (rp_capacity p = c \<and> \<not> rp_closed p \<and> c + int k < rp_maxCap p)"
| "thread_ok p (ShrinkAvail k c) = (rp_capacity p = c \<and> \<not> rp_closed p \<and> c + int k < rp_maxCap p)"
| "thread_ok p (Grow k c) = (rp_capacity p = c \<and> c \<noteq> 0 \<and> \<not> rp_closed p)"
| "thread_ok p (GrowAvail k c) = (rp_capacity p = c \<and> c \<noteq> 0 \<and> \<not> rp_closed p)"
| "thread_ok p SetClose = (rp_capacity p = 0 \<and> \<not> rp_closed p)"
| "thread_ok p (SetIdleStart d) = (rp_idleTimer p \<noteq> TimerNil)"
| "thread_ok p t = True"

definition pool_ok :: "'r ResourcePool \<Rightarrow> bool" where
  "pool_ok p \<longleftrightarrow> 0 \<le> rp_capacity p \<and> rp_capacity p \<le> rp_maxCap p \<and> 0 < rp_maxCap p \<and>
     (rp_closed p \<longrightarrow> rp_capacity p = 0) \<and> (rp_capacity p = 0 \<longrightarrow> stopped p)"

text \<open>What a step keeps, of its own goroutine and of another one \<open>u\<close>.\<close>

lemma step_ok:
  assumes "thread_step e p t = Some (Ok (p', t'))" "pool_ok p" "thread_ok p t" "idling t \<noteq> 0 \<longrightarrow> rp_idleTimer p = TimerRunning"
  shows "pool_ok p' \<and> thread_ok p' t' \<and> rp_maxCap p' = rp_maxCap p"
  using assms by (cases t) (auto simp: step_defs pool_ok_def stopped_def split: step_splits)

lemma step_other:
  assumes "thread_step e p t = Some (Ok (p', t'))" "\<not> resizing t \<or> \<not> resizing u" "thread_ok p u" "pool_ok p"
    "idling t \<noteq> 0 \<longrightarrow> rp_idleTimer p = TimerRunning"
  shows "thread_ok p' u"
proof -
  have f: "rp_maxCap p' = rp_maxCap p" "rp_idleTimer p = TimerNil \<longleftrightarrow> rp_idleTimer p' = TimerNil" "stopped p \<Longrightarrow> stopped p'"
    "\<not> resizing t \<Longrightarrow> rp_capacity p' = rp_capacity p \<and> rp_closed p' = rp_closed p"
    using assms(1,5) by (cases t; auto simp: step_defs stopped_def split: step_splits)+
  show ?thesis using assms(2,3) f by (cases u) auto
qed

lemma step_resizing: "thread_step e p t = Some (Ok (p', t')) \<Longrightarrow> resizing t' \<Longrightarrow> resizing t"
  by (cases t) (auto simp: step_defs split: step_splits)

lemma step_pending:
  assumes "thread_step e p t = Some (Ok (p', t'))" "thread_ok p t" "rp_capacity p' = 0"
  shows "rp_capacity p \<noteq> 0 \<or> pending t \<Longrightarrow> pending t' \<or> rp_closed p'" "rp_closed p \<Longrightarrow> rp_closed p'"
  using assms by (cases t; auto simp: step_defs split: step_splits)+

definition resizers :: "'r thread \<Rightarrow> int" where
  "resizers t = (if resizing t then 1 else 0)"

text \<open>The balances, with the sums over all goroutines.\<close>

abbreviation total :: "('r thread \<Rightarrow> int) \<Rightarrow> 'r thread list \<Rightarrow> int" where
  "total f ts \<equiv> sum_list (map f ts)"

definition balances :: "'r ResourcePool \<Rightarrow> 'r thread list \<Rightarrow> bool" where
  "balances p ts \<longleftrightarrow>
     int (length (rp_resources p)) + total places ts + total (int \<circ> to_put) ts = rp_capacity p + total (int \<circ> to_take) ts \<and>
     rp_available p = int (length (rp_resources p)) + total counted_available ts \<and>
     rp_inUse p = total counted_in_use ts \<and>
     rp_active p = sum_list (map opened (rp_resources p)) + total counted_active ts \<and>
     total idling ts = (if rp_idleTimer p = TimerRunning then 1 else 0)"

lemma balances_iff:
  "balances p ts \<longleftrightarrow> placed.balanced (p, ts) \<and> available.balanced (p, ts) \<and> in_use.balanced (p, ts) \<and> active.balanced (p, ts) \<and>
     timer.balanced (p, ts)"
proof -
  have "total (\<lambda>t. places t - int (to_take t) + int (to_put t)) ts = total places ts - total (int \<circ> to_take) ts + total (int \<circ> to_put) ts"
    by (induction ts) auto
  then show ?thesis
    by (auto simp: balances_def placed.balanced_def available.balanced_def in_use.balanced_def active.balanced_def timer.balanced_def)
qed

definition pool_inv :: "'r system \<Rightarrow> bool" where
  "pool_inv s \<longleftrightarrow> (case s of (p, ts) \<Rightarrow>
     pool_ok p \<and> (\<forall>t \<in> set ts. thread_ok p t) \<and> total resizers ts \<le> 1 \<and> balances p ts \<and>
     (rp_capacity p = 0 \<longrightarrow> rp_closed p \<or> (\<exists>t \<in> set ts. pending t)))"

lemma total_nonneg: "(\<And>t. 0 \<le> f t) \<Longrightarrow> 0 \<le> total f ts"
  by (induction ts) auto

lemma total_member: "(\<And>t. 0 \<le> f t) \<Longrightarrow> t \<in> set ts \<Longrightarrow> f t \<le> total f ts"
proof (induction ts)
  case (Cons u ts)
  then show ?case using total_nonneg [of f ts] by (auto intro: order_trans add_increasing add_increasing2)
qed simp

lemma total_mono: "(\<And>t. f t \<le> g t) \<Longrightarrow> total f ts \<le> total g ts"
  by (induction ts) (auto intro: add_mono)

lemma total_zero: "(\<And>t. t \<in> set ts \<Longrightarrow> f t = 0) \<Longrightarrow> total f ts = 0"
  by (induction ts) auto

lemma total_positive: "total f ts > 0 \<Longrightarrow> \<exists>t \<in> set ts. f t > 0"
  by (induction ts) force+

lemma nonneg [simp]: "0 \<le> places t" "0 \<le> counted_in_use t" "0 \<le> idling t" "0 \<le> resizers t" "0 \<le> (int \<circ> to_take) t" "0 \<le> (int \<circ> to_put) t"
  "0 \<le> opened w" "0 \<le> counted_active t"
  by (cases t; simp add: resizers_def opened_def split: option.splits)+

lemma others_not_resizing:
  assumes "total resizers ts \<le> 1" "i < length ts" "resizing (ts ! i)" "j < length ts" "j \<noteq> i"
  shows "\<not> resizing (ts ! j)"
proof -
  have "total resizers (ts[i := Finished]) \<le> 0" using assms(1-3) by (simp add: sum_list_update resizers_def)
  moreover have "ts ! j \<in> set (ts[i := Finished])" using assms(4,5) nth_mem [of j "ts[i := Finished]"] by simp
  then have "resizers (ts ! j) \<le> total resizers (ts[i := Finished])" by (rule total_member [rotated]) simp
  ultimately show ?thesis by (simp add: resizers_def split: if_splits)
qed

lemma inv_guarded:
  assumes "pool_inv (p, ts)" "t \<in> set ts"
  shows "guarded p t" "idling t \<noteq> 0 \<Longrightarrow> rp_idleTimer p = TimerRunning"
proof -
  have i: "pool_ok p" "thread_ok p t" "total idling ts = (if rp_idleTimer p = TimerRunning then 1 else 0)"
    using assms by (auto simp: pool_inv_def balances_def)
  have "idling t \<le> total idling ts" using assms(2) by (intro total_member) simp_all
  then show "idling t \<noteq> 0 \<Longrightarrow> rp_idleTimer p = TimerRunning" using i(3) order.antisym [OF _ nonneg(3) [of t]] by (auto split: if_splits)
  then show "guarded p t" using i(1,2) by (cases t) (auto simp: pool_ok_def stopped_def)
qed

lemma in_set_other: "u \<in> set ts \<Longrightarrow> u \<noteq> ts ! i \<Longrightarrow> u \<in> set (ts[i := y])"
  by (metis in_set_conv_nth length_list_update nth_list_update_neq)

lemma inv_run:
  assumes inv: "pool_inv (p, ts)" and i: "i < length ts" and s: "thread_step e p (ts ! i) = Some (Ok (p', t'))"
  shows "pool_ok p' \<and> (\<forall>t \<in> set (ts[i := t']). thread_ok p' t) \<and> total resizers (ts[i := t']) \<le> 1 \<and>
    (rp_capacity p' = 0 \<longrightarrow> rp_closed p' \<or> (\<exists>t \<in> set (ts[i := t']). pending t))"
proof -
  note v = inv [unfolded pool_inv_def prod.case]
  have m: "ts ! i \<in> set ts" and ok: "thread_ok p (ts ! i)" using i v by simp_all
  note o = step_ok [OF s _ ok] and idle = inv_guarded(2) [OF inv m]
  have "thread_ok p' (ts[i := t'] ! j)" if j: "j < length ts" for j
  proof (cases "j = i")
    case True
    then show ?thesis using o v idle i by simp
  next
    case False
    then have "\<not> resizing (ts ! i) \<or> \<not> resizing (ts ! j)" using others_not_resizing [of ts i j] v i j by auto
    then show ?thesis using step_other [OF s] v idle False j by simp
  qed
  then have a: "\<forall>t \<in> set (ts[i := t']). thread_ok p' t" by (auto simp: in_set_conv_nth)
  have b: "total resizers (ts[i := t']) \<le> 1" using v i step_resizing [OF s] by (auto simp: sum_list_update resizers_def)
  have t': "t' \<in> set (ts[i := t'])" using i by (simp add: set_update_memI)
  have c: "rp_closed p' \<or> (\<exists>t \<in> set (ts[i := t']). pending t)" if z: "rp_capacity p' = 0"
  proof (cases "rp_capacity p \<noteq> 0 \<or> pending (ts ! i)")
    case True
    then show ?thesis using step_pending(1) [OF s ok z] t' by blast
  next
    case False
    then consider "rp_closed p" | u where "u \<in> set ts" "pending u" "u \<noteq> ts ! i" using v by auto
    then show ?thesis
    proof cases
      case 2
      then have "u \<in> set (ts[i := t'])" by (intro in_set_other)
      then show ?thesis using 2 by blast
    qed (use step_pending(2) [OF s ok z] in blast)
  qed
  show ?thesis using o v idle a b c by blast
qed

lemma inv_step:
  assumes "pool_step (p, ts) s'" "pool_inv (p, ts)"
  shows "pool_inv s'"
proof -
  have g: "\<forall>t \<in> set ts. guarded p t" using inv_guarded(1) [OF assms(2)] by blast
  note v = assms(2) [unfolded pool_inv_def prod.case]
  have "balances (fst s') (snd s')"
    using v placed.balanced_step [OF assms(1) _ g] available.balanced_step [OF assms(1) _ g] in_use.balanced_step [OF assms(1) _ g]
      active.balanced_step [OF assms(1) _ g] timer.balanced_step [OF assms(1) _ g] by (simp add: balances_iff)
  moreover from assms(1) have "pool_ok (fst s') \<and> (\<forall>t \<in> set (snd s'). thread_ok (fst s') t) \<and> total resizers (snd s') \<le> 1 \<and>
    (rp_capacity (fst s') = 0 \<longrightarrow> rp_closed (fst s') \<or> (\<exists>t \<in> set (snd s'). pending t))"
  proof (rule pool_stepE)
    assume "pool_work (p, ts) s'"
    then show ?thesis
    proof (rule pool_workE)
      fix i r x assume r: "s' = (p, ts[i := PutStart x])" "i < length ts" "ts ! i = Holding r"
      have "u \<in> set (ts[i := PutStart x])" if "u \<in> set ts" "pending u" for u
        using that r by (intro in_set_other) auto
      then show ?thesis using r v by (auto simp: sum_list_update resizers_def dest!: set_update_subset_insert [THEN subsetD])
    qed (use inv_run [OF assms(2)] in auto)
  next
    fix t assume t: "s' = (p, ts @ [t])" "startable p ts t"
    have "\<not> list_ex resizing ts \<Longrightarrow> total resizers ts = 0" by (rule total_zero) (auto simp: resizers_def list_ex_iff)
    then show ?thesis using t v by (auto elim!: startableE simp: resizers_def)
  next
    assume t: "s' = (p\<lparr>rp_idleTimer := TimerRunning\<rparr>, ts @ [IdleStart])" "rp_idleTimer p = TimerWaiting"
    have "thread_ok (p\<lparr>rp_idleTimer := TimerRunning\<rparr>) u" if "thread_ok p u" for u
      using that t(2) by (cases u) (auto simp: stopped_def)
    then show ?thesis using t v by (auto simp: pool_ok_def stopped_def resizers_def)
  qed
  ultimately show ?thesis by (cases s') (simp add: pool_inv_def)
qed

lemma reach_inv: "pool_reach s \<Longrightarrow> pool_inv s"
proof (induction rule: pool_reach.induct)
  case (init capacity maxCap idleTimeout p)
  then have "balances p []"
    using placed.balanced_init available.balanced_init in_use.balanced_init active.balanced_init timer.balanced_init
    by (auto simp: balances_iff)
  with init show ?case by (auto simp: pool_inv_def NewResourcePool_Ok pool_ok_def)
next
  case (step s s')
  obtain p ts where "s = (p, ts)" by fastforce
  then show ?case using step inv_step by blast
qed

section \<open>Safety\<close>

text \<open>At most one goroutine changes the capacity.\<close>

lemma total_of_resizer:
  assumes "total resizers ts \<le> 1" "\<And>t. \<not> resizing t \<Longrightarrow> f t = 0"
  shows "total f ts = 0 \<or> (\<exists>t \<in> set ts. total f ts = f t)"
  using assms(1)
proof (induction ts)
  case (Cons t ts)
  show ?case
  proof (cases "resizing t")
    case True
    then have "total resizers ts \<le> 0" using Cons.prems by (simp add: resizers_def [of t])
    then have "\<not> resizing u" if "u \<in> set ts" for u
      using total_member [of resizers u ts, OF nonneg(4) that] by (auto simp: resizers_def [of u])
    then have "total f ts = 0" by (intro total_zero assms(2))
    then show ?thesis by simp
  next
    case False
    then show ?thesis using Cons assms(2) [of t] by (auto simp: resizers_def [of t])
  qed
qed simp

fun shrunk :: "'r thread \<Rightarrow> int" where
  "shrunk (Shrink k c) = int k" | "shrunk (ShrinkGot k c w) = int k + 1" | "shrunk (ShrinkAvail k c) = int k + 1" | "shrunk _ = 0"

lemma shrunk_bound:
  assumes "pool_inv (p, ts)"
  shows "rp_capacity p + total shrunk ts \<le> rp_maxCap p"
proof -
  note v = assms [unfolded pool_inv_def prod.case]
  have "\<not> resizing t \<Longrightarrow> shrunk t = 0" for t :: "'a thread" by (cases t) auto
  then consider "total shrunk ts = 0" | t where "t \<in> set ts" "total shrunk ts = shrunk t"
    using total_of_resizer [of ts shrunk] v by blast
  then show ?thesis
  proof cases
    case 2
    then have "thread_ok p t" using v by blast
    then show ?thesis using 2 v by (cases t) (auto simp: pool_ok_def)
  qed (use v in \<open>simp add: pool_ok_def\<close>)
qed

lemma places_bound:
  assumes "pool_inv (p, ts)"
  shows "int (length (rp_resources p)) + total places ts + total (int \<circ> to_put) ts \<le> rp_maxCap p"
proof -
  have "total (int \<circ> to_take) ts \<le> total shrunk ts"
  proof (rule total_mono)
    show "(int \<circ> to_take) t \<le> shrunk t" for t :: "'a thread" by (cases t) auto
  qed
  then show ?thesis using shrunk_bound [OF assms] assms by (simp add: pool_inv_def balances_def)
qed

lemma taker_can_send:
  assumes "pool_inv (p, ts)" "t \<in> set ts" "places t + int (to_put t) > 0"
  shows "\<not> full p" "\<not> rp_closed p"
proof -
  note v = assms(1) [unfolded pool_inv_def prod.case]
  have n: "0 \<le> total places ts" "0 \<le> total (int \<circ> to_put) ts" "places t \<le> total places ts" "int (to_put t) \<le> total (int \<circ> to_put) ts"
    using total_nonneg [of places ts] total_nonneg [of "int \<circ> to_put" ts] total_member [of places t ts, OF _ assms(2)]
      total_member [of "int \<circ> to_put" t ts, OF _ assms(2)] by simp_all
  have "places t + int (to_put t) \<le> total places ts + total (int \<circ> to_put) ts" using n(3,4) by linarith
  with places_bound [OF assms(1)] assms(3) show "\<not> full p" by (simp add: full_def)
  show "\<not> rp_closed p"
  proof
    assume c: "rp_closed p"
    have "to_take u = 0" if "u \<in> set ts" for u using v that c by (cases u) auto
    then have "total (int \<circ> to_take) ts = 0" by (intro total_zero) simp
    then have "int (length (rp_resources p)) + total places ts + total (int \<circ> to_put) ts = 0"
      using v c by (simp add: balances_def pool_ok_def)
    then show False using n assms(3) by linarith
  qed
qed

text \<open>
  C11: no operation of a pool panics, in any interleaving: no \<^verbatim>\<open>Put\<close> finds the channel full, none sends on a closed
  channel and the channel is closed at most once, if at most one \<^verbatim>\<open>SetCapacity\<close> (to a capacity other than \<open>0\<close>) or
  \<^verbatim>\<open>Close\<close> runs at a time and \<^verbatim>\<open>SetIdleTimeout\<close> is called only on a pool with a timer (\<open>startable\<close>).
\<close>

theorem pool_never_panics:
  assumes "pool_reach (p, ts)" "t \<in> set ts"
  shows "thread_step e p t \<noteq> Some (Panic x)"
proof -
  note i = reach_inv [OF assms(1)]
  then have "thread_ok p t" using assms(2) by (simp add: pool_inv_def)
  with taker_can_send [OF i assms(2)] show ?thesis by (cases t) (auto simp: step_defs split: step_splits)
qed

lemma available_bound:
  assumes "pool_inv (p, ts)"
  shows "rp_available p \<le> rp_maxCap p"
proof -
  have "counted_available t \<le> places t + shrunk t - int (to_take t)" for t :: "'a thread" by (cases t; simp)
  then have "total counted_available ts \<le> total places ts + total shrunk ts - total (int \<circ> to_take) ts"
    using total_mono [of counted_available "\<lambda>t. places t + shrunk t - int (to_take t)" ts]
    by (simp add: sum_list_addf sum_list_subtractf comp_def)
  moreover have "0 \<le> total (int \<circ> to_put) ts" by (rule total_nonneg) simp
  ultimately show ?thesis using shrunk_bound [OF assms] assms by (simp add: pool_inv_def balances_def)
qed

text \<open>The resources that exist: in the channel, and in the hands of goroutines and clients.\<close>

fun has_resource :: "'r thread \<Rightarrow> int" where
  "has_resource (GetGot got) = (case got of None \<Rightarrow> 0 | Some w \<Rightarrow> opened w)"
| "has_resource (GetActive r) = 1" | "has_resource (GetAvail r) = 1" | "has_resource (GetInUse r) = 1" | "has_resource (Holding r) = 1"
| "has_resource (PutStart x) = (if x = None then 0 else 1)" | "has_resource (PutSend w) = opened w"
| "has_resource (ShrinkGot k c w) = opened w" | "has_resource (IdleGot n d w) = opened w" | "has_resource (IdleSend n d w) = opened w"
| "has_resource _ = 0"

fun at_rest :: "'r thread \<Rightarrow> bool" where
  "at_rest (Holding r) = True" | "at_rest Finished = True" | "at_rest (Failed er) = True" | "at_rest _ = False"

fun is_Holding :: "'r thread \<Rightarrow> bool" where
  "is_Holding (Holding r) = True" | "is_Holding _ = False"

lemma opened_length: "sum_list (map opened ws) \<le> int (length ws)"
  by (induction ws) (auto simp: opened_def)

text \<open>
  C12: in the states reachable with at most one \<^verbatim>\<open>SetCapacity\<close> or \<^verbatim>\<open>Close\<close> at a time, there are never more resources than the maximal capacity, and the counters are right: when every goroutine
  has returned, the resources in use are those that clients hold, the others up to the capacity are available,
  and the active ones are those in use and those kept open in the channel.
\<close>

theorem pool_counters:
  assumes "pool_reach (p, ts)"
  shows "sum_list (map opened (rp_resources p)) + total has_resource ts \<le> rp_maxCap p \<and>
    0 \<le> rp_capacity p \<and> rp_capacity p \<le> rp_maxCap p \<and> rp_available p \<le> rp_maxCap p \<and>
    (list_all at_rest ts \<longrightarrow>
       rp_inUse p = int (length (filter is_Holding ts)) \<and> rp_available p = rp_capacity p - rp_inUse p \<and>
       rp_active p = rp_inUse p + sum_list (map opened (rp_resources p)))"
proof -
  note i = reach_inv [OF assms]
  note v = i [unfolded pool_inv_def prod.case]
  have "has_resource t \<le> places t + shrunk t - int (to_take t)" for t :: "'a thread" by (cases t; simp add: opened_def split: option.splits)
  then have le: "total has_resource ts \<le> total places ts + total shrunk ts - total (int \<circ> to_take) ts"
    using total_mono [of has_resource "\<lambda>t. places t + shrunk t - int (to_take t)" ts] by (simp add: sum_list_addf sum_list_subtractf comp_def)
  have put: "0 \<le> total (int \<circ> to_put) ts" by (rule total_nonneg) simp
  have b: "int (length (rp_resources p)) + total places ts + total (int \<circ> to_put) ts = rp_capacity p + total (int \<circ> to_take) ts"
    using v by (simp add: balances_def)
  have q: "total places ts = int (length (filter is_Holding ts)) \<and> total counted_available ts = 0 \<and>
      total counted_in_use ts = int (length (filter is_Holding ts)) \<and> total counted_active ts = int (length (filter is_Holding ts)) \<and>
      total (int \<circ> to_take) ts = 0 \<and> total (int \<circ> to_put) ts = 0" if "list_all at_rest ts"
    using that
  proof (induction ts)
    case (Cons t ts)
    then show ?case by (cases t) auto
  qed simp
  have "sum_list (map opened (rp_resources p)) + total has_resource ts \<le> rp_maxCap p"
    using le opened_length [of "rp_resources p"] shrunk_bound [OF i] put b by linarith
  then show ?thesis using v q available_bound [OF i] by (auto simp: balances_def pool_ok_def)
qed

section \<open>Every operation returns\<close>

fun ended :: "'r thread \<Rightarrow> bool" where
  "ended Finished = True" | "ended (Failed er) = True" | "ended _ = False"

definition can_step :: "'r ResourcePool \<Rightarrow> 'r thread \<Rightarrow> bool" where
  "can_step p t \<longleftrightarrow> (\<forall>e. \<exists>p' t'. thread_step e p t = Some (Ok (p', t')))"

text \<open>How many steps a goroutine can still make, where the channel has the capacity \<open>m\<close>.\<close>

fun steps_left :: "nat \<Rightarrow> 'r thread \<Rightarrow> nat" where
  "steps_left m (GetStart b) = 20" | "steps_left m (GetFetch b) = 19" | "steps_left m (GetWait n) = 18" | "steps_left m (GetGot w) = 17"
| "steps_left m (GetFailed er) = 1" | "steps_left m (GetActive r) = 16" | "steps_left m (GetAvail r) = 15" | "steps_left m (GetInUse r) = 14"
| "steps_left m (Holding r) = 13" | "steps_left m (PutStart x) = 12" | "steps_left m (PutSend w) = 11" | "steps_left m PutInUse = 10"
| "steps_left m PutAvail = 9"
| "steps_left m CloseStart = 3 * m + 20" | "steps_left m (SetStart c) = 3 * m + 19" | "steps_left m (SetLoad c) = 3 * m + 18"
| "steps_left m (SetCas c oldcap) = 3 * m + 17" | "steps_left m (Shrink k c) = 3 * k + 5" | "steps_left m (ShrinkGot k c w) = 3 * k + 7"
| "steps_left m (ShrinkAvail k c) = 3 * k + 6" | "steps_left m (Grow k c) = 3 * k + 5" | "steps_left m (GrowAvail k c) = 3 * k + 6"
| "steps_left m SetClose = 4" | "steps_left m (SetIdleStart d) = 3" | "steps_left m (SetIdleReset d) = 2" | "steps_left m SetIdleSend = 1"
| "steps_left m IdleStart = 3 * m + 20" | "steps_left m (IdleRead n) = 3 * n + 6" | "steps_left m (IdleLoop n d) = 3 * n + 5" | "steps_left m (IdleGot n d w) = 3 * n + 7"
| "steps_left m (IdleSend n d w) = 3 * n + 6"
| "steps_left m Finished = 0" | "steps_left m (Failed er) = 0"

lemma steps_left_less:
  assumes "thread_step e p t = Some (Ok (p', t'))" "thread_ok p t" "pool_ok p" "rp_available p \<le> rp_maxCap p"
  shows "steps_left (nat (rp_maxCap p)) t' < steps_left (nat (rp_maxCap p)) t"
  using assms by (cases t) (auto simp: step_defs pool_ok_def split: step_splits)

lemma sum_list_less: "i < length xs \<Longrightarrow> f y < (f (xs ! i) :: nat) \<Longrightarrow> sum_list (map f (xs[i := y])) < sum_list (map f xs)"
  by (induction xs arbitrary: i) (auto split: nat.splits)

lemma work_steps_left:
  assumes "pool_inv (p, ts)" "pool_work (p, ts) (p', ts')"
  shows "rp_maxCap p' = rp_maxCap p \<and>
    sum_list (map (steps_left (nat (rp_maxCap p))) ts') < sum_list (map (steps_left (nat (rp_maxCap p))) ts)"
  using assms(2)
proof (rule pool_workE)
  fix i e p1 t' assume r: "(p', ts') = (p1, ts[i := t'])" "i < length ts" "thread_step e p (ts ! i) = Some (Ok (p1, t'))"
  have v: "thread_ok p (ts ! i)" "pool_ok p" using assms(1) r by (auto simp: pool_inv_def)
  show ?thesis
    using r sum_list_less [OF r(2)] steps_left_less [OF r(3) v available_bound [OF assms(1)]] step_ok [OF r(3) v(2,1)]
      inv_guarded(2) [OF assms(1) nth_mem [OF r(2)]] by auto
qed (auto intro: sum_list_less)

lemma work_bounded:
  "(pool_work ^^ n) (p, ts) s' \<Longrightarrow> pool_inv (p, ts) \<Longrightarrow> n \<le> sum_list (map (steps_left (nat (rp_maxCap p))) ts)"
proof (induction n arbitrary: p ts)
  case (Suc n)
  obtain p1 ts1 where s: "pool_work (p, ts) (p1, ts1)" "(pool_work ^^ n) (p1, ts1) s'"
    using relpowp_Suc_D2 [OF Suc.prems(1)] by auto
  have "pool_inv (p1, ts1)" using inv_step [OF pool_step.work [OF s(1)]] Suc.prems(2) .
  from Suc.IH [OF s(2) this] work_steps_left [OF Suc.prems(2) s(1)] show ?case by simp
qed simp

text \<open>What a goroutine can wait for.\<close>

lemma step_or_wait:
  assumes "pool_inv (p, ts)" "t \<in> set ts"
  shows "can_step p t \<or> ended t \<or> is_Holding t \<or> (rp_resources p = [] \<and> \<not> rp_closed p \<and> places t = 0 \<and> to_put t = 0 \<and> (pending t \<longrightarrow> to_take t > 0)) \<or>
    rp_idleTimer p = TimerRunning \<and> idling t = 0 \<and> \<not> pending t \<and> places t = 0"
proof -
  have "thread_ok p t" using assms by (simp add: pool_inv_def)
  then show ?thesis using taker_can_send [OF assms]
    by (cases t) (auto simp: can_step_def step_defs split: step_splits)
qed

lemma progress:
  assumes inv: "pool_inv (p, ts)" and u: "u \<in> set ts" "\<not> ended u"
  shows "\<exists>t \<in> set ts. is_Holding t \<or> can_step p t"
proof (rule ccontr)
  assume "\<not> ?thesis"
  then have stuck: "\<not> is_Holding t" "\<not> can_step p t" if "t \<in> set ts" for t using that by blast+
  note v = inv [unfolded pool_inv_def prod.case]
  have w: "ended t \<or> places t = 0 \<and> \<not> (pending t \<and> to_take t = 0)" if "t \<in> set ts" for t
    using step_or_wait [OF inv that] stuck [OF that] by auto
  have idle: "rp_idleTimer p \<noteq> TimerRunning"
  proof
    assume "rp_idleTimer p = TimerRunning"
    then obtain t where t: "t \<in> set ts" "idling t > 0" using v total_positive [of idling ts] by (auto simp: balances_def)
    have "can_step p t" using taker_can_send [OF inv t(1)] t(2) by (cases t) (auto simp: can_step_def step_defs split: step_splits)
    then show False using stuck t by blast
  qed
  then have e: "rp_resources p = []" "\<not> rp_closed p" "to_put t = 0 \<or> ended t" if "t \<in> set ts" "\<not> ended t" for t
    using step_or_wait [OF inv that(1)] stuck [OF that(1)] that by auto
  have z: "places t = 0" "to_put t = 0" if "t \<in> set ts" for t
    using w [OF that] e(3) [OF that] by (cases "ended t"; cases t; auto)+
  then have "total places ts = 0" "total (int \<circ> to_put) ts = 0" by (simp_all add: total_zero)
  then have "rp_capacity p + total (int \<circ> to_take) ts = 0" using v e(1) [OF u] by (simp add: balances_def)
  moreover have "0 \<le> total (int \<circ> to_take) ts" by (rule total_nonneg) simp
  ultimately have c: "rp_capacity p = 0" "total (int \<circ> to_take) ts = 0" using v by (simp_all add: pool_ok_def)
  then obtain t where t: "t \<in> set ts" "pending t" using v e(2) [OF u] by blast
  have "int (to_take t) \<le> 0" using total_member [of "int \<circ> to_take" t ts, OF _ t(1)] c(2) by simp
  then show False using w [OF t(1)] t(2) by (cases t) auto
qed

text \<open>
  C10: every operation of a pool returns. From a state reachable with at most one \<^verbatim>\<open>SetCapacity\<close> or \<^verbatim>\<open>Close\<close> at a
  time, the operations that have been started make at most
  a bounded number of steps, whatever the order; and as long as one of them has not returned, a client holds
  a resource that it can put back, or a goroutine can make a step even if no context ever expires.
\<close>

theorem pool_operations_return:
  assumes "pool_reach (p, ts)"
  shows "(\<exists>n. \<forall>m s'. (pool_work ^^ m) (p, ts) s' \<longrightarrow> m \<le> n) \<and>
    (list_all ended ts \<or> (\<exists>t \<in> set ts. is_Holding t \<or> (\<forall>e. \<exists>p' t'. thread_step e p t = Some (Ok (p', t')))))"
proof -
  note i = reach_inv [OF assms]
  have "\<exists>n. \<forall>m s'. (pool_work ^^ m) (p, ts) s' \<longrightarrow> m \<le> n" using work_bounded [OF _ i] by blast
  moreover have "list_all ended ts \<or> (\<exists>t \<in> set ts. is_Holding t \<or> can_step p t)" using progress [OF i] by (auto simp: list_all_iff)
  ultimately show ?thesis by (simp add: can_step_def)
qed

section \<open>Schedules\<close>

datatype 'r event = Run nat "'r env" | Release nat bool | Start "'r thread"

fun exec_event :: "'r event \<Rightarrow> 'r system \<Rightarrow> 'r system res" where
  "exec_event (Run i e) (p, ts) =
     andThen (at ts (int i)) (\<lambda>t.
       case thread_step e p t of None \<Rightarrow> Err (ErrMsg ''blocked'') | Some r \<Rightarrow> andThen r (\<lambda>(p', t'). Ok (p', ts[i := t'])))"
| "exec_event (Release i keep) (p, ts) =
     andThen (at ts (int i)) (\<lambda>t.
       case t of Holding r \<Rightarrow> Ok (p, ts[i := PutStart (if keep then Some r else None)]) | _ \<Rightarrow> Err (ErrMsg ''nothing to put back''))"
| "exec_event (Start t) (p, ts) = Ok (p, ts @ [t])"

fun exec :: "'r event list \<Rightarrow> 'r system \<Rightarrow> 'r system res" where
  "exec [] s = Ok s"
| "exec (ev # evs) s = andThen (exec_event ev s) (exec evs)"

fun allowed :: "'r event \<Rightarrow> bool" where
  "allowed (Start (GetStart wait)) = True"
| "allowed (Start t) = False"
| "allowed ev = True"

lemma exec_reach: "exec evs s = Ok s' \<Longrightarrow> list_all allowed evs \<Longrightarrow> pool_reach s \<Longrightarrow> pool_reach s'"
proof (induction evs arbitrary: s)
  case (Cons ev evs)
  obtain p ts where s: "s = (p, ts)" by fastforce
  from Cons.prems(1) obtain s1 where s1: "exec_event ev s = Ok s1" "exec evs s1 = Ok s'" by auto
  have "pool_step s s1"
  proof (cases ev)
    case (Run i e)
    then show ?thesis using s1(1) s by (auto simp: at_eq_Ok split: option.splits intro!: pool_step.work pool_work.run)
  next
    case (Release i keep)
    then show ?thesis using s1(1) s by (auto simp: at_eq_Ok split: thread.splits if_splits intro!: pool_step.work pool_work.release)
  next
    case (Start t)
    then show ?thesis using s1(1) Cons.prems(2) s by (cases t) (auto intro!: pool_step.start)
  qed
  then have "pool_reach s1" by (rule pool_reach.step [OF Cons.prems(3)])
  with Cons.IH [OF s1(2)] Cons.prems(2) show ?case by simp
qed simp

text \<open>A pool of two resources and a timer, and a client that holds one of them.\<close>

definition example_env :: "nat env" where
  "example_env = \<lparr>env_done = False, env_pick = False, env_now = 0, env_make = Inr 7\<rparr>"

definition run_thread :: "nat \<Rightarrow> nat \<Rightarrow> nat event list" where
  "run_thread n i = replicate n (Run i example_env)"

definition example_pool :: "nat ResourcePool" where
  "example_pool = \<lparr>rp_resources = replicate 2 zero_wrapper, rp_maxCap = 2, rp_closed = False, rp_capacity = 2, rp_idleTimeout = 100,
      rp_idleTimer = TimerWaiting, rp_interval = 10, rp_armed = True, rp_available = 2, rp_active = 0, rp_inUse = 0, rp_waitCount = 0, rp_waitTime = 0,
      rp_idleClosed = 0\<rparr>"

definition example_get :: "nat event list" where
  "example_get = Start (GetStart True) # run_thread 6 0"

definition example_held :: "nat ResourcePool" where
  "example_held = example_pool\<lparr>rp_resources := [zero_wrapper], rp_available := 1, rp_active := 1, rp_inUse := 1\<rparr>"

lemma example_new: "NewResourcePool 2 2 100 = Ok example_pool"
  by (simp add: NewResourcePool_def example_pool_def)

lemma example_exec: "exec example_get (example_pool, []) = Ok (example_held, [Holding 7])"
  by code_simp

lemma example_reach: "pool_reach (example_held, [Holding 7])"
  by (rule exec_reach [OF example_exec _ pool_reach.init [OF example_new]]) (simp add: example_get_def run_thread_def list_all_iff)

lemma example_reach_put:
  "pool_reach (example_held, [PutSend \<lparr>wr_resource = Some 7, wr_timeUsed = 0\<rparr>])"
proof (rule exec_reach [OF _ _ example_reach])
  show "exec (Release 0 True # run_thread 1 0) (example_held, [Holding 7]) =
      Ok (example_held, [PutSend \<lparr>wr_resource = Some 7, wr_timeUsed = 0\<rparr>])" by code_simp
qed (simp add: run_thread_def list_all_iff)

theorem pool_never_panics_witness:
  "thread_step example_env example_held (PutSend \<lparr>wr_resource = Some 7, wr_timeUsed = 0\<rparr>) \<noteq>
     Some (Panic (PMsg ''attempt to Put into a full ResourcePool''))"
  using pool_never_panics [OF example_reach_put] by simp

theorem pool_counters_witness:
  "rp_inUse example_held = 1 \<and> rp_available example_held = rp_capacity example_held - 1 \<and>
     rp_active example_held = 1 + sum_list (map opened (rp_resources example_held))"
  using pool_counters [OF example_reach] by simp

theorem pool_operations_return_witness:
  "\<exists>n. \<forall>s'. \<not> (pool_work ^^ Suc n) (example_held, [PutSend \<lparr>wr_resource = Some 7, wr_timeUsed = 0\<rparr>]) s'"
proof -
  obtain n where "\<forall>m s'. (pool_work ^^ m) (example_held, [PutSend \<lparr>wr_resource = Some 7, wr_timeUsed = 0\<rparr>]) s' \<longrightarrow> m \<le> n"
    using pool_operations_return [OF example_reach_put] by blast
  then have "\<not> (pool_work ^^ Suc n) (example_held, [PutSend \<lparr>wr_resource = Some 7, wr_timeUsed = 0\<rparr>]) s'" for s'
    using not_less_eq_eq by blast
  then show ?thesis by blast
qed

text \<open>
  Two changes of the capacity at the same time. \<^verbatim>\<open>Close\<close> during a \<^verbatim>\<open>SetCapacity\<close> to \<open>1\<close> takes the resource
  that is in the channel and closes the channel while the client still holds the other one: the \<^verbatim>\<open>Put\<close>
  of the client panics. A \<^verbatim>\<open>SetCapacity\<close> to \<open>2\<close> in its place fills the channel.
\<close>

lemma close_during_shrink:
  "exec (Start (SetStart 1) # run_thread 3 1 @ Start CloseStart # run_thread 9 2 @ Release 0 True # run_thread 2 0)
     (example_held, [Holding 7]) = Panic (PMsg ''send on closed channel'')"
  by code_simp

lemma grow_during_shrink:
  "exec (Start (SetStart 1) # run_thread 3 1 @ Start (SetStart 2) # run_thread 4 2 @ Release 0 True # run_thread 2 0)
     (example_held, [Holding 7]) = Panic (PMsg ''attempt to Put into a full ResourcePool'')"
  by code_simp

text \<open>A \<^verbatim>\<open>SetCapacity\<close> to \<open>0\<close> does not stop the timer, as \<^verbatim>\<open>Close\<close> does: the idle loop receives from the closed channel
  and sends what it got.\<close>

lemma shutdown_during_idle:
  "exec (run_thread 2 0 @ Start (SetStart 0) # run_thread 11 1 @ run_thread 3 0)
     (example_pool\<lparr>rp_idleTimer := TimerRunning\<rparr>, [IdleStart]) = Panic (PMsg ''send on closed channel'')"
  by code_simp

end
