(* ===== verification/Slices.thy ===== *)
theory Slices
  imports Resource_Pool Models "HOL-Library.Multiset"
begin

text \<open>
  The slices of \<^verbatim>\<open>backend\<close>: connection pools over the resource pool, the weighted round robin over the slaves, the
  choice of a connection, and the construction of a slice from its configuration (\<^verbatim>\<open>parseSlice\<close> of
  \<^verbatim>\<open>proxy/server/namespace.go\<close>). \<open>'c\<close> is the type of the connections. The random numbers are a parameter
  \<open>intn\<close>: \<open>intn n i\<close> is the result of the \<open>i\<close>-th \<^verbatim>\<open>r.Intn(n)\<close>.
\<close>

section \<open>Connection pools\<close>

record 'c ConnectionPool =
  cp_connections :: "'c ResourcePool option"
  cp_addr :: string
  cp_user :: string
  cp_password :: string
  cp_db :: string
  cp_charset :: string
  cp_collationID :: int
  cp_capacity :: int
  cp_maxCapacity :: int
  cp_idleTimeout :: int

definition ErrConnectionPoolClosed :: err where
  "ErrConnectionPoolClosed = ErrMsg ''connection pool is closed''"

definition DefaultCapacity :: int where "DefaultCapacity = 64"

definition NewConnectionPool ::
  "string \<Rightarrow> string \<Rightarrow> string \<Rightarrow> string \<Rightarrow> int \<Rightarrow> int \<Rightarrow> int \<Rightarrow> string \<Rightarrow> int \<Rightarrow> 'c ConnectionPool" where
  "NewConnectionPool addr user password db capacity maxCapacity idleTimeout charset collationID =
     \<lparr>cp_connections = None, cp_addr = addr, cp_user = user, cp_password = password, cp_db = db, cp_charset = charset,
      cp_collationID = collationID, cp_capacity = capacity, cp_maxCapacity = maxCapacity, cp_idleTimeout = idleTimeout\<rparr>"

definition cp_Open :: "'c ConnectionPool \<Rightarrow> 'c ConnectionPool res" where
  "cp_Open cp =
     (let cp = (if cp_capacity cp = 0 then cp\<lparr>cp_capacity := DefaultCapacity\<rparr> else cp);
          cp = (if cp_maxCapacity cp = 0 then cp\<lparr>cp_maxCapacity := cp_capacity cp\<rparr> else cp)
      in andThen (NewResourcePool (cp_capacity cp) (cp_maxCapacity cp) (cp_idleTimeout cp)) (\<lambda>p. Ok (cp\<lparr>cp_connections := Some p\<rparr>)))"

text \<open>The operations on the resource pool that the methods of a connection pool start. \<open>reused\<close>: whether the
  connection could be reset; \<open>None\<close> is the nil connection.\<close>

definition cp_Get :: "'c ConnectionPool \<Rightarrow> 'c thread res" where
  "cp_Get cp = (case cp_connections cp of None \<Rightarrow> Err ErrConnectionPoolClosed | Some p \<Rightarrow> Ok (GetStart True))"

definition cp_Put :: "bool \<Rightarrow> 'c ConnectionPool \<Rightarrow> 'c option \<Rightarrow> 'c thread res" where
  "cp_Put reused cp pc =
     (case cp_connections cp of
        None \<Rightarrow> Panic (PMsg ''connection pool is closed'')
      | Some p \<Rightarrow> Ok (PutStart (if reused then pc else None)))"

definition Recycle :: "('c \<Rightarrow> bool) \<Rightarrow> bool \<Rightarrow> 'c ConnectionPool \<Rightarrow> 'c \<Rightarrow> 'c thread res" where
  "Recycle closed reused cp pc = (if closed pc then cp_Put reused cp None else cp_Put reused cp (Some pc))"

definition cp_Close :: "'c ConnectionPool \<Rightarrow> 'c thread option \<times> 'c ConnectionPool" where
  "cp_Close cp =
     (case cp_connections cp of None \<Rightarrow> (None, cp) | Some p \<Rightarrow> (Some CloseStart, cp\<lparr>cp_connections := None\<rparr>))"

text \<open>What a pool that is closed reports.\<close>

definition cp_stat :: "('c ResourcePool \<Rightarrow> int) \<Rightarrow> 'c ConnectionPool \<Rightarrow> int" where
  "cp_stat f cp = (case cp_connections cp of None \<Rightarrow> 0 | Some p \<Rightarrow> f p)"

section \<open>Slices\<close>

record 'c Slice =
  s_Cfg :: SliceCfg
  s_Master :: "'c ConnectionPool option"
  s_MasterDCSlave :: "'c ConnectionPool list"
  s_MasterDCSlaveWeights :: "int list"
  s_MasterDCLastSlaveIndex :: int
  s_MasterDCRoundRobinQ :: "int list"
  s_Slave :: "'c ConnectionPool list"
  s_LastSlaveIndex :: int
  s_RoundRobinQ :: "int list"
  s_SlaveWeights :: "int list"
  s_StatisticSlave :: "'c ConnectionPool list"
  s_LastStatisticSlaveIndex :: int
  s_StatisticSlaveRoundRobinQ :: "int list"
  s_StatisticSlaveWeights :: "int list"
  s_charset :: string
  s_collationID :: int

definition ErrNoDatabase :: err where "ErrNoDatabase = ErrMsg ''no database''"
definition ErrNoMasterDB :: err where "ErrNoMasterDB = ErrMsg ''no master database''"

section \<open>Load balancing\<close>

lemma i64_le: "0 \<le> x \<Longrightarrow> i64 x \<le> x"
  by (cases "x < 2 ^ 63") (use in_i64_i64 [of x] in \<open>auto simp: i64_id in_i64_bounds\<close>)

text \<open>The loop of \<^verbatim>\<open>gcd\<close>, downwards from the smallest weight. A zero divisor panics on the first element; the
  decrement wraps.\<close>

function gcd_loop :: "int list \<Rightarrow> int \<Rightarrow> int res" where
  "gcd_loop ary m =
     (if m = 0 then Panic PDivZero
      else if list_all (\<lambda>x. x smod m = 0) ary then Ok m
      else if i64 (m - 1) < 1 then Ok (i64 (m - 1))
      else gcd_loop ary (i64 (m - 1)))"
  by pat_completeness auto

termination
proof (relation "measure (\<lambda>(ary, m). if m < 1 then nat (2 ^ 63) else nat m)", simp, goal_cases)
  case (1 ary m)
  have "i64 (m - 1) < 2 ^ 63" using in_i64_i64 [of "m - 1"] by (simp only: in_i64_bounds)
  then show ?case using 1 i64_le [of "m - 1"] by auto
qed

definition gcd_weights :: "int list \<Rightarrow> int res" where
  "gcd_weights ary = (case ary of [] \<Rightarrow> Panic PIndex | a # _ \<Rightarrow> gcd_loop ary (fold min ary a))"

definition go_div :: "int \<Rightarrow> int \<Rightarrow> int res" where
  "go_div a b = (if b = 0 then Panic PDivZero else Ok (i64 (a sdiv b)))"

fun sum_shares :: "int \<Rightarrow> int \<Rightarrow> int list \<Rightarrow> int res" where
  "sum_shares g cnt [] = Ok cnt"
| "sum_shares g cnt (w # ws) = andThen (go_div w g) (\<lambda>d. sum_shares g (i64 (cnt + d)) ws)"

fun shares :: "int \<Rightarrow> int \<Rightarrow> int list \<Rightarrow> int list res" where
  "shares g index [] = Ok []"
| "shares g index (w # ws) =
     andThen (go_div w g) (\<lambda>d. andThen (shares g (index + 1) ws) (\<lambda>q. Ok (replicate (nat d) index @ q)))"

fun shuffle :: "(int \<Rightarrow> nat \<Rightarrow> int) \<Rightarrow> int \<Rightarrow> nat \<Rightarrow> nat \<Rightarrow> int list \<Rightarrow> int list res" where
  "shuffle intn cnt i 0 q = Ok q"
| "shuffle intn cnt i (Suc n) q =
     (let x = intn cnt i
      in andThen (at q x) (\<lambda>temp.
         andThen (go_mod cnt (x + 1)) (\<lambda>other.
         andThen (at q other) (\<lambda>v.
           shuffle intn cnt (Suc i) n (q[nat x := v, nat other := temp])))))"

definition round_robin :: "(int \<Rightarrow> nat \<Rightarrow> int) \<Rightarrow> int list \<Rightarrow> int list res" where
  "round_robin intn weights =
     andThen (gcd_weights weights) (\<lambda>g.
     andThen (sum_shares g 0 weights) (\<lambda>cnt.
       if cnt < 0 then Panic (PMsg ''makeslice: cap out of range'')
       else andThen (shares g 0 weights) (\<lambda>q.
         if 1 < length weights then shuffle intn cnt 0 (nat cnt) q else Ok q)))"

definition initMasterDCBalancer :: "(int \<Rightarrow> nat \<Rightarrow> int) \<Rightarrow> 'c Slice \<Rightarrow> 'c Slice res" where
  "initMasterDCBalancer intn s =
     andThen (round_robin intn (s_MasterDCSlaveWeights s)) (\<lambda>q. Ok (s\<lparr>s_MasterDCLastSlaveIndex := 0, s_MasterDCRoundRobinQ := q\<rparr>))"

definition initBalancer :: "(int \<Rightarrow> nat \<Rightarrow> int) \<Rightarrow> 'c Slice \<Rightarrow> 'c Slice res" where
  "initBalancer intn s =
     andThen (round_robin intn (s_SlaveWeights s)) (\<lambda>q. Ok (s\<lparr>s_LastSlaveIndex := 0, s_RoundRobinQ := q\<rparr>))"

definition initStatisticSlaveBalancer :: "(int \<Rightarrow> nat \<Rightarrow> int) \<Rightarrow> 'c Slice \<Rightarrow> 'c Slice res" where
  "initStatisticSlaveBalancer intn s =
     andThen (round_robin intn (s_StatisticSlaveWeights s)) (\<lambda>q.
       Ok (s\<lparr>s_LastStatisticSlaveIndex := 0, s_StatisticSlaveRoundRobinQ := q\<rparr>))"

text \<open>The next slave; the slice that is left, also with an error.\<close>

definition getNextSlave :: "'c Slice \<Rightarrow> 'c Slice \<times> 'c ConnectionPool res" where
  "getNextSlave s =
     (let q = s_RoundRobinQ s; queueLen = int (length q)
      in if queueLen = 0 then (s, Err ErrNoDatabase)
         else if queueLen = 1 then (s, andThen (at q 0) (at (s_Slave s)))
         else let s = s\<lparr>s_LastSlaveIndex := s_LastSlaveIndex s smod queueLen\<rparr>
              in case at q (s_LastSlaveIndex s) of
                   Ok index \<Rightarrow>
                     if int (length (s_Slave s)) \<le> index then (s, Err ErrNoDatabase)
                     else (case at (s_Slave s) index of
                             Ok cp \<Rightarrow> (s\<lparr>s_LastSlaveIndex := i64 (s_LastSlaveIndex s + 1) smod queueLen\<rparr>, Ok cp)
                           | e \<Rightarrow> (s, e))
                 | Err er \<Rightarrow> (s, Err er) | Panic x \<Rightarrow> (s, Panic x))"

definition getNextMasterDCSlave :: "'c Slice \<Rightarrow> 'c Slice \<times> 'c ConnectionPool res" where
  "getNextMasterDCSlave s =
     (let q = s_MasterDCRoundRobinQ s; queueLen = int (length q)
      in if queueLen = 0 then (s, Err ErrNoDatabase)
         else if queueLen = 1 then (s, andThen (at q 0) (at (s_MasterDCSlave s)))
         else let s = s\<lparr>s_MasterDCLastSlaveIndex := s_MasterDCLastSlaveIndex s smod queueLen\<rparr>
              in case at q (s_MasterDCLastSlaveIndex s) of
                   Ok index \<Rightarrow>
                     if int (length (s_MasterDCSlave s)) \<le> index then (s, Err ErrNoDatabase)
                     else (case at (s_MasterDCSlave s) index of
                             Ok cp \<Rightarrow> (s\<lparr>s_MasterDCLastSlaveIndex := i64 (s_MasterDCLastSlaveIndex s + 1) smod queueLen\<rparr>, Ok cp)
                           | e \<Rightarrow> (s, e))
                 | Err er \<Rightarrow> (s, Err er) | Panic x \<Rightarrow> (s, Panic x))"

text \<open>The cursor of the other slaves is assigned, as in the source.\<close>

definition getNextStatisticSlave :: "'c Slice \<Rightarrow> 'c Slice \<times> 'c ConnectionPool res" where
  "getNextStatisticSlave s =
     (let q = s_StatisticSlaveRoundRobinQ s; queueLen = int (length q)
      in if queueLen = 0 then (s, Err ErrNoDatabase)
         else if queueLen = 1 then (s, andThen (at q 0) (at (s_StatisticSlave s)))
         else let s = s\<lparr>s_LastSlaveIndex := s_LastStatisticSlaveIndex s smod queueLen\<rparr>
              in case at q (s_LastStatisticSlaveIndex s) of
                   Ok index \<Rightarrow>
                     if int (length (s_StatisticSlave s)) \<le> index then (s, Err ErrNoDatabase)
                     else (case at (s_StatisticSlave s) index of
                             Ok cp \<Rightarrow> (s\<lparr>s_LastStatisticSlaveIndex := i64 (s_LastStatisticSlaveIndex s + 1) smod queueLen\<rparr>, Ok cp)
                           | e \<Rightarrow> (s, e))
                 | Err er \<Rightarrow> (s, Err er) | Panic x \<Rightarrow> (s, Panic x))"

section \<open>Connections of a slice\<close>

text \<open>\<open>get\<close>: the outcome of \<^verbatim>\<open>Get\<close> on a connection pool.\<close>

definition MasterFlag :: int where "MasterFlag = 1"
definition SlaveFlag :: int where "SlaveFlag = 2"
definition MasterDCFlag :: int where "MasterDCFlag = 4"
definition StatisticUser :: int where "StatisticUser = 1"

definition GetMasterConn :: "('c ConnectionPool \<Rightarrow> 'c res) \<Rightarrow> 'c Slice \<Rightarrow> 'c res" where
  "GetMasterConn get s = (case s_Master s of None \<Rightarrow> Panic PNil | Some cp \<Rightarrow> get cp)"

definition GetMasterDCSlaveConn :: "('c ConnectionPool \<Rightarrow> 'c res) \<Rightarrow> 'c Slice \<Rightarrow> 'c Slice \<times> 'c res" where
  "GetMasterDCSlaveConn get s = (case getNextMasterDCSlave s of (s, r) \<Rightarrow> (s, andThen r get))"

definition GetSlaveConn :: "('c ConnectionPool \<Rightarrow> 'c res) \<Rightarrow> 'c Slice \<Rightarrow> 'c Slice \<times> 'c res" where
  "GetSlaveConn get s = (case getNextSlave s of (s, r) \<Rightarrow> (s, andThen r get))"

definition GetStatisticSlaveConn :: "('c ConnectionPool \<Rightarrow> 'c res) \<Rightarrow> 'c Slice \<Rightarrow> 'c Slice \<times> 'c res" where
  "GetStatisticSlaveConn get s = (case getNextStatisticSlave s of (s, r) \<Rightarrow> (s, andThen r get))"

definition GetConn :: "('c ConnectionPool \<Rightarrow> 'c res) \<Rightarrow> 'c Slice \<Rightarrow> int \<Rightarrow> int \<Rightarrow> 'c Slice \<times> 'c res" where
  "GetConn get s executeFlag userType =
     (if and SlaveFlag executeFlag = SlaveFlag
      then if userType = StatisticUser then GetStatisticSlaveConn get s
           else (case GetSlaveConn get s of
                   (s, Err er) \<Rightarrow> (s, GetMasterConn get s)
                 | sr \<Rightarrow> sr)
      else if and MasterDCFlag executeFlag = MasterDCFlag then GetMasterDCSlaveConn get s
      else (s, GetMasterConn get s))"

text \<open>The pools that \<^verbatim>\<open>Close\<close> closes.\<close>

definition Slice_Close :: "'c Slice \<Rightarrow> 'c ConnectionPool list res" where
  "Slice_Close s = (case s_Master s of None \<Rightarrow> Panic PNil | Some cp \<Rightarrow> Ok (cp # s_Slave s @ s_StatisticSlave s))"

section \<open>Construction\<close>

text \<open>\<^verbatim>\<open>time.ParseDuration\<close> of a whole number of seconds, in nanoseconds.\<close>

definition Int2TimeDuration :: "int \<Rightarrow> int res" where
  "Int2TimeDuration t = (if \<bar>t\<bar> * 10 ^ 9 < 2 ^ 63 then Ok (t * 10 ^ 9) else Err (ErrMsg ''time: invalid duration''))"

definition open_pool :: "'c Slice \<Rightarrow> string \<Rightarrow> 'c ConnectionPool res" where
  "open_pool s addr =
     andThen (Int2TimeDuration (sl_IdleTimeout (s_Cfg s))) (\<lambda>idleTimeout.
       cp_Open (NewConnectionPool addr (sl_UserName (s_Cfg s)) (sl_Password (s_Cfg s)) [] (sl_Capacity (s_Cfg s)) (sl_MaxCapacity (s_Cfg s))
         idleTimeout (s_charset s) (s_collationID s)))"

definition ParseMaster :: "'c Slice \<Rightarrow> string \<Rightarrow> 'c Slice res" where
  "ParseMaster s masterStr =
     (if masterStr = [] then Err ErrNoMasterDB else andThen (open_pool s masterStr) (\<lambda>cp. Ok (s\<lparr>s_Master := Some cp\<rparr>)))"

definition addr_weight :: "string \<Rightarrow> (string \<times> int) res" where
  "addr_weight slave =
     (case split_on (CHR ''@'') slave of
        [a, w] \<Rightarrow> andThen (atoi w) (\<lambda>weight. Ok (a, weight))
      | a # _ \<Rightarrow> Ok (a, 1) | [] \<Rightarrow> Panic PIndex)"

fun masterDC_loop :: "'c Slice \<Rightarrow> string list \<Rightarrow> 'c Slice res" where
  "masterDC_loop s [] = Ok s"
| "masterDC_loop s (slave # slaves) =
     andThen (addr_weight slave) (\<lambda>(addr, weight).
       let s = s\<lparr>s_MasterDCSlaveWeights := s_SlaveWeights s @ [weight]\<rparr>
       in andThen (open_pool s addr) (\<lambda>cp. masterDC_loop (s\<lparr>s_MasterDCSlave := s_MasterDCSlave s @ [cp]\<rparr>) slaves))"

definition ParseMasterDCSlave :: "(int \<Rightarrow> nat \<Rightarrow> int) \<Rightarrow> 'c Slice \<Rightarrow> string list \<Rightarrow> 'c Slice res" where
  "ParseMasterDCSlave intn s slaves =
     (if slaves = [] then Ok s
      else andThen (masterDC_loop (s\<lparr>s_MasterDCSlave := [], s_MasterDCSlaveWeights := []\<rparr>) slaves) (initMasterDCBalancer intn))"

fun slave_loop :: "'c Slice \<Rightarrow> string list \<Rightarrow> 'c Slice res" where
  "slave_loop s [] = Ok s"
| "slave_loop s (slave # slaves) =
     andThen (addr_weight slave) (\<lambda>(addr, weight).
       let s = s\<lparr>s_SlaveWeights := s_SlaveWeights s @ [weight]\<rparr>
       in andThen (open_pool s addr) (\<lambda>cp. slave_loop (s\<lparr>s_Slave := s_Slave s @ [cp]\<rparr>) slaves))"

definition ParseSlave :: "(int \<Rightarrow> nat \<Rightarrow> int) \<Rightarrow> 'c Slice \<Rightarrow> string list \<Rightarrow> 'c Slice res" where
  "ParseSlave intn s slaves =
     (if slaves = [] then Ok s
      else andThen (slave_loop (s\<lparr>s_Slave := [], s_SlaveWeights := []\<rparr>) slaves) (initBalancer intn))"

fun statistic_loop :: "'c Slice \<Rightarrow> string list \<Rightarrow> 'c Slice res" where
  "statistic_loop s [] = Ok s"
| "statistic_loop s (slave # slaves) =
     andThen (addr_weight slave) (\<lambda>(addr, weight).
       let s = s\<lparr>s_StatisticSlaveWeights := s_StatisticSlaveWeights s @ [weight]\<rparr>
       in andThen (open_pool s addr) (\<lambda>cp. statistic_loop (s\<lparr>s_StatisticSlave := s_StatisticSlave s @ [cp]\<rparr>) slaves))"

definition ParseStatisticSlave :: "(int \<Rightarrow> nat \<Rightarrow> int) \<Rightarrow> 'c Slice \<Rightarrow> string list \<Rightarrow> 'c Slice res" where
  "ParseStatisticSlave intn s slaves =
     (if slaves = [] then Ok s
      else andThen (statistic_loop (s\<lparr>s_StatisticSlave := [], s_StatisticSlaveWeights := []\<rparr>) slaves) (initStatisticSlaveBalancer intn))"

definition new_slice :: "SliceCfg \<Rightarrow> string \<Rightarrow> int \<Rightarrow> 'c Slice" where
  "new_slice cfg charset collationID =
     \<lparr>s_Cfg = cfg, s_Master = None, s_MasterDCSlave = [], s_MasterDCSlaveWeights = [], s_MasterDCLastSlaveIndex = 0,
      s_MasterDCRoundRobinQ = [], s_Slave = [], s_LastSlaveIndex = 0, s_RoundRobinQ = [], s_SlaveWeights = [], s_StatisticSlave = [],
      s_LastStatisticSlaveIndex = 0, s_StatisticSlaveRoundRobinQ = [], s_StatisticSlaveWeights = [], s_charset = charset,
      s_collationID = collationID\<rparr>"

definition parseSlice :: "(int \<Rightarrow> nat \<Rightarrow> int) \<Rightarrow> SliceCfg \<Rightarrow> string \<Rightarrow> int \<Rightarrow> bool \<Rightarrow> bool \<Rightarrow> 'c Slice res" where
  "parseSlice intn cfg charset collationID masterDC forceMaster =
     andThen (ParseMaster (new_slice cfg charset collationID) (sl_Master cfg)) (\<lambda>s.
     andThen (ParseMasterDCSlave intn s (sl_Slaves cfg)) (\<lambda>s.
     andThen (ParseSlave intn s (if masterDC \<or> forceMaster then sl_Slaves cfg else sl_SlaveDCSlaves cfg)) (\<lambda>s.
       ParseStatisticSlave intn s (sl_StatisticSlaves cfg))))"

fun parseSlices ::
  "(int \<Rightarrow> nat \<Rightarrow> int) \<Rightarrow> SliceCfg list \<Rightarrow> string \<Rightarrow> int \<Rightarrow> bool \<Rightarrow> bool \<Rightarrow> (string \<times> 'c Slice) list \<Rightarrow> (string \<times> 'c Slice) list res" where
  "parseSlices intn [] charset collationID masterDC forceMaster slices = Ok slices"
| "parseSlices intn (v # vs) charset collationID masterDC forceMaster slices =
     (let v = v\<lparr>sl_Name := trimSpace (sl_Name v)\<rparr>
      in if map_of slices (sl_Name v) \<noteq> None then Err (ErrMsg ''duplicate slice'')
         else andThen (parseSlice intn v charset collationID masterDC forceMaster) (\<lambda>s.
           parseSlices intn vs charset collationID masterDC forceMaster (slices @ [(sl_Name v, s)])))"

end
