(* ===== verification/Slice_Props.thy ===== *)
theory Slice_Props
  imports Slices
begin

text \<open>
  Load balancing: the weights are reduced by their greatest common divisor, and the slaves are chosen in turn, each as
  often as its weight says.
\<close>

section \<open>The greatest common divisor\<close>

lemma smod_zero: "(x :: int) smod m = 0 \<longleftrightarrow> m dvd x"
  by (auto simp: signed_modulo_int_def sgn_0_0 dvd_eq_mod_eq_0 [symmetric])

lemma smod_pos: "0 \<le> a \<Longrightarrow> 0 < b \<Longrightarrow> a smod b = a mod b" for a b :: int
  by (cases "a = 0") (simp_all add: signed_modulo_int_def)

lemma gcd_loop_Gcd:
  assumes "1 \<le> m" "in_i64 m" "Gcd (set ary) \<le> m" "ary \<noteq> []" "\<forall>x \<in> set ary. 0 < x"
  shows "gcd_loop ary m = Ok (Gcd (set ary))"
  using assms
proof (induction ary m rule: gcd_loop.induct)
  case (1 ary m)
  let ?g = "Gcd (set ary)"
  have "?g \<noteq> 0" using 1(5,6) by (cases ary) auto
  then have g: "0 < ?g" using Gcd_int_greater_eq_0 [of "set ary"] by linarith
  show ?case
  proof (cases "list_all (\<lambda>x. x smod m = 0) ary")
    case True
    then have "m dvd ?g" by (auto simp: list_all_iff smod_zero intro: Gcd_greatest)
    then have "m = ?g" using g zdvd_imp_le [of m ?g] 1(4) by simp
    then show ?thesis using \<open>?g \<noteq> 0\<close> True by (subst gcd_loop.simps) simp
  next
    case False
    have "m \<noteq> ?g" using False by (auto simp: list_all_iff smod_zero)
    then have m: "?g \<le> m - 1" "i64 (m - 1) = m - 1" "in_i64 (m - 1)" using 1(3,4) g i64_id [of "m - 1"] by (auto simp: in_i64_bounds)
    then have "gcd_loop ary (i64 (m - 1)) = Ok ?g" using 1 False g by auto
    then show ?thesis using 1(2) False m g by (subst gcd_loop.simps) simp
  qed
qed

lemma fold_min: "fold min (a # xs) a = Min (set (a # xs))" for a :: int
  by (simp only: Min.set_eq_fold fold.simps comp_def min.idem)

lemma gcd_weights_ok:
  assumes "ary \<noteq> []" "\<forall>x \<in> set ary. 0 < x \<and> in_i64 x"
  shows "gcd_weights ary = Ok (Gcd (set ary))"
proof -
  obtain a xs where a: "ary = a # xs" using assms(1) by (cases ary) auto
  have f: "fold min ary a = Min (set ary)" unfolding a by (rule fold_min)
  then have m: "fold min ary a \<in> set ary" using assms(1) by simp
  then have "Gcd (set ary) \<le> fold min ary a" using assms(2) zdvd_imp_le [OF Gcd_dvd [OF m]] by simp
  then have "gcd_loop ary (fold min ary a) = Ok (Gcd (set ary))" using m assms by (intro gcd_loop_Gcd) auto
  then show ?thesis using a by (simp add: gcd_weights_def)
qed

text \<open>
  C14: the loop of \<^verbatim>\<open>gcd\<close> ends and gives the greatest common divisor of the weights, if all of them are positive; it
  panics if one of them is zero and none is negative.
\<close>

theorem gcd_weights_Gcd:
  assumes "ary \<noteq> []" "\<forall>x \<in> set ary. 0 \<le> x \<and> in_i64 x"
  shows "gcd_weights ary = (if 0 \<in> set ary then Panic PDivZero else Ok (Gcd (set ary)))"
proof (cases "0 \<in> set ary")
  case True
  obtain a xs where a: "ary = a # xs" using assms(1) by (cases ary) auto
  have "Min (set ary) = 0" using True assms by (intro Min_eqI) auto
  then have "fold min ary a = 0" using fold_min [of a xs] a by simp
  then show ?thesis using a True by (simp add: gcd_weights_def)
next
  case False
  then have "0 < x" if "x \<in> set ary" for x using assms(2) that by (cases "x = 0") force+
  then show ?thesis using gcd_weights_ok [OF assms(1)] assms(2) False by simp
qed

theorem gcd_weights_Gcd_witness: "gcd_weights [4, 6, 10] = Ok 2 \<and> gcd_weights [4, 0] = Panic PDivZero"
proof -
  have "gcd_weights [4, 6, 10] = (if 0 \<in> set [4, 6, 10 :: int] then Panic PDivZero else Ok (Gcd (set [4, 6, 10])))"
    "gcd_weights [4, 0] = (if 0 \<in> set [4, 0 :: int] then Panic PDivZero else Ok (Gcd (set [4, 0])))"
    by (rule gcd_weights_Gcd; simp add: in_i64_bounds)+
  then show ?thesis by (simp add: gcd_non_0_int)
qed

section \<open>The round robin queue\<close>

fun queue :: "int \<Rightarrow> int \<Rightarrow> int list \<Rightarrow> int list" where
  "queue g i [] = []"
| "queue g i (w # ws) = replicate (nat (w div g)) i @ queue g (i + 1) ws"

lemma div_bounds: "0 < g \<Longrightarrow> 0 < w \<Longrightarrow> 0 \<le> w div g \<and> w div g \<le> w" for w :: int
  using zdiv_mono2 [of w 1 g] by (simp add: pos_imp_zdiv_nonneg_iff)

lemma member_le_sum: "w \<in> set ws \<Longrightarrow> \<forall>w \<in> set ws. 0 < w \<Longrightarrow> w \<le> sum_list ws" for w :: int
proof (induction ws)
  case (Cons v ws)
  have "0 \<le> sum_list ws" using Cons.prems by (intro sum_list_nonneg) auto
  then show ?case using Cons by force
qed simp

lemma go_div_pos: "0 < g \<Longrightarrow> 0 < w \<Longrightarrow> in_i64 w \<Longrightarrow> go_div w g = Ok (w div g)"
proof -
  assume a: "0 < g" "0 < w" "in_i64 w"
  have d: "w sdiv g = w div g" using a by (simp add: signed_divide_int_def)
  have "in_i64 (w div g)" using a(3) div_bounds [OF a(1,2)] by (simp add: in_i64_bounds)
  then show ?thesis using a(1) d by (simp add: go_div_def i64_id)
qed

lemma shares_queue:
  "0 < g \<Longrightarrow> \<forall>w \<in> set ws. 0 < w \<and> in_i64 w \<Longrightarrow> shares g i ws = Ok (queue g i ws)"
  by (induction ws arbitrary: i) (auto simp: go_div_pos)

lemma queue_length:
  "0 < g \<Longrightarrow> \<forall>w \<in> set ws. 0 < w \<Longrightarrow> int (length (queue g i ws)) = (\<Sum>w \<leftarrow> ws. w div g)"
  by (induction ws arbitrary: i) (auto simp: pos_imp_zdiv_nonneg_iff)

lemma sum_shares_sum:
  assumes "0 < g" "\<forall>w \<in> set ws. 0 < w" "0 \<le> n" "n + sum_list ws < 2 ^ 63"
  shows "sum_shares g n ws = Ok (n + (\<Sum>w \<leftarrow> ws. w div g))"
  using assms(2-4)
proof (induction ws arbitrary: n)
  case (Cons w ws)
  have s: "0 \<le> sum_list ws" using Cons.prems by (intro sum_list_nonneg) auto
  then have w: "0 < w" "in_i64 w" using Cons.prems by (auto simp: in_i64_bounds)
  have d: "0 \<le> w div g" "w div g \<le> w" using div_bounds [OF assms(1) w(1)] by simp_all
  then have "i64 (n + w div g) = n + w div g" using Cons.prems s by (intro i64_id) (simp add: in_i64_bounds)
  then show ?case using Cons.IH [of "n + w div g"] Cons.prems d go_div_pos [OF assms(1) w] by simp
qed simp

text \<open>The documented law of \<^verbatim>\<open>rand.Intn\<close>.\<close>

definition intn_ok :: "(int \<Rightarrow> nat \<Rightarrow> int) \<Rightarrow> bool" where
  "intn_ok intn \<longleftrightarrow> (\<forall>n i. 0 < n \<longrightarrow> 0 \<le> intn n i \<and> intn n i < n)"

lemma shuffle_mset:
  assumes "intn_ok intn" "int (length q) = cnt" "0 < cnt"
  shows "\<exists>q'. shuffle intn cnt i n q = Ok q' \<and> mset q' = mset q"
  using assms(2)
proof (induction n arbitrary: i q)
  case (Suc n)
  define x where "x = intn cnt i"
  have x: "0 \<le> x" "x < cnt" using assms(1,3) by (simp_all add: intn_ok_def x_def)
  have o: "cnt smod (x + 1) = cnt mod (x + 1)" using x assms(3) by (simp add: smod_pos)
  define y where "y = cnt mod (x + 1)"
  have y: "0 \<le> y" "y < cnt" using x pos_mod_bound [of "x + 1" cnt] by (simp_all add: y_def)
  let ?q = "q[nat x := q ! nat y, nat y := q ! nat x]"
  have "mset ?q = mset q" using x y Suc.prems by (intro mset_swap) auto
  moreover obtain q' where "shuffle intn cnt (Suc i) n ?q = Ok q'" "mset q' = mset ?q" using Suc.IH [of ?q] Suc.prems by auto
  ultimately show ?case using x y o Suc.prems by (auto simp: go_mod_def x_def [symmetric] y_def [symmetric])
qed simp

lemma round_robin_queue:
  assumes "intn_ok intn" "ws \<noteq> []" "\<forall>w \<in> set ws. 0 < w" "sum_list ws < 2 ^ 63"
  shows "\<exists>q. round_robin intn ws = Ok q \<and> mset q = mset (queue (Gcd (set ws)) 0 ws) \<and>
    int (length q) = (\<Sum>w \<leftarrow> ws. w div Gcd (set ws)) \<and> 0 < length q \<and> length q < 2 ^ 63"
proof -
  let ?g = "Gcd (set ws)" and ?q = "queue (Gcd (set ws)) 0 ws"
  have i: "in_i64 w" if "w \<in> set ws" for w
    using member_le_sum [OF that assms(3)] assms(3,4) that by (force simp: in_i64_bounds)
  have "?g \<noteq> 0" using assms(2,3) by (cases ws) auto
  then have g: "0 < ?g" using Gcd_int_greater_eq_0 [of "set ws"] by linarith
  have a: "gcd_weights ws = Ok ?g" using i assms(2,3) by (intro gcd_weights_ok) auto
  have b: "sum_shares ?g 0 ws = Ok (\<Sum>w \<leftarrow> ws. w div ?g)" using sum_shares_sum [OF g assms(3), of 0] assms(4) by simp
  have c: "shares ?g 0 ws = Ok ?q" using shares_queue [OF g] i assms(3) by blast
  have l: "int (length ?q) = (\<Sum>w \<leftarrow> ws. w div ?g)" by (rule queue_length [OF g assms(3)])
  have "0 < hd ws div ?g" "0 < hd ws"
    using assms(2,3) zdvd_imp_le [OF Gcd_dvd [of "hd ws" "set ws"]] g by (simp_all add: pos_imp_zdiv_pos_iff)
  moreover have "hd ws div ?g \<le> (\<Sum>w \<leftarrow> ws. w div ?g)"
  proof -
    have "0 \<le> (\<Sum>w \<leftarrow> tl ws. w div ?g)" using assms(2,3) div_bounds [OF g] by (intro sum_list_nonneg) (auto dest: list.set_sel(2))
    then show ?thesis using assms(2) by (cases ws) auto
  qed
  ultimately have p: "0 < (\<Sum>w \<leftarrow> ws. w div ?g)" by linarith
  obtain q' where "shuffle intn (\<Sum>w \<leftarrow> ws. w div ?g) 0 (nat (\<Sum>w \<leftarrow> ws. w div ?g)) ?q = Ok q'" "mset q' = mset ?q"
    using shuffle_mset [OF assms(1) l p] by blast
  then obtain q where q: "round_robin intn ws = Ok q" "mset q = mset ?q"
    using a b c p by (cases "1 < length ws") (auto simp: round_robin_def)
  have "(\<Sum>w \<leftarrow> ws. w div ?g) \<le> sum_list (map id ws)" using assms(3) div_bounds [OF g] by (intro sum_list_mono) auto
  then show ?thesis using q p l assms(4) mset_eq_length [OF q(2)] by auto
qed

section \<open>Choosing slaves in turn\<close>

fun next_slaves :: "nat \<Rightarrow> 'c Slice \<Rightarrow> ('c ConnectionPool list \<times> 'c Slice) res" where
  "next_slaves 0 s = Ok ([], s)"
| "next_slaves (Suc n) s =
     (case getNextSlave s of (s, r) \<Rightarrow>
        andThen r (\<lambda>cp. andThen (next_slaves n s) (\<lambda>(cps, s). Ok (cp # cps, s))))"

definition ring :: "'c Slice \<Rightarrow> bool" where
  "ring s \<longleftrightarrow> s_RoundRobinQ s \<noteq> [] \<and> list_all (\<lambda>i. 0 \<le> i \<and> i < int (length (s_Slave s))) (s_RoundRobinQ s) \<and>
     0 \<le> s_LastSlaveIndex s \<and> s_LastSlaveIndex s < int (length (s_RoundRobinQ s)) \<and> length (s_RoundRobinQ s) < 2 ^ 63"

text \<open>The slave that is \<open>i\<close> calls ahead.\<close>

definition ahead :: "'c Slice \<Rightarrow> nat \<Rightarrow> 'c ConnectionPool" where
  "ahead s i = s_Slave s ! nat (s_RoundRobinQ s ! ((nat (s_LastSlaveIndex s) + i) mod length (s_RoundRobinQ s)))"

lemma getNextSlave_ring:
  assumes "ring s"
  shows "\<exists>s'. getNextSlave s = (s', Ok (ahead s 0)) \<and> ring s' \<and> s_RoundRobinQ s' = s_RoundRobinQ s \<and> s_Slave s' = s_Slave s \<and>
    nat (s_LastSlaveIndex s') = (nat (s_LastSlaveIndex s) + 1) mod length (s_RoundRobinQ s)"
proof -
  let ?q = "s_RoundRobinQ s" and ?c = "s_LastSlaveIndex s" and ?n = "int (length (s_RoundRobinQ s))"
  have r: "?q \<noteq> []" "0 \<le> ?c" "?c < ?n" "?n < 2 ^ 63" "\<And>i. i < length ?q \<Longrightarrow> 0 \<le> ?q ! i \<and> ?q ! i < int (length (s_Slave s))"
    using assms by (auto simp: ring_def list_all_length)
  show ?thesis
  proof (cases "?n = 1")
    case True
    then have "?c = 0" "0 \<le> ?q ! 0" "?q ! 0 < int (length (s_Slave s))" using r(2,3) r(5) [of 0] by auto
    then have "getNextSlave s = (s, Ok (ahead s 0))" using True r(1) by (simp add: getNextSlave_def ahead_def Let_def)
    then show ?thesis using True assms \<open>?c = 0\<close> by auto
  next
    case False
    have i: "0 \<le> ?q ! nat ?c" "?q ! nat ?c < int (length (s_Slave s))" using r(2,3) r(5) [of "nat ?c"] by auto
    have m: "?c smod ?n = ?c" "i64 (?c + 1) smod ?n = (?c + 1) mod ?n" "nat ?c mod length ?q = nat ?c"
      using r(1-4) i64_id [of "?c + 1"] smod_pos [of _ ?n] by (auto simp: in_i64_bounds)
    have "nat ((?c + 1) mod ?n) = (nat ?c + 1) mod length ?q" using r(2) by (simp add: nat_mod_distrib nat_add_distrib)
    moreover have "0 \<le> (?c + 1) mod ?n" "(?c + 1) mod ?n < ?n" using r(1) by simp_all
    ultimately show ?thesis using False r(1-3) i m assms by (auto simp: getNextSlave_def ahead_def Let_def ring_def)
  qed
qed

lemma next_slaves_ring:
  "ring s \<Longrightarrow> \<exists>s'. next_slaves n s = Ok (map (ahead s) [0..<n], s') \<and> ring s' \<and> s_RoundRobinQ s' = s_RoundRobinQ s \<and> s_Slave s' = s_Slave s"
proof (induction n arbitrary: s)
  case (Suc n)
  obtain s1 where s1: "getNextSlave s = (s1, Ok (ahead s 0))" "ring s1" "s_RoundRobinQ s1 = s_RoundRobinQ s" "s_Slave s1 = s_Slave s"
    "nat (s_LastSlaveIndex s1) = (nat (s_LastSlaveIndex s) + 1) mod length (s_RoundRobinQ s)"
    using getNextSlave_ring [OF Suc.prems] by blast
  have "ahead s1 i = ahead s (Suc i)" for i by (simp add: ahead_def s1 mod_add_left_eq)
  then have "ahead s 0 # map (ahead s1) [0..<n] = map (ahead s) [0..<Suc n]"
    by (simp add: upt_conv_Cons map_Suc_upt [symmetric] comp_def del: upt_Suc)
  then show ?case using Suc.IH [OF s1(2)] s1 by (auto simp del: upt_Suc)
qed simp

lemma mset_rotate1: "mset (rotate1 xs) = mset xs"
  by (cases xs) auto

lemma mset_rotate: "mset (rotate n xs) = mset xs"
  by (induction n) (simp_all add: mset_rotate1)

lemma full_turn:
  assumes "ring s"
  shows "mset (map (ahead s) [0..<length (s_RoundRobinQ s)]) = mset (map (\<lambda>i. s_Slave s ! nat i) (s_RoundRobinQ s))"
proof -
  have "map (ahead s) [0..<length (s_RoundRobinQ s)] = map (\<lambda>i. s_Slave s ! nat i) (rotate (nat (s_LastSlaveIndex s)) (s_RoundRobinQ s))"
    by (rule nth_equalityI) (auto simp: ahead_def nth_rotate)
  then show ?thesis by (simp add: mset_rotate)
qed

section \<open>Slaves from the configuration\<close>

definition pool_cfg_ok :: "SliceCfg \<Rightarrow> bool" where
  "pool_cfg_ok cfg \<longleftrightarrow> 0 < sl_Capacity cfg \<and> sl_Capacity cfg \<le> sl_MaxCapacity cfg \<and> \<bar>sl_IdleTimeout cfg\<bar> * 10 ^ 9 < 2 ^ 63"

lemma open_pool_ok: "pool_cfg_ok (s_Cfg s) \<Longrightarrow> \<exists>cp. open_pool s a = Ok cp"
  by (auto simp: pool_cfg_ok_def open_pool_def Int2TimeDuration_def cp_Open_def NewConnectionPool_def NewResourcePool_def Let_def)

lemma open_pool_same [simp]:
  "open_pool (s\<lparr>s_SlaveWeights := x\<rparr>) a = open_pool s a" "open_pool (s\<lparr>s_Slave := y\<rparr>) a = open_pool s a"
  by (simp_all add: open_pool_def)

lemma slave_loop_ok:
  assumes "pool_cfg_ok (s_Cfg s)" "list_all2 (\<lambda>slave aw. addr_weight slave = Ok aw) slaves aws"
  shows "\<exists>cps. slave_loop s slaves = Ok (s\<lparr>s_SlaveWeights := s_SlaveWeights s @ map snd aws, s_Slave := s_Slave s @ cps\<rparr>) \<and>
    list_all2 (\<lambda>aw cp. open_pool s (fst aw) = Ok cp) aws cps"
  using assms(2,1)
proof (induction slaves aws arbitrary: s rule: list_all2_induct)
  case (Cons slave slaves aw aws)
  obtain a w where aw: "aw = (a, w)" by fastforce
  obtain cp where cp: "open_pool s a = Ok cp" using open_pool_ok [OF Cons.prems] by blast
  let ?s = "s\<lparr>s_SlaveWeights := s_SlaveWeights s @ [w], s_Slave := s_Slave s @ [cp]\<rparr>"
  obtain cps where c: "slave_loop ?s slaves = Ok (?s\<lparr>s_SlaveWeights := s_SlaveWeights ?s @ map snd aws, s_Slave := s_Slave ?s @ cps\<rparr>)"
    "list_all2 (\<lambda>aw cp. open_pool ?s (fst aw) = Ok cp) aws cps"
    using Cons.IH [of ?s] Cons.prems by auto
  show ?case using Cons.hyps(1) aw cp c by (intro exI [of _ "cp # cps"]) simp
qed simp

lemma map_queue:
  assumes "length cps = length ws" "\<forall>j < length ws. f (int (i + j)) = cps ! j"
  shows "map f (queue g (int i) ws) = concat (map2 (\<lambda>w cp. replicate (nat (w div g)) cp) ws cps)"
  using assms
proof (induction ws arbitrary: i cps)
  case (Cons w ws)
  obtain cp cps' where c: "cps = cp # cps'" using Cons.prems(1) by (cases cps) auto
  have "map f (queue g (int (Suc i)) ws) = concat (map2 (\<lambda>w cp. replicate (nat (w div g)) cp) ws cps')"
  proof (rule Cons.IH)
    show "\<forall>j < length ws. f (int (Suc i + j)) = cps' ! j"
    proof (intro allI impI)
      fix j assume "j < length ws"
      then show "f (int (Suc i + j)) = cps' ! j" using Cons.prems(2) [THEN spec, of "Suc j"] c by simp
    qed
  qed (use Cons.prems(1) c in simp)
  moreover have "f (int i) = cp" using Cons.prems(2) [THEN spec, of 0] c by simp
  ultimately show ?case using c by (simp add: map_replicate add.commute)
qed simp

lemma queue_range: "j \<in> set (queue g i ws) \<Longrightarrow> i \<le> j \<and> j < i + int (length ws)"
  by (induction ws arbitrary: i) (force split: if_splits)+

text \<open>
  C13: slaves are chosen by their weights. Under a valid pool configuration, \<^verbatim>\<open>ParseSlave\<close> succeeds on
  slaves with positive weights; after any number of
  calls of \<^verbatim>\<open>getNextSlave\<close>, the next ones up to the sum of the reduced weights choose every slave as often as
  its reduced weight says, whatever the random order of the queue.
\<close>

theorem slaves_by_weight:
  assumes "intn_ok intn" "pool_cfg_ok (s_Cfg s)" "slaves \<noteq> []" "list_all2 (\<lambda>slave aw. addr_weight slave = Ok aw) slaves aws"
    and "\<forall>w \<in> set (map snd aws). 0 < w" "sum_list (map snd aws) < 2 ^ 63" "g = Gcd (set (map snd aws))" "n = nat (\<Sum>w \<leftarrow> map snd aws. w div g)"
  shows "\<exists>s'. ParseSlave intn s slaves = Ok s' \<and> list_all2 (\<lambda>aw cp. open_pool s (fst aw) = Ok cp) aws (s_Slave s') \<and>
    (\<forall>k. \<exists>before s1 chosen s2. next_slaves k s' = Ok (before, s1) \<and> next_slaves n s1 = Ok (chosen, s2) \<and>
      mset chosen = mset (concat (map2 (\<lambda>w cp. replicate (nat (w div g)) cp) (map snd aws) (s_Slave s'))))"
proof -
  let ?s0 = "s\<lparr>s_Slave := [], s_SlaveWeights := []\<rparr>" and ?ws = "map snd aws"
  obtain cps where c: "slave_loop ?s0 slaves = Ok (s\<lparr>s_SlaveWeights := ?ws, s_Slave := cps\<rparr>)"
    "list_all2 (\<lambda>aw cp. open_pool s (fst aw) = Ok cp) aws cps" using slave_loop_ok [of ?s0, OF _ assms(4)] assms(2) by auto
  have aws: "?ws \<noteq> []" using assms(3,4) by auto
  obtain q where q: "round_robin intn ?ws = Ok q" "mset q = mset (queue g 0 ?ws)" and n: "length q = n" "0 < n" "n < 2 ^ 63"
    using round_robin_queue [OF assms(1) aws assms(5,6)] assms(7,8) by (metis nat_int)
  let ?s' = "s\<lparr>s_SlaveWeights := ?ws, s_Slave := cps, s_LastSlaveIndex := 0, s_RoundRobinQ := q\<rparr>"
  have len: "length cps = length ?ws" using list_all2_lengthD [OF c(2)] by simp
  have ring: "ring ?s'" unfolding ring_def using n len queue_range mset_eq_setD [OF q(2)] by (fastforce simp: list_all_iff)
  have m: "mset (map (\<lambda>i. cps ! nat i) q) = mset (concat (map2 (\<lambda>w cp. replicate (nat (w div g)) cp) ?ws cps))"
  proof -
    have "mset (map (\<lambda>i. cps ! nat i) q) = mset (map (\<lambda>i. cps ! nat i) (queue g (int 0) ?ws))" using q(2) by (simp add: mset_map)
    also have "map (\<lambda>i. cps ! nat i) (queue g (int 0) ?ws) = concat (map2 (\<lambda>w cp. replicate (nat (w div g)) cp) ?ws cps)"
      by (rule map_queue [OF len]) auto
    finally show ?thesis .
  qed
  have turn: "\<exists>before s1 chosen s2. next_slaves k ?s' = Ok (before, s1) \<and> next_slaves n s1 = Ok (chosen, s2) \<and>
      mset chosen = mset (concat (map2 (\<lambda>w cp. replicate (nat (w div g)) cp) ?ws cps))" for k
  proof -
    obtain s1 where s1: "next_slaves k ?s' = Ok (map (ahead ?s') [0..<k], s1)" "ring s1" "s_RoundRobinQ s1 = q" "s_Slave s1 = cps"
      using next_slaves_ring [OF ring, of k] by auto
    obtain s2 where "next_slaves n s1 = Ok (map (ahead s1) [0..<n], s2)" using next_slaves_ring [OF s1(2), of n] by blast
    then show ?thesis using s1 full_turn [OF s1(2)] m n(1) by auto
  qed
  show ?thesis using assms(3) c q turn by (intro exI [of _ ?s']) (simp add: ParseSlave_def initBalancer_def)
qed

definition example_slice :: "nat Slice" where
  "example_slice = new_slice
     \<lparr>sl_Name = ''slice-0'', sl_UserName = ''u'', sl_Password = ''p'', sl_Master = ''m'', sl_Slaves = [''a@2'', ''b@4''], sl_StatisticSlaves = [],
      sl_SlaveDCMaster = [], sl_SlaveDCSlaves = [], sl_Capacity = 1, sl_MaxCapacity = 1, sl_IdleTimeout = 60\<rparr> ''utf8'' 33"

definition example_intn :: "int \<Rightarrow> nat \<Rightarrow> int" where
  "example_intn n i = int i mod n"

lemma example_intn_ok: "intn_ok example_intn"
  by (simp add: intn_ok_def example_intn_def)

theorem slaves_by_weight_witness:
  "\<exists>s' x y z s2. ParseSlave example_intn example_slice [''a@2'', ''b@4''] = Ok s' \<and> next_slaves 3 s' = Ok ([x, y, z], s2) \<and>
     mset (map cp_addr [x, y, z]) = {# ''a'', ''b'', ''b'' #}"
proof -
  let ?aws = "[(''a'', 2), (''b'', 4)] :: (string \<times> int) list"
  have p: "pool_cfg_ok (s_Cfg example_slice)" "list_all2 (\<lambda>slave aw. addr_weight slave = Ok aw) [''a@2'', ''b@4''] ?aws" by code_simp+
  have g: "Gcd (set (map snd ?aws)) = 2" "sum_list (map snd ?aws) < 2 ^ 63" by (simp_all add: gcd_non_0_int)
  have n: "nat (\<Sum>w \<leftarrow> map snd ?aws. w div 2) = 3" by simp
  obtain s' where s': "ParseSlave example_intn example_slice [''a@2'', ''b@4''] = Ok s'"
      "list_all2 (\<lambda>aw cp. open_pool example_slice (fst aw) = Ok cp) ?aws (s_Slave s')"
      "\<forall>k. \<exists>before s1 chosen s2. next_slaves k s' = Ok (before, s1) \<and> next_slaves 3 s1 = Ok (chosen, s2) \<and>
         mset chosen = mset (concat (map2 (\<lambda>w cp. replicate (nat (w div 2)) cp) (map snd ?aws) (s_Slave s')))"
    using slaves_by_weight [OF example_intn_ok p(1) _ p(2) _ g(2) g(1) [symmetric] n [symmetric]] by auto
  obtain before s1 chosen s2 where s: "ParseSlave example_intn example_slice [''a@2'', ''b@4''] = Ok s'"
      "list_all2 (\<lambda>aw cp. open_pool example_slice (fst aw) = Ok cp) ?aws (s_Slave s')"
      "next_slaves 0 s' = Ok (before, s1)" "next_slaves 3 s1 = Ok (chosen, s2)"
      "mset chosen = mset (concat (map2 (\<lambda>w cp. replicate (nat (w div 2)) cp) (map snd ?aws) (s_Slave s')))"
    using s'(1,2) s'(3) [THEN spec, of 0] by blast
  obtain a b where ab: "s_Slave s' = [a, b]" "open_pool example_slice ''a'' = Ok a" "open_pool example_slice ''b'' = Ok b"
    using s(2) by (auto simp: list_all2_Cons1)
  have "cp_addr a = ''a''" "cp_addr b = ''b''" using ab(2,3)
    by (auto simp: open_pool_def cp_Open_def NewConnectionPool_def Let_def split: if_splits)
  moreover have m: "mset chosen = {# a, b, b #}" using s(5) ab(1) by (simp add: numeral_nat)
  moreover obtain x y z where "chosen = [x, y, z]" using mset_eq_length [of chosen "[a, b, b]"] m by (auto simp: length_Suc_conv)
  ultimately have "mset (map cp_addr [x, y, z]) = {# ''a'', ''b'', ''b'' #}" using mset_map [of cp_addr chosen] by simp
  then show ?thesis using s \<open>chosen = [x, y, z]\<close> by auto
qed

section \<open>Where the slices differ from their configuration\<close>

text \<open>
  \<^verbatim>\<open>ParseMasterDCSlave\<close> appends to the weights of the other slaves, which are not parsed yet: whatever the
  configuration, the queue of the slaves in the data centre of the master has one entry, the first slave.
\<close>

lemma masterDC_loop_weights:
  "masterDC_loop s slaves = Ok s' \<Longrightarrow> s_SlaveWeights s = [] \<Longrightarrow> slaves \<noteq> [] \<or> length (s_MasterDCSlaveWeights s) = 1 \<Longrightarrow>
     length (s_MasterDCSlaveWeights s') = 1"
proof (induction slaves arbitrary: s)
  case (Cons slave slaves)
  from Cons.prems(1) obtain a w cp where "masterDC_loop (s\<lparr>s_MasterDCSlaveWeights := s_SlaveWeights s @ [w], s_MasterDCSlave := s_MasterDCSlave s @ [cp]\<rparr>) slaves = Ok s'"
    by (auto simp: Let_def)
  from Cons.IH [OF this] Cons.prems(2) show ?case by simp
qed simp

lemma round_robin_single: "round_robin intn [w] = Ok q \<Longrightarrow> q = [0]"
proof -
  assume a: "round_robin intn [w] = Ok q"
  then have w: "w \<noteq> 0" by (auto simp: round_robin_def gcd_weights_def)
  then have "gcd_weights [w] = Ok w" by (simp add: gcd_weights_def smod_zero)
  moreover have "go_div w w = Ok 1" using w by (simp add: go_div_def signed_divide_int_def i64_id in_i64_bounds sgn_mult_self_eq)
  moreover have "i64 1 = 1" by (simp add: i64_id in_i64_bounds)
  ultimately show "q = [0]" using a by (auto simp: round_robin_def)
qed

lemma slave_loop_keeps: "slave_loop s slaves = Ok s' \<Longrightarrow> s_MasterDCRoundRobinQ s' = s_MasterDCRoundRobinQ s"
proof (induction slaves arbitrary: s)
  case (Cons slave slaves)
  from Cons.prems obtain w cp where "slave_loop (s\<lparr>s_SlaveWeights := s_SlaveWeights s @ [w], s_Slave := s_Slave s @ [cp]\<rparr>) slaves = Ok s'"
    by (auto simp: Let_def)
  from Cons.IH [OF this] show ?case by simp
qed simp

lemma statistic_loop_keeps: "statistic_loop s slaves = Ok s' \<Longrightarrow> s_MasterDCRoundRobinQ s' = s_MasterDCRoundRobinQ s"
proof (induction slaves arbitrary: s)
  case (Cons slave slaves)
  from Cons.prems obtain w cp where
    "statistic_loop (s\<lparr>s_StatisticSlaveWeights := s_StatisticSlaveWeights s @ [w], s_StatisticSlave := s_StatisticSlave s @ [cp]\<rparr>) slaves = Ok s'"
    by (auto simp: Let_def)
  from Cons.IH [OF this] show ?case by simp
qed simp

lemma parse_keeps:
  "ParseSlave intn s slaves = Ok s' \<Longrightarrow> s_MasterDCRoundRobinQ s' = s_MasterDCRoundRobinQ s"
  "ParseStatisticSlave intn s slaves = Ok s' \<Longrightarrow> s_MasterDCRoundRobinQ s' = s_MasterDCRoundRobinQ s"
  by (auto simp: ParseSlave_def ParseStatisticSlave_def initBalancer_def initStatisticSlaveBalancer_def
      dest!: slave_loop_keeps statistic_loop_keeps split: if_splits)

lemma masterDC_first_slave_only:
  assumes "parseSlice intn cfg charset collationID masterDC forceMaster = Ok s" "sl_Slaves cfg \<noteq> []"
  shows "s_MasterDCRoundRobinQ s = [0]"
proof -
  from assms(1) obtain s1 s2 s4 where s: "ParseMaster (new_slice cfg charset collationID) (sl_Master cfg) = Ok s1"
    "ParseMasterDCSlave intn s1 (sl_Slaves cfg) = Ok s2"
    and l: "ParseSlave intn s2 (if masterDC \<or> forceMaster then sl_Slaves cfg else sl_SlaveDCSlaves cfg) = Ok s4"
      "ParseStatisticSlave intn s4 (sl_StatisticSlaves cfg) = Ok s"
    unfolding parseSlice_def andThen_eq_Ok by blast
  have q: "s_MasterDCRoundRobinQ s = s_MasterDCRoundRobinQ s2" using parse_keeps(1) [OF l(1)] parse_keeps(2) [OF l(2)] by simp
  have "s_SlaveWeights s1 = []" using s(1) by (auto simp: ParseMaster_def new_slice_def split: if_splits)
  moreover obtain s3 where s3: "masterDC_loop (s1\<lparr>s_MasterDCSlave := [], s_MasterDCSlaveWeights := []\<rparr>) (sl_Slaves cfg) = Ok s3"
    "initMasterDCBalancer intn s3 = Ok s2" using s(2) assms(2) by (auto simp: ParseMasterDCSlave_def)
  ultimately obtain w where "s_MasterDCSlaveWeights s3 = [w]"
    using masterDC_loop_weights [OF s3(1)] assms(2) by (auto simp: length_Suc_conv)
  then show ?thesis using s3(2) q by (auto simp: initMasterDCBalancer_def dest: round_robin_single)
qed

text \<open>\<^verbatim>\<open>getNextStatisticSlave\<close> writes the cursor of the other slaves: with statements of both kinds in turn, two of four
  slaves are never chosen.\<close>

fun in_turn :: "nat \<Rightarrow> 'c Slice \<Rightarrow> string list res" where
  "in_turn 0 s = Ok []"
| "in_turn (Suc n) s =
     (case getNextStatisticSlave s of (s, _) \<Rightarrow>
      case getNextSlave s of (s, r) \<Rightarrow> andThen r (\<lambda>cp. andThen (in_turn n s) (\<lambda>as. Ok (cp_addr cp # as))))"

definition example_pool_at :: "string \<Rightarrow> nat ConnectionPool" where
  "example_pool_at a = NewConnectionPool a [] [] [] 1 1 0 [] 0"

lemma statistic_resets_slaves:
  "in_turn 8 (example_slice\<lparr>s_Slave := map example_pool_at [''a'', ''b'', ''c'', ''d''], s_RoundRobinQ := [0, 1, 2, 3],
       s_StatisticSlave := map example_pool_at [''x'', ''y''], s_StatisticSlaveRoundRobinQ := [0, 1]\<rparr>) =
     Ok [''a'', ''b'', ''a'', ''b'', ''a'', ''b'', ''a'', ''b'']"
  by code_simp

text \<open>A configuration that passes the check, but whose capacity is above the maximum, or has no master.\<close>

lemma verified_slice_panics:
  "Slice_verify (s_Cfg example_slice\<lparr>sl_Capacity := 2\<rparr>) = Ok () \<and>
   parseSlice example_intn (s_Cfg example_slice\<lparr>sl_Capacity := 2\<rparr>) [] 0 True False = (Panic (PMsg ''invalid/out of range capacity'') :: nat Slice res)"
  by code_simp

lemma verified_slice_without_master:
  "Slice_verify (s_Cfg example_slice\<lparr>sl_Master := []\<rparr>) = Ok () \<and>
   parseSlice example_intn (s_Cfg example_slice\<lparr>sl_Master := []\<rparr>) [] 0 True False = (Err ErrNoMasterDB :: nat Slice res)"
  by code_simp

text \<open>\<^verbatim>\<open>Close\<close> leaves the pools of the slaves in the data centre of the master open.\<close>

lemma close_leaves_pools:
  "Slice_Close (s\<lparr>s_MasterDCSlave := cps\<rparr>) = Slice_Close s"
  by (simp add: Slice_Close_def split: option.splits)

end
