(* ===== verification/Lru_Cache.thy ===== *)
theory Lru_Cache
  imports Go_Base
begin

text \<open>
  The LRU cache of \<^verbatim>\<open>util/cache/lru_cache.go\<close> and that it implements a list of items, the most recently used one
  first. The elements of the doubly linked list are addresses in a store of entries, as the table and the list share
  them; \<open>sz\<close> is the method \<^verbatim>\<open>Size\<close> of the values and \<open>now\<close> the time of the call.
\<close>

section \<open>The cache\<close>

record 'v entry =
  en_key :: string
  en_value :: 'v
  en_size :: int
  en_timeAccessed :: int

record 'v LRUCache =
  lru_list :: "nat list"
  lru_store :: "nat \<Rightarrow> 'v entry option"
  lru_next :: nat
  lru_table :: "string \<Rightarrow> nat option"
  lru_size :: int
  lru_capacity :: int
  lru_evictions :: int

definition NewLRUCache :: "int \<Rightarrow> 'v LRUCache" where
  "NewLRUCache capacity =
     \<lparr>lru_list = [], lru_store = Map.empty, lru_next = 0, lru_table = Map.empty, lru_size = 0, lru_capacity = capacity, lru_evictions = 0\<rparr>"

definition entry_at :: "'v LRUCache \<Rightarrow> nat \<Rightarrow> 'v entry res" where
  "entry_at lru a = (case lru_store lru a of None \<Rightarrow> Panic PNil | Some e \<Rightarrow> Ok e)"

definition moveToFront :: "int \<Rightarrow> nat \<Rightarrow> 'v LRUCache \<Rightarrow> 'v LRUCache res" where
  "moveToFront now a lru =
     andThen (entry_at lru a) (\<lambda>e.
       Ok (lru\<lparr>lru_list := a # remove1 a (lru_list lru), lru_store := (lru_store lru)(a \<mapsto> e\<lparr>en_timeAccessed := now\<rparr>)\<rparr>))"

text \<open>The loop removes the last element of the list; on an empty list \<^verbatim>\<open>Back\<close> is nil.\<close>

function checkCapacity :: "'v LRUCache \<Rightarrow> 'v LRUCache res" where
  "checkCapacity lru =
     (if lru_size lru \<le> lru_capacity lru then Ok lru
      else if lru_list lru = [] then Panic PNil
      else andThen (entry_at lru (List.last (lru_list lru))) (\<lambda>e.
        checkCapacity (lru\<lparr>lru_list := butlast (lru_list lru), lru_table := (lru_table lru)(en_key e := None),
          lru_size := i64 (lru_size lru - en_size e), lru_evictions := i64 (lru_evictions lru + 1)\<rparr>)))"
  by pat_completeness auto
termination
  by (relation "measure (\<lambda>lru. length (lru_list lru))") auto

declare checkCapacity.simps [simp del]

definition updateInplace :: "('v \<Rightarrow> int) \<Rightarrow> int \<Rightarrow> nat \<Rightarrow> 'v \<Rightarrow> 'v LRUCache \<Rightarrow> 'v LRUCache res" where
  "updateInplace sz now a value lru =
     andThen (entry_at lru a) (\<lambda>e.
     andThen (moveToFront now a (lru\<lparr>lru_store := (lru_store lru)(a \<mapsto> e\<lparr>en_value := value, en_size := sz value\<rparr>),
         lru_size := i64 (lru_size lru + i64 (sz value - en_size e))\<rparr>)) checkCapacity)"

definition addNew :: "('v \<Rightarrow> int) \<Rightarrow> int \<Rightarrow> string \<Rightarrow> 'v \<Rightarrow> 'v LRUCache \<Rightarrow> 'v LRUCache res" where
  "addNew sz now key value lru =
     (let a = lru_next lru
      in checkCapacity (lru\<lparr>lru_list := a # lru_list lru, lru_next := Suc a,
           lru_store := (lru_store lru)(a \<mapsto> \<lparr>en_key = key, en_value = value, en_size = sz value, en_timeAccessed = now\<rparr>),
           lru_table := (lru_table lru)(key \<mapsto> a), lru_size := i64 (lru_size lru + sz value)\<rparr>))"

definition lru_Get :: "int \<Rightarrow> string \<Rightarrow> 'v LRUCache \<Rightarrow> ('v LRUCache \<times> 'v option) res" where
  "lru_Get now key lru =
     (case lru_table lru key of
        None \<Rightarrow> Ok (lru, None)
      | Some a \<Rightarrow> andThen (moveToFront now a lru) (\<lambda>lru. andThen (entry_at lru a) (\<lambda>e. Ok (lru, Some (en_value e)))))"

definition Peek :: "string \<Rightarrow> 'v LRUCache \<Rightarrow> 'v option res" where
  "Peek key lru =
     (case lru_table lru key of None \<Rightarrow> Ok None | Some a \<Rightarrow> andThen (entry_at lru a) (\<lambda>e. Ok (Some (en_value e))))"

definition lru_Set :: "('v \<Rightarrow> int) \<Rightarrow> int \<Rightarrow> string \<Rightarrow> 'v \<Rightarrow> 'v LRUCache \<Rightarrow> 'v LRUCache res" where
  "lru_Set sz now key value lru =
     (case lru_table lru key of Some a \<Rightarrow> updateInplace sz now a value lru | None \<Rightarrow> addNew sz now key value lru)"

definition SetIfAbsent :: "('v \<Rightarrow> int) \<Rightarrow> int \<Rightarrow> string \<Rightarrow> 'v \<Rightarrow> 'v LRUCache \<Rightarrow> 'v LRUCache res" where
  "SetIfAbsent sz now key value lru =
     (case lru_table lru key of Some a \<Rightarrow> moveToFront now a lru | None \<Rightarrow> addNew sz now key value lru)"

definition lru_Delete :: "string \<Rightarrow> 'v LRUCache \<Rightarrow> ('v LRUCache \<times> bool) res" where
  "lru_Delete key lru =
     (case lru_table lru key of
        None \<Rightarrow> Ok (lru, False)
      | Some a \<Rightarrow> andThen (entry_at lru a) (\<lambda>e.
          Ok (lru\<lparr>lru_list := remove1 a (lru_list lru), lru_table := (lru_table lru)(key := None),
                lru_size := i64 (lru_size lru - en_size e)\<rparr>, True)))"

definition Clear :: "'v LRUCache \<Rightarrow> 'v LRUCache" where
  "Clear lru = lru\<lparr>lru_list := [], lru_table := Map.empty, lru_size := 0\<rparr>"

definition lru_SetCapacity :: "int \<Rightarrow> 'v LRUCache \<Rightarrow> 'v LRUCache res" where
  "lru_SetCapacity capacity lru = checkCapacity (lru\<lparr>lru_capacity := capacity\<rparr>)"

definition lru_Length :: "'v LRUCache \<Rightarrow> int" where
  "lru_Length lru = int (length (lru_list lru))"

definition entries :: "'v LRUCache \<Rightarrow> 'v entry list" where
  "entries lru = map (\<lambda>a. the (lru_store lru a)) (lru_list lru)"

definition Oldest :: "'v LRUCache \<Rightarrow> int option" where
  "Oldest lru = (if lru_list lru = [] then None else Some (en_timeAccessed (List.last (entries lru))))"

definition Keys :: "'v LRUCache \<Rightarrow> string list" where
  "Keys lru = map en_key (entries lru)"

definition Items :: "'v LRUCache \<Rightarrow> (string \<times> 'v) list" where
  "Items lru = map (\<lambda>e. (en_key e, en_value e)) (entries lru)"

section \<open>Specification\<close>

text \<open>The items that are kept, from the front, within the capacity \<open>c\<close>.\<close>

fun keep :: "('v \<Rightarrow> int) \<Rightarrow> int \<Rightarrow> (string \<times> 'v) list \<Rightarrow> (string \<times> 'v) list" where
  "keep sz c [] = []"
| "keep sz c (x # xs) = (if sz (snd x) \<le> c then x # keep sz (c - sz (snd x)) xs else [])"

definition without :: "string \<Rightarrow> (string \<times> 'v) list \<Rightarrow> (string \<times> 'v) list" where
  "without k xs = filter (\<lambda>x. fst x \<noteq> k) xs"

definition used :: "string \<Rightarrow> (string \<times> 'v) list \<Rightarrow> (string \<times> 'v) list" where
  "used k xs = (case map_of xs k of None \<Rightarrow> xs | Some v \<Rightarrow> (k, v) # without k xs)"

datatype 'v cache_op =
  CGet string | CPeek string | CSet string 'v | CSetIfAbsent string 'v | CDelete string | CClear | CSetCapacity int

datatype 'v answer = AValue "'v option" | ADeleted bool | ANone

fun spec :: "('v \<Rightarrow> int) \<Rightarrow> 'v cache_op \<Rightarrow> int \<times> (string \<times> 'v) list \<Rightarrow> (int \<times> (string \<times> 'v) list) \<times> 'v answer" where
  "spec sz (CGet k) (c, xs) = ((c, used k xs), AValue (map_of xs k))"
| "spec sz (CPeek k) (c, xs) = ((c, xs), AValue (map_of xs k))"
| "spec sz (CSet k v) (c, xs) = ((c, keep sz c ((k, v) # without k xs)), ANone)"
| "spec sz (CSetIfAbsent k v) (c, xs) = ((c, if map_of xs k = None then keep sz c ((k, v) # xs) else used k xs), ANone)"
| "spec sz (CDelete k) (c, xs) = ((c, without k xs), ADeleted (map_of xs k \<noteq> None))"
| "spec sz CClear (c, xs) = ((c, []), ANone)"
| "spec sz (CSetCapacity c') (c, xs) = ((c', keep sz c' xs), ANone)"

fun impl :: "('v \<Rightarrow> int) \<Rightarrow> int \<Rightarrow> 'v cache_op \<Rightarrow> 'v LRUCache \<Rightarrow> ('v LRUCache \<times> 'v answer) res" where
  "impl sz now (CGet k) lru = andThen (lru_Get now k lru) (\<lambda>(lru, v). Ok (lru, AValue v))"
| "impl sz now (CPeek k) lru = andThen (Peek k lru) (\<lambda>v. Ok (lru, AValue v))"
| "impl sz now (CSet k v) lru = andThen (lru_Set sz now k v lru) (\<lambda>lru. Ok (lru, ANone))"
| "impl sz now (CSetIfAbsent k v) lru = andThen (SetIfAbsent sz now k v lru) (\<lambda>lru. Ok (lru, ANone))"
| "impl sz now (CDelete k) lru = andThen (lru_Delete k lru) (\<lambda>(lru, b). Ok (lru, ADeleted b))"
| "impl sz now CClear lru = Ok (Clear lru, ANone)"
| "impl sz now (CSetCapacity c) lru = andThen (lru_SetCapacity c lru) (\<lambda>lru. Ok (lru, ANone))"

section \<open>Invariant\<close>

definition total_size :: "('v \<Rightarrow> int) \<Rightarrow> (string \<times> 'v) list \<Rightarrow> int" where
  "total_size sz xs = sum_list (map (sz \<circ> snd) xs)"

definition shape :: "('v \<Rightarrow> int) \<Rightarrow> 'v LRUCache \<Rightarrow> bool" where
  "shape sz lru \<longleftrightarrow>
     distinct (lru_list lru) \<and> (\<forall>a \<in> set (lru_list lru). a < lru_next lru) \<and>
     (\<forall>a \<in> set (lru_list lru). \<exists>e. lru_store lru a = Some e \<and> en_size e = sz (en_value e) \<and> lru_table lru (en_key e) = Some a) \<and>
     (\<forall>k a. lru_table lru k = Some a \<longrightarrow> a \<in> set (lru_list lru) \<and> (\<exists>e. lru_store lru a = Some e \<and> en_key e = k)) \<and>
     lru_size lru = total_size sz (Items lru)"

lemma shape_entry: "shape sz lru \<Longrightarrow> a \<in> set (lru_list lru) \<Longrightarrow>
    \<exists>e. lru_store lru a = Some e \<and> en_size e = sz (en_value e) \<and> lru_table lru (en_key e) = Some a"
  by (auto simp: shape_def)

lemma shape_table: "shape sz lru \<Longrightarrow> lru_table lru k = Some a \<Longrightarrow> a \<in> set (lru_list lru) \<and> en_key (the (lru_store lru a)) = k"
  unfolding shape_def by (metis option.sel)

lemma shape_key: "shape sz lru \<Longrightarrow> a \<in> set (lru_list lru) \<Longrightarrow> lru_table lru (en_key (the (lru_store lru a))) = Some a"
  using shape_entry by fastforce

lemma Items_def': "Items lru = map (\<lambda>a. (en_key (the (lru_store lru a)), en_value (the (lru_store lru a)))) (lru_list lru)"
  by (simp add: Items_def entries_def)

lemma map_of_keys:
  assumes "\<forall>b \<in> set xs. f b = k \<longrightarrow> b = a" "a \<in> set xs" "f a = k"
  shows "map_of (map (\<lambda>a. (f a, g a)) xs) k = Some (g a)"
  using assms(1,2)
proof (induction xs)
  case (Cons x xs)
  show ?case
  proof (cases "f x = k")
    case True
    then have "x = a" using Cons.prems(1) [THEN bspec, of x] by simp
    then show ?thesis using True by simp
  next
    case False
    then have "a \<in> set xs" using Cons.prems(2) assms(3) by (metis set_ConsD)
    then have "map_of (map (\<lambda>a. (f a, g a)) xs) k = Some (g a)" using Cons.IH Cons.prems(1) by (meson list.set_intros(2))
    then show ?thesis using False by simp
  qed
qed simp

lemma lookup:
  assumes "shape sz lru"
  shows "map_of (Items lru) k = map_option (\<lambda>a. en_value (the (lru_store lru a))) (lru_table lru k)"
proof (cases "lru_table lru k")
  case None
  then have "k \<notin> fst ` set (Items lru)" using shape_key [OF assms] by (force simp: Items_def')
  then show ?thesis using None by (simp add: map_of_eq_None_iff)
next
  case (Some a)
  have "b = a" if "b \<in> set (lru_list lru)" "en_key (the (lru_store lru b)) = k" for b
    using shape_key [OF assms that(1)] that(2) Some by simp
  then have "\<forall>b \<in> set (lru_list lru). en_key (the (lru_store lru b)) = k \<longrightarrow> b = a" by blast
  from map_of_keys [OF this] show ?thesis using shape_table [OF assms Some] Some by (simp add: Items_def')
qed

lemma map_remove1:
  "distinct xs \<Longrightarrow> \<forall>b \<in> set xs. f b = f a \<longrightarrow> b = a \<Longrightarrow>
     map (\<lambda>b. (f b, g b)) (remove1 a xs) = without (f a) (map (\<lambda>b. (f b, g b)) xs)"
proof (induction xs)
  case (Cons x xs)
  show ?case
  proof (cases "x = a")
    case True
    then have "without (f a) (map (\<lambda>b. (f b, g b)) xs) = map (\<lambda>b. (f b, g b)) xs"
      using Cons.prems by (force simp: without_def filter_id_conv)
    then show ?thesis using True by (simp add: without_def)
  next
    case False
    then have "f x \<noteq> f a" using Cons.prems(2) by auto
    then show ?thesis using False Cons by (simp add: without_def)
  qed
qed (simp add: without_def)

lemma Items_remove:
  assumes "shape sz lru" "lru_table lru k = Some a"
  shows "map (\<lambda>b. (en_key (the (lru_store lru b)), en_value (the (lru_store lru b)))) (remove1 a (lru_list lru)) = without k (Items lru)"
proof -
  have k: "en_key (the (lru_store lru a)) = k" using shape_table [OF assms] by simp
  have "b = a" if "b \<in> set (lru_list lru)" "en_key (the (lru_store lru b)) = en_key (the (lru_store lru a))" for b
    using shape_key [OF assms(1) that(1)] that(2) k assms(2) by simp
  then have "\<forall>b \<in> set (lru_list lru). en_key (the (lru_store lru b)) = en_key (the (lru_store lru a)) \<longrightarrow> b = a" by blast
  then show ?thesis unfolding Items_def' using map_remove1 [of "lru_list lru" "\<lambda>b. en_key (the (lru_store lru b))" a] assms(1) k
    by (simp add: shape_def)
qed

lemma total_without:
  assumes "shape sz lru" "lru_table lru k = Some a"
  shows "total_size sz (Items lru) = sz (en_value (the (lru_store lru a))) + total_size sz (without k (Items lru))"
proof -
  have "a \<in> set (lru_list lru)" using shape_table [OF assms] by simp
  then have "sum_list (map f (lru_list lru)) = f a + sum_list (map f (remove1 a (lru_list lru)))" for f :: "nat \<Rightarrow> int"
    by (rule sum_list_map_remove1)
  then show ?thesis unfolding Items_remove [OF assms, symmetric] by (simp add: total_size_def Items_def' comp_def)
qed

text \<open>Moving an element to the front, with another value of the same key.\<close>

lemma front_shape:
  assumes "shape sz lru" "lru_table lru k = Some a" "en_key e = k" "en_size e = sz (en_value e)"
    and n: "n = sz (en_value e) + total_size sz (without k (Items lru))"
    and l: "lru' = lru\<lparr>lru_list := a # remove1 a (lru_list lru), lru_store := (lru_store lru)(a \<mapsto> e), lru_size := n\<rparr>"
  shows "shape sz lru' \<and> Items lru' = (k, en_value e) # without k (Items lru)"
proof -
  have d: "distinct (lru_list lru)" "a \<in> set (lru_list lru)" using assms(1) shape_table [OF assms(1,2)] by (simp_all add: shape_def)
  then have s: "set (remove1 a (lru_list lru)) = set (lru_list lru) - {a}" by (simp add: set_remove1_eq)
  have h: "set (lru_list lru') = set (lru_list lru)" using s d(2) by (auto simp: l)
  have st: "lru_store lru' b = (if b = a then Some e else lru_store lru b)" "lru_table lru' = lru_table lru" "lru_next lru' = lru_next lru" for b
    by (simp_all add: l)
  have "map (\<lambda>b. (en_key (the (lru_store lru' b)), en_value (the (lru_store lru' b)))) (remove1 a (lru_list lru)) = without k (Items lru)"
    unfolding Items_remove [OF assms(1,2), symmetric] using s by (intro map_cong refl) (simp add: st)
  then have i: "Items lru' = (k, en_value e) # without k (Items lru)" using assms(3) by (simp add: l Items_def')
  have "shape sz lru'" unfolding shape_def
  proof (intro conjI ballI allI impI)
    show "lru_size lru' = total_size sz (Items lru')" using i n by (simp add: l total_size_def)
    show "distinct (lru_list lru')" using d s by (simp add: l)
  next
    fix b assume "b \<in> set (lru_list lru')"
    then have b: "b \<in> set (lru_list lru)" using h by simp
    then show "b < lru_next lru'" using assms(1) st(3) by (simp add: shape_def)
    show "\<exists>e. lru_store lru' b = Some e \<and> en_size e = sz (en_value e) \<and> lru_table lru' (en_key e) = Some b"
      using shape_entry [OF assms(1) b] assms(2-4) by (cases "b = a") (simp_all add: st)
  next
    fix k' b assume "lru_table lru' k' = Some b"
    then have t: "lru_table lru k' = Some b" by (simp add: st)
    then show "b \<in> set (lru_list lru')" using shape_table [OF assms(1) t] h by simp
    have "\<exists>e. lru_store lru b = Some e \<and> en_key e = k'" using assms(1) t unfolding shape_def by blast
    then show "\<exists>e. lru_store lru' b = Some e \<and> en_key e = k'"
      using shape_table [OF assms(1) t] shape_table [OF assms(1,2)] assms(3) by (cases "b = a") (simp_all add: st)
  qed
  then show ?thesis using i by simp
qed

lemma entry_at_Ok: "shape sz lru \<Longrightarrow> a \<in> set (lru_list lru) \<Longrightarrow> entry_at lru a = Ok (the (lru_store lru a))"
  using shape_entry by (fastforce simp: entry_at_def)

text \<open>Taking an element out.\<close>

lemma remove_shape:
  assumes "shape sz lru" "lru_table lru k = Some a" "set xs = set (lru_list lru) - {a}" "distinct xs"
    and i: "map (\<lambda>b. (en_key (the (lru_store lru b)), en_value (the (lru_store lru b)))) xs = ys" and n: "n = total_size sz ys"
    and l: "lru' = lru\<lparr>lru_list := xs, lru_table := (lru_table lru)(k := None), lru_size := n, lru_evictions := m\<rparr>"
  shows "shape sz lru' \<and> Items lru' = ys"
proof -
  have ys: "Items lru' = ys" using i by (simp add: l Items_def')
  have "shape sz lru'" unfolding shape_def
  proof (intro conjI ballI allI impI)
    fix b assume "b \<in> set (lru_list lru')"
    then have b: "b \<in> set (lru_list lru)" "b \<noteq> a" using assms(3) by (simp_all add: l)
    obtain e where e: "lru_store lru b = Some e" "en_size e = sz (en_value e)" "lru_table lru (en_key e) = Some b"
      using shape_entry [OF assms(1) b(1)] by blast
    then have "en_key e \<noteq> k" using assms(2) b(2) by auto
    then show "\<exists>e. lru_store lru' b = Some e \<and> en_size e = sz (en_value e) \<and> lru_table lru' (en_key e) = Some b" using e by (simp add: l)
    show "b < lru_next lru'" using assms(1) b by (simp add: l shape_def)
  next
    fix k' b assume "lru_table lru' k' = Some b"
    then have t: "lru_table lru k' = Some b" "k' \<noteq> k" by (simp_all add: l split: if_splits)
    then have "b \<noteq> a" using shape_table [OF assms(1) t(1)] shape_table [OF assms(1,2)] by auto
    then show "b \<in> set (lru_list lru')" using shape_table [OF assms(1) t(1)] assms(3) by (simp add: l)
    show "\<exists>e. lru_store lru' b = Some e \<and> en_key e = k'" using assms(1) t(1) unfolding shape_def l by simp
  qed (use ys n assms(4) in \<open>simp_all add: l\<close>)
  then show ?thesis using ys by simp
qed

section \<open>Eviction\<close>

lemma total_size_nonneg: "\<forall>v. 0 \<le> sz v \<Longrightarrow> 0 \<le> total_size sz xs"
  by (induction xs) (simp_all add: total_size_def)

lemma total_size_append: "total_size sz (xs @ ys) = total_size sz xs + total_size sz ys"
  by (simp add: total_size_def)

lemma total_size_single: "total_size sz [(k, v)] = sz v"
  by (simp add: total_size_def)

lemma set_butlast: "distinct xs \<Longrightarrow> xs \<noteq> [] \<Longrightarrow> set (butlast xs) = set xs - {List.last xs}"
  by (cases xs rule: rev_cases) auto

lemma keep_all: "\<forall>v. 0 \<le> sz v \<Longrightarrow> total_size sz xs \<le> c \<Longrightarrow> keep sz c xs = xs"
proof (induction xs arbitrary: c)
  case (Cons x xs)
  have "0 \<le> total_size sz xs" using Cons.prems(1) by (rule total_size_nonneg)
  then show ?case using Cons.IH [of "c - sz (snd x)"] Cons.prems by (simp add: total_size_def)
qed simp

lemma keep_butlast: "\<forall>v. 0 \<le> sz v \<Longrightarrow> c < total_size sz xs \<Longrightarrow> xs \<noteq> [] \<Longrightarrow> keep sz c (butlast xs) = keep sz c xs"
proof (induction xs arbitrary: c)
  case (Cons x xs)
  then show ?case by (cases xs) (auto simp: total_size_def)
qed simp

lemma keep_fits: "0 \<le> c \<Longrightarrow> total_size sz (keep sz c xs) \<le> c"
proof (induction xs arbitrary: c)
  case (Cons x xs)
  show ?case
  proof (cases "sz (snd x) \<le> c")
    case True
    then show ?thesis using Cons.IH [of "c - sz (snd x)"] by (simp add: total_size_def)
  qed (use Cons.prems in \<open>simp add: total_size_def\<close>)
qed (simp add: total_size_def)

lemma checkCapacity_keep:
  assumes "shape sz lru" "\<forall>v. 0 \<le> sz v" "0 \<le> lru_capacity lru" "lru_size lru < 2 ^ 63"
  shows "\<exists>lru'. checkCapacity lru = Ok lru' \<and> shape sz lru' \<and> Items lru' = keep sz (lru_capacity lru) (Items lru) \<and> lru_capacity lru' = lru_capacity lru"
  using assms(1,3,4)
proof (induction lru rule: checkCapacity.induct)
  case (1 lru)
  have size: "lru_size lru = total_size sz (Items lru)" using 1(2) by (simp add: shape_def)
  show ?case
  proof (cases "lru_size lru \<le> lru_capacity lru")
    case True
    then show ?thesis using 1(2) keep_all [OF assms(2)] size by (subst checkCapacity.simps) auto
  next
    case False
    have ne: "lru_list lru \<noteq> []" using False 1(3) size by (auto simp: Items_def' total_size_def)
    let ?a = "List.last (lru_list lru)" let ?e = "the (lru_store lru ?a)"
    have a: "?a \<in> set (lru_list lru)" using ne by simp
    have t: "lru_table lru (en_key ?e) = Some ?a" using shape_key [OF 1(2) a] .
    have es: "en_size ?e = sz (en_value ?e)" using shape_entry [OF 1(2) a] by auto
    have ib: "map (\<lambda>b. (en_key (the (lru_store lru b)), en_value (the (lru_store lru b)))) (butlast (lru_list lru)) = butlast (Items lru)"
      by (simp add: Items_def' map_butlast)
    have sb: "set (butlast (lru_list lru)) = set (lru_list lru) - {?a}" "distinct (butlast (lru_list lru))"
      using set_butlast [of "lru_list lru"] 1(2) ne by (simp_all add: shape_def distinct_butlast)
    have "Items lru = butlast (Items lru) @ [(en_key ?e, en_value ?e)]"
      using ne append_butlast_last_id [of "Items lru"] by (simp add: Items_def' last_map)
    then have tot: "total_size sz (Items lru) = total_size sz (butlast (Items lru)) + sz (en_value ?e)"
      by (metis (no_types) total_size_append total_size_single)
    have "0 \<le> sz (en_value ?e)" using assms(2) by blast
    then have n0: "lru_size lru - en_size ?e = total_size sz (butlast (Items lru))" "lru_size lru - en_size ?e < 2 ^ 63"
      using size es tot 1(4) by linarith+
    moreover have "in_i64 (lru_size lru - en_size ?e)"
      using n0 total_size_nonneg [OF assms(2), of "butlast (Items lru)"] by (simp add: in_i64_bounds)
    ultimately have n: "i64 (lru_size lru - en_size ?e) = total_size sz (butlast (Items lru))" "lru_size lru - en_size ?e < 2 ^ 63"
      using i64_id by simp_all
    let ?l = "lru\<lparr>lru_list := butlast (lru_list lru), lru_table := (lru_table lru)(en_key ?e := None),
          lru_size := i64 (lru_size lru - en_size ?e), lru_evictions := i64 (lru_evictions lru + 1)\<rparr>"
    have sh: "shape sz ?l \<and> Items ?l = butlast (Items lru)" using remove_shape [OF 1(2) t sb ib n(1) refl] .
    have "\<exists>lru'. checkCapacity ?l = Ok lru' \<and> shape sz lru' \<and> Items lru' = keep sz (lru_capacity ?l) (Items ?l) \<and> lru_capacity lru' = lru_capacity ?l"
      using sh 1(3) n n0 by (intro 1(1) [OF False ne]) auto
    moreover have "keep sz (lru_capacity lru) (butlast (Items lru)) = keep sz (lru_capacity lru) (Items lru)"
      using keep_butlast [OF assms(2)] False size ne by (auto simp: Items_def')
    ultimately show ?thesis using sh False ne entry_at_Ok [OF 1(2) a] by (subst checkCapacity.simps) simp
  qed
qed

section \<open>Refinement\<close>

definition implements :: "('v \<Rightarrow> int) \<Rightarrow> 'v LRUCache \<Rightarrow> int \<times> (string \<times> 'v) list \<Rightarrow> bool" where
  "implements sz lru cx \<longleftrightarrow> shape sz lru \<and> lru_capacity lru = fst cx \<and> Items lru = snd cx \<and> 0 \<le> fst cx \<and> fst cx < 2 ^ 62 \<and>
     total_size sz (snd cx) \<le> fst cx"

fun op_ok :: "('v \<Rightarrow> int) \<Rightarrow> 'v cache_op \<Rightarrow> bool" where
  "op_ok sz (CSet k v) = (sz v < 2 ^ 62)" | "op_ok sz (CSetIfAbsent k v) = (sz v < 2 ^ 62)"
| "op_ok sz (CSetCapacity c) = (0 \<le> c \<and> c < 2 ^ 62)" | "op_ok sz _ = True"

lemma table_entry:
  assumes "shape sz lru" "lru_table lru k = Some a"
  obtains e where "lru_store lru a = Some e" "en_key e = k" "en_size e = sz (en_value e)" "entry_at lru a = Ok e"
    "map_of (Items lru) k = Some (en_value e)"
proof -
  have a: "a \<in> set (lru_list lru)" "en_key (the (lru_store lru a)) = k" using shape_table [OF assms] by simp_all
  obtain e where "lru_store lru a = Some e" "en_size e = sz (en_value e)" using shape_entry [OF assms(1) a(1)] by blast
  then show thesis using that [of e] a entry_at_Ok [OF assms(1) a(1)] lookup [OF assms(1), of k] assms(2) by simp
qed

lemma touch:
  assumes "implements sz lru (c, xs)" "lru_table lru k = Some a"
  shows "\<exists>lru' e. moveToFront now a lru = Ok lru' \<and> implements sz lru' (c, used k xs) \<and> entry_at lru' a = Ok e \<and> map_of xs k = Some (en_value e)"
proof -
  have i: "shape sz lru" "Items lru = xs" using assms(1) by (simp_all add: implements_def)
  obtain e where e: "lru_store lru a = Some e" "en_key e = k" "en_size e = sz (en_value e)" "entry_at lru a = Ok e" "map_of xs k = Some (en_value e)"
    using table_entry [OF i(1) assms(2)] i(2) by auto
  let ?e = "e\<lparr>en_timeAccessed := now\<rparr>"
  define l where "l = lru\<lparr>lru_list := a # remove1 a (lru_list lru), lru_store := (lru_store lru)(a \<mapsto> ?e), lru_size := lru_size lru\<rparr>"
  have m: "moveToFront now a lru = Ok l"
    using e(4) by (simp add: moveToFront_def l_def)
  have n: "lru_size lru = sz (en_value ?e) + total_size sz (without k (Items lru))"
    using total_without [OF i(1) assms(2)] i(1) e(1) by (simp add: shape_def)
  have f: "shape sz l \<and> Items l = (k, en_value ?e) # without k (Items lru)"
    by (rule front_shape [OF i(1) assms(2) _ _ n l_def]) (use e in simp_all)
  have "used k xs = (k, en_value e) # without k xs" using e(5) by (simp add: used_def)
  moreover have "total_size sz ((k, en_value e) # without k xs) = total_size sz xs"
    using n i by (simp add: shape_def total_size_def)
  moreover have "lru_capacity l = lru_capacity lru" "entry_at l a = Ok ?e" by (simp_all add: l_def entry_at_def)
  ultimately show ?thesis using assms(1) e(5) f m i(2) by (intro exI [of _ l] exI [of _ ?e]) (simp add: implements_def)
qed

lemma check_implements:
  assumes "shape sz lru" "\<forall>v. 0 \<le> sz v" "lru_capacity lru = c" "0 \<le> c" "c < 2 ^ 62" "lru_size lru < 2 ^ 63" "Items lru = xs"
  shows "\<exists>lru'. checkCapacity lru = Ok lru' \<and> implements sz lru' (c, keep sz c xs)"
  using checkCapacity_keep [OF assms(1,2)] assms(3-7) keep_fits [of c sz xs] by (auto simp: implements_def)

lemma add_implements:
  assumes "implements sz lru (c, xs)" "lru_table lru k = None" "\<forall>v. 0 \<le> sz v" "sz v < 2 ^ 62"
  shows "\<exists>lru'. addNew sz now k v lru = Ok lru' \<and> implements sz lru' (c, keep sz c ((k, v) # xs))"
proof -
  note i = assms(1) [unfolded implements_def fst_conv snd_conv]
  let ?a = "lru_next lru" and ?e = "\<lparr>en_key = k, en_value = v, en_size = sz v, en_timeAccessed = now\<rparr>"
  let ?l = "lru\<lparr>lru_list := ?a # lru_list lru, lru_next := Suc ?a, lru_store := (lru_store lru)(?a \<mapsto> ?e), lru_table := (lru_table lru)(k \<mapsto> ?a),
      lru_size := i64 (lru_size lru + sz v)\<rparr>"
  have new: "b \<noteq> ?a" if "b \<in> set (lru_list lru)" for b using i that by (auto simp: shape_def)
  then have it: "Items ?l = (k, v) # xs" using i by (auto simp: Items_def' intro!: map_cong)
  have z: "lru_size lru = total_size sz xs" "0 \<le> sz v" using i assms(3) by (simp_all add: shape_def)
  then have size: "i64 (lru_size lru + sz v) = total_size sz ((k, v) # xs)" "total_size sz ((k, v) # xs) < 2 ^ 63"
    using i assms(4) total_size_nonneg [OF assms(3), of xs] by (simp_all add: i64_id in_i64_bounds total_size_def)
  have "shape sz ?l" unfolding shape_def
  proof (intro conjI ballI allI impI)
    fix b assume "b \<in> set (lru_list ?l)"
    then consider "b = ?a" | "b \<in> set (lru_list lru)" "b \<noteq> ?a" using new by auto
    then show "\<exists>e. lru_store ?l b = Some e \<and> en_size e = sz (en_value e) \<and> lru_table ?l (en_key e) = Some b"
    proof cases
      case 2
      then obtain e where e: "lru_store lru b = Some e" "en_size e = sz (en_value e)" "lru_table lru (en_key e) = Some b"
        using shape_entry i by blast
      moreover have "en_key e \<noteq> k" using e(3) assms(2) by auto
      ultimately show ?thesis using 2 by simp
    qed simp
    show "b < lru_next ?l" using \<open>b \<in> set (lru_list ?l)\<close> i by (auto simp: shape_def)
  next
    fix k' b assume t: "lru_table ?l k' = Some b"
    then have "k' = k \<and> b = ?a \<or> lru_table lru k' = Some b \<and> k' \<noteq> k" by (auto split: if_splits)
    then consider "k' = k" "b = ?a" | "lru_table lru k' = Some b" "b \<in> set (lru_list lru)" "b \<noteq> ?a" using shape_table i new by blast
    then show "b \<in> set (lru_list ?l)" "\<exists>e. lru_store ?l b = Some e \<and> en_key e = k'"
    proof (atomize(full), cases)
      case 2
      have "\<exists>e. lru_store lru b = Some e \<and> en_key e = k'" using i 2(1) unfolding shape_def by blast
      then show "b \<in> set (lru_list ?l) \<and> (\<exists>e. lru_store ?l b = Some e \<and> en_key e = k')" using 2 by simp
    qed simp
  qed (use i it size new in \<open>auto simp: shape_def\<close>)
  from check_implements [OF this assms(3) _ _ _ _ it, of c] i size show ?thesis by (simp add: addNew_def Let_def)
qed

lemma update_implements:
  assumes "implements sz lru (c, xs)" "lru_table lru k = Some a" "\<forall>v. 0 \<le> sz v" "sz v < 2 ^ 62"
  shows "\<exists>lru'. updateInplace sz now a v lru = Ok lru' \<and> implements sz lru' (c, keep sz c ((k, v) # without k xs))"
proof -
  note i = assms(1) [unfolded implements_def fst_conv snd_conv]
  obtain e where e: "lru_store lru a = Some e" "en_key e = k" "en_size e = sz (en_value e)" "entry_at lru a = Ok e"
    using table_entry [of sz lru k a] i assms(2) by auto
  let ?e = "e\<lparr>en_value := v, en_size := sz v, en_timeAccessed := now\<rparr>"
  define n where "n = sz v + total_size sz (without k (Items lru))"
  have t: "lru_size lru = sz (en_value e) + total_size sz (without k (Items lru))"
    using total_without [of sz lru k a] i assms(2) e(1) by (simp add: shape_def)
  have nn: "0 \<le> sz v" "0 \<le> sz (en_value e)" "0 \<le> total_size sz (without k (Items lru))" using assms(3) total_size_nonneg by blast+
  have b: "lru_size lru < 2 ^ 62" using i by (simp add: shape_def)
  then have size: "n < 2 ^ 63" "0 \<le> n" using nn t assms(4) by (simp_all add: n_def)
  have "i64 (sz v - en_size e) = sz v - en_size e" using nn t b e(3) assms(4) by (simp add: i64_id in_i64_bounds)
  then have d: "i64 (lru_size lru + i64 (sz v - en_size e)) = n"
    using t e(3) size by (simp add: n_def i64_id in_i64_bounds)
  define l where "l = lru\<lparr>lru_list := a # remove1 a (lru_list lru), lru_store := (lru_store lru)(a \<mapsto> ?e), lru_size := n\<rparr>"
  have "shape sz l \<and> Items l = (k, en_value ?e) # without k (Items lru)"
    by (rule front_shape [where e = ?e and n = n and a = a]) (use i assms(2) e in \<open>simp_all add: n_def l_def\<close>)
  then have "\<exists>lru'. checkCapacity l = Ok lru' \<and> implements sz lru' (c, keep sz c ((k, v) # without k xs))"
    using i size assms(3) by (intro check_implements) (auto simp: l_def)
  moreover have "lru\<lparr>lru_size := n, lru_list := a # remove1 a (lru_list lru), lru_store := (lru_store lru)(a \<mapsto> ?e)\<rparr> = l"
    by (rule LRUCache.equality) (simp_all add: l_def)
  then have "updateInplace sz now a v lru = checkCapacity l"
    using e d by (simp add: updateInplace_def moveToFront_def entry_at_def)
  ultimately show ?thesis by simp
qed

lemma delete_implements:
  assumes "implements sz lru (c, xs)" "lru_table lru k = Some a" "\<forall>v. 0 \<le> sz v"
  shows "\<exists>lru'. lru_Delete k lru = Ok (lru', True) \<and> implements sz lru' (c, without k xs)"
proof -
  note i = assms(1) [unfolded implements_def fst_conv snd_conv]
  obtain e where e: "lru_store lru a = Some e" "en_size e = sz (en_value e)" "entry_at lru a = Ok e"
    using table_entry [of sz lru k a] i assms(2) by auto
  have t: "total_size sz xs = sz (en_value e) + total_size sz (without k xs)"
    using total_without [of sz lru k a] i assms(2) e(1) by simp
  have nn: "0 \<le> sz (en_value e)" "0 \<le> total_size sz (without k xs)" using assms(3) total_size_nonneg by blast+
  have "lru_size lru - en_size e = total_size sz (without k xs)" using i t e(2) by (simp add: shape_def)
  moreover have "in_i64 (total_size sz (without k xs))" using i t nn by (simp add: in_i64_bounds)
  ultimately have n: "i64 (lru_size lru - en_size e) = total_size sz (without k xs)" using i64_id by simp
  define l where "l = lru\<lparr>lru_list := remove1 a (lru_list lru), lru_table := (lru_table lru)(k := None), lru_size := i64 (lru_size lru - en_size e),
      lru_evictions := lru_evictions lru\<rparr>"
  have d: "distinct (lru_list lru)" using i by (simp add: shape_def)
  have "shape sz l \<and> Items l = without k xs"
    using i Items_remove [of sz lru k a] assms(2) d
    by (intro remove_shape [OF _ assms(2) _ _ _ n l_def]) (simp_all add: set_remove1_eq)
  moreover have "lru_Delete k lru = Ok (l, True)" using e(3) assms(2) by (simp add: lru_Delete_def l_def)
  moreover have "lru_capacity l = c" using i by (simp add: l_def)
  ultimately show ?thesis using i t nn by (simp add: implements_def)
qed

lemma without_absent: "map_of xs k = None \<Longrightarrow> without k xs = xs"
  by (force simp: without_def filter_id_conv map_of_eq_None_iff)

lemma table_items: "implements sz lru (c, xs) \<Longrightarrow> map_of xs k = None \<longleftrightarrow> lru_table lru k = None"
  using lookup [of sz lru k] by (simp add: implements_def)

lemma set_implements:
  assumes "implements sz lru (c, xs)" "\<forall>v. 0 \<le> sz v" "sz w < 2 ^ 62"
  shows "\<exists>lru'. lru_Set sz now k w lru = Ok lru' \<and> implements sz lru' (c, keep sz c ((k, w) # without k xs))"
    and "\<exists>lru'. SetIfAbsent sz now k w lru = Ok lru' \<and>
      implements sz lru' (c, if map_of xs k = None then keep sz c ((k, w) # xs) else used k xs)"
proof (atomize(full), cases "lru_table lru k")
  case None
  then have "map_of xs k = None" using table_items [OF assms(1)] by simp
  then show "(\<exists>lru'. lru_Set sz now k w lru = Ok lru' \<and> implements sz lru' (c, keep sz c ((k, w) # without k xs))) \<and>
      (\<exists>lru'. SetIfAbsent sz now k w lru = Ok lru' \<and> implements sz lru' (c, if map_of xs k = None then keep sz c ((k, w) # xs) else used k xs))"
    using add_implements [OF assms(1) None assms(2,3), of now] None without_absent [of xs k]
    by (simp add: lru_Set_def SetIfAbsent_def del: keep.simps)
next
  case (Some a)
  then have "map_of xs k \<noteq> None" using table_items [OF assms(1)] by simp
  then show "(\<exists>lru'. lru_Set sz now k w lru = Ok lru' \<and> implements sz lru' (c, keep sz c ((k, w) # without k xs))) \<and>
      (\<exists>lru'. SetIfAbsent sz now k w lru = Ok lru' \<and> implements sz lru' (c, if map_of xs k = None then keep sz c ((k, w) # xs) else used k xs))"
    using update_implements [OF assms(1) Some assms(2,3), of now] touch [OF assms(1) Some, of now] Some
    by (auto simp: lru_Set_def SetIfAbsent_def simp del: keep.simps)
qed

lemma op_implements:
  assumes "implements sz lru cx" "\<forall>v. 0 \<le> sz v" "op_ok sz op"
  shows "\<exists>lru'. impl sz now op lru = Ok (lru', snd (spec sz op cx)) \<and> implements sz lru' (fst (spec sz op cx))"
proof -
  obtain c xs where cx: "cx = (c, xs)" by fastforce
  note i = assms(1) [unfolded cx] note v = i [unfolded implements_def fst_conv snd_conv]
  have m: "map_of xs k = None \<longleftrightarrow> lru_table lru k = None" for k using lookup [of sz lru k] v by simp
  show ?thesis
  proof (cases op)
    case (CGet k)
    show ?thesis
    proof (cases "lru_table lru k")
      case (Some a)
      from touch [OF i Some, of now] show ?thesis using CGet cx Some by (auto simp: lru_Get_def)
    qed (use CGet cx i m [of k] in \<open>simp add: lru_Get_def used_def\<close>)
  next
    case (CPeek k)
    show ?thesis
    proof (cases "lru_table lru k")
      case (Some a)
      then obtain e where "entry_at lru a = Ok e" "map_of xs k = Some (en_value e)" using table_entry [of sz lru k a] v by auto
      then show ?thesis using CPeek cx Some i by (simp add: Peek_def)
    qed (use CPeek cx i m [of k] in \<open>simp add: Peek_def\<close>)
  next
    case (CSet k w)
    then show ?thesis using set_implements(1) [OF i assms(2), of w now k] cx assms(3) by (auto simp del: keep.simps)
  next
    case (CSetIfAbsent k w)
    then show ?thesis using set_implements(2) [OF i assms(2), of w now k] cx assms(3) by (auto simp del: keep.simps)
  next
    case (CDelete k)
    show ?thesis
    proof (cases "lru_table lru k")
      case (Some a)
      from delete_implements [OF i Some assms(2)] show ?thesis using CDelete cx Some m [of k] by auto
    qed (use CDelete cx i m [of k] without_absent [of xs k] in \<open>simp add: lru_Delete_def\<close>)
  next
    case CClear
    then show ?thesis using cx v by (simp add: implements_def Clear_def shape_def Items_def' total_size_def)
  next
    case (CSetCapacity c')
    have "shape sz (lru\<lparr>lru_capacity := c'\<rparr>)" using v by (simp add: shape_def Items_def')
    moreover have "Items (lru\<lparr>lru_capacity := c'\<rparr>) = xs" "lru_size lru < 2 ^ 63" using v by (simp_all add: Items_def' shape_def)
    ultimately show ?thesis using CSetCapacity cx assms(2,3) check_implements [of sz "lru\<lparr>lru_capacity := c'\<rparr>" c' xs]
      by (auto simp: lru_SetCapacity_def)
  qed
qed

fun run_impl :: "('v \<Rightarrow> int) \<Rightarrow> (int \<times> 'v cache_op) list \<Rightarrow> 'v LRUCache \<Rightarrow> ('v LRUCache \<times> 'v answer list) res" where
  "run_impl sz [] lru = Ok (lru, [])"
| "run_impl sz ((now, op) # ops) lru =
     andThen (impl sz now op lru) (\<lambda>(lru, a). andThen (run_impl sz ops lru) (\<lambda>(lru, as). Ok (lru, a # as)))"

fun run_spec :: "('v \<Rightarrow> int) \<Rightarrow> (int \<times> 'v cache_op) list \<Rightarrow> int \<times> (string \<times> 'v) list \<Rightarrow> (int \<times> (string \<times> 'v) list) \<times> 'v answer list" where
  "run_spec sz [] cx = (cx, [])"
| "run_spec sz ((now, op) # ops) cx =
     (case spec sz op cx of (cx, a) \<Rightarrow> case run_spec sz ops cx of (cx, as) \<Rightarrow> (cx, a # as))"

lemma run_implements:
  assumes "implements sz lru cx" "\<forall>v. 0 \<le> sz v" "list_all (op_ok sz \<circ> snd) ops"
  shows "\<exists>lru'. run_impl sz ops lru = Ok (lru', snd (run_spec sz ops cx)) \<and> implements sz lru' (fst (run_spec sz ops cx))"
  using assms(1,3)
proof (induction ops arbitrary: lru cx)
  case (Cons nop ops)
  obtain now op where nop: "nop = (now, op)" by fastforce
  obtain lru1 where l: "impl sz now op lru = Ok (lru1, snd (spec sz op cx))" "implements sz lru1 (fst (spec sz op cx))"
    using op_implements [OF Cons.prems(1) assms(2), of op now] Cons.prems(2) nop by auto
  obtain lru' where "run_impl sz ops lru1 = Ok (lru', snd (run_spec sz ops (fst (spec sz op cx))))"
    "implements sz lru' (fst (run_spec sz ops (fst (spec sz op cx))))" using Cons.IH [OF l(2)] Cons.prems(2) by auto
  then show ?case using l nop by (simp add: split_def)
qed simp

text \<open>
  C15: the cache implements a list of items. For values with sizes and capacities that are not negative, any sequence of operations on
  a new cache gives the answers of the specification and does not panic; the items, the most recently used one first,
  are those of the specification, and their total size, which the cache keeps, is within the capacity.
\<close>

theorem lru_refines:
  assumes "0 \<le> c" "c < 2 ^ 62" "\<forall>v. 0 \<le> sz v" "list_all (op_ok sz \<circ> snd) ops" "run_spec sz ops (c, []) = ((c', xs), as)"
  shows "\<exists>lru. run_impl sz ops (NewLRUCache c) = Ok (lru, as) \<and> Items lru = xs \<and> lru_size lru = total_size sz xs \<and> lru_size lru \<le> c' \<and>
    lru_Length lru = int (length xs)"
proof -
  have "implements sz (NewLRUCache c) (c, [])"
    using assms(1,2) by (simp add: implements_def NewLRUCache_def shape_def Items_def' total_size_def)
  from run_implements [OF this assms(3,4)] assms(5) show ?thesis
    by (auto simp: implements_def shape_def lru_Length_def Items_def')
qed

definition example_ops :: "(int \<times> nat cache_op) list" where
  "example_ops = [(0, CSet ''a'' 1), (1, CSet ''b'' 2), (2, CGet ''a''), (3, CSet ''c'' 3), (4, CPeek ''b'')]"

theorem lru_refines_witness:
  "\<exists>lru. run_impl (\<lambda>_. 1) example_ops (NewLRUCache 2) = Ok (lru, [ANone, ANone, AValue (Some 1), ANone, AValue None]) \<and>
     Items lru = [(''c'', 3), (''a'', 1)] \<and> lru_size lru = 2"
proof -
  have "run_spec (\<lambda>_. 1) example_ops (2, []) = ((2, [(''c'', 3), (''a'', 1)]), [ANone, ANone, AValue (Some 1), ANone, AValue None])"
    "list_all (op_ok (\<lambda>_. 1) \<circ> snd) example_ops" by code_simp+
  from lru_refines [OF _ _ _ this(2,1)] show ?thesis by (auto simp: total_size_def)
qed

text \<open>With a negative capacity the loop reaches the empty list.\<close>

lemma negative_capacity_panics: "lru_SetCapacity (- 1) (NewLRUCache 2) = Panic PNil"
  by (simp add: lru_SetCapacity_def NewLRUCache_def checkCapacity.simps)

end
