(* ===== verification/Spec2Isabelle.thy ===== *)
theory Spec2Isabelle
  imports Encoding Verify_Router Plan_Stmt Plan_Where Plan_Insert Plan_Modify Merge_Group Pool_Props Slice_Props Lru_Cache
begin

text \<open>
  A verification library for the MySQL sharding proxy of this repository.

  \<^bold>\<open>The program.\<close> A client sends SQL to the proxy (\<^verbatim>\<open>src/proxy/server\<close>). The proxy parses it, plans it against
  the sharding rules of the client's namespace (\<^verbatim>\<open>src/proxy/plan\<close>, \<^verbatim>\<open>src/proxy/router\<close>), rewrites it once per
  sub-table, takes connections to the backend databases from pools (\<^verbatim>\<open>src/backend\<close>, \<^verbatim>\<open>src/util\<close>), sends the
  rewritten statements over the MySQL protocol (\<^verbatim>\<open>src/mysql\<close>) and merges the partial results. Namespaces, rules,
  slices and users come from the configuration models (\<^verbatim>\<open>src/models\<close>).

  \<^bold>\<open>The model.\<close> Go functions are HOL functions of the same name; a method with a common name carries a prefix
  or its receiver. A struct is a record, an enumeration or a type switch a datatype. \<open>Go_Base\<close> is the prelude: a
  function that may fail or panic returns \<open>'a res\<close> (\<open>Ok\<close>, \<open>Err\<close>, \<open>Panic\<close>), sequenced by \<open>andThen\<close>;
  integers are \<open>int\<close>, wrapped by \<open>i64\<close> and \<open>u64\<close> where they can leave 64 bits, and words where the code works on
  bits; strings are lists of bytes. What a function changes in place it returns. Maps are association lists, and
  where the result depends on the order in which Go visits one, the order is an argument.

  \<^bold>\<open>Parts and theories.\<close>

  \<^item> Sharding rules: \<open>Num_Key\<close> (\<^verbatim>\<open>router/numkey.go\<close>), \<open>Go_Time\<close> (the calendar of package \<^verbatim>\<open>time\<close>), \<open>Util_Hash\<close>
    (\<^verbatim>\<open>util/murmur.go\<close>, compared with a specification of Murmur3 on bytes, \<^verbatim>\<open>padding.go\<close>, \<^verbatim>\<open>hack.go\<close>), \<open>Shards\<close> (\<^verbatim>\<open>router/shard.go\<close>, \<^verbatim>\<open>shard_mycat.go\<close>), \<open>Rules\<close>
    (\<^verbatim>\<open>router/rule.go\<close>, \<^verbatim>\<open>router.go\<close>). \<open>Shard_Props\<close> shows which index each shard function gives a key, and that it
    names a table of the rule; \<open>Rule_Props\<close> what a parsed rule and the router promise.
  \<^item> Configuration: \<open>Models\<close> (\<^verbatim>\<open>src/models\<close>). \<open>Verify_Router\<close> relates the check of a configuration to the
    construction of the router: what the check accepts the router can be built from, with exceptions.
  \<^item> Syntax: \<open>Sql_Ast\<close> and \<open>Sql_Stmt\<close> (\<^verbatim>\<open>src/parser/ast\<close>), the nodes that plans read, and their printing.
  \<^item> Routing: \<open>Plan_Lists\<close> (\<^verbatim>\<open>plan/util.go\<close>, \<^verbatim>\<open>route_result.go\<close>; the locale \<open>index_sets\<close> is the contract of
    index lists), \<open>Plan_Info\<close> (\<^verbatim>\<open>plan/plan.go\<close>, \<^verbatim>\<open>decorator_table_name.go\<close>, \<^verbatim>\<open>decorator_column_name.go\<close>), \<open>Plan_Route\<close> (the
    condition handlers of \<^verbatim>\<open>plan_select.go\<close> with \<^verbatim>\<open>decorator_pattern_in_expr.go\<close>, \<^verbatim>\<open>decorator_between_expr.go\<close> and
    \<^verbatim>\<open>decorator_binary_operation_expr.go\<close>). \<open>Plan_Order\<close> has the contract between the order of a column and its
    shard function as the locales \<open>column_order\<close>, \<open>range_column\<close> and \<open>strict_range_column\<close>, interpreted on the
    shard functions; \<open>Plan_Sound\<close> shows that routing loses no row, \<open>Plan_Exact\<close> that the database accepts the rewritten
    condition and that it selects the same rows, \<open>Plan_Where\<close> both for configured rules. The conditions that these
    theorems leave out are named by \<open>covered\<close> (literals outside the domain of the rule, \<^verbatim>\<open>NOT BETWEEN\<close> with the larger
    bound first, \<^verbatim>\<open>IN\<close> and \<^verbatim>\<open>BETWEEN\<close> on a joined global table, strict upper bounds on dates) and \<open>in_outside_or\<close>
    (\<^verbatim>\<open>IN\<close> below an \<^verbatim>\<open>OR\<close>, which the code prints with an empty list); an example shows the fault of each.
  \<^item> Plans: \<open>Plan_Stmt\<close> (the generated statements, joined tables), \<open>Plan_Select\<close> (\<^verbatim>\<open>plan_select.go\<close>,
    \<^verbatim>\<open>plan_select_subquery.go\<close>, \<^verbatim>\<open>decorator_limit.go\<close>), \<open>Plan_Insert\<close> (\<^verbatim>\<open>plan_insert.go\<close>), \<open>Plan_Modify\<close>
    (\<^verbatim>\<open>plan_update.go\<close>, \<^verbatim>\<open>plan_delete.go\<close>), \<open>Sequence\<close> (\<^verbatim>\<open>src/proxy/sequence\<close>).
  \<^item> Results: \<open>Merge\<close> (\<^verbatim>\<open>plan/merge_result.go\<close>, \<^verbatim>\<open>mysql/resultset_sort.go\<close>). \<open>Merge_Order\<close> shows that ordering with a
    limit gives the rows of one database, \<open>Merge_Group\<close> the same for grouped aggregates, \<open>Merge_Type\<close> that merging
    typed rows does not panic. \<open>Encoding\<close> (\<^verbatim>\<open>mysql/encoding.go\<close>) has the wire format of integers and strings, with
    round trips.
  \<^item> Backends: \<open>Resource_Pool\<close> (\<^verbatim>\<open>util/resource_pool.go\<close> with \<^verbatim>\<open>util/timer/timer.go\<close>) is a step relation on
    goroutines around one pool. \<open>Pool_Props\<close> has an invariant from five balances (the locale \<open>balance\<close>, interpreted
    for places, counters and timer), and from it that nothing panics, that the counters are right and that every
    operation returns. \<open>Slices\<close> (\<^verbatim>\<open>backend/balancer.go\<close>, \<^verbatim>\<open>slice.go\<close>, \<^verbatim>\<open>connection_pool.go\<close>, \<^verbatim>\<open>parseSlice\<close> of
    \<^verbatim>\<open>server/namespace.go\<close>) and \<open>Slice_Props\<close>: the weighted round robin.
  \<^item> \<open>Lru_Cache\<close> (\<^verbatim>\<open>util/cache/lru_cache.go\<close>): the cache refines a list of items.

  Lemmas that carry no number show where the code does not do what it means to; the other theorems are stated with the
  conditions that exclude these cases.

  \<^bold>\<open>Parameters.\<close> What the code takes from outside is an argument: the time zone and the local time (\<open>Env\<close>),
  the text of expressions that plans do not look into, the answers of sequence queries, the operations on
  \<^verbatim>\<open>float64\<close>, \<^verbatim>\<open>sort.Sort\<close> (\<open>sorter_ok\<close> is its documented law), random numbers (\<open>intn_ok\<close>), the outcome of a
  connection attempt, and the size of a cached value.

  \<^bold>\<open>Bounds and fuel.\<close> Every recursion ends: loops are structural, or have a measure where they count
  (\<open>gcd_loop\<close>, \<open>checkCapacity\<close>). No definition has fuel. Sums of aggregates are within \<open>2 ^ 53\<close>, where \<^verbatim>\<open>float64\<close> is
  exact; sizes and capacities of a cache below \<open>2 ^ 62\<close>; the sum of the weights of slaves below \<open>2 ^ 63\<close>.
  The steps of a pool are finitely many because the capacity of its channel bounds every loop.

  \<^bold>\<open>Not modelled.\<close> The generated SQL parser and the lexer, vendored code of another project; the plans that send a
  statement unchanged and \<^verbatim>\<open>EXPLAIN\<close>; \<^verbatim>\<open>BuildPlan\<close> and the check that chooses the kind of plan, which walks the whole
  syntax tree; sessions, the handshake, packets and direct connections, which are network input and output; the control
  center, the configuration store, statistics and logs, which are HTTP, etcd and files; the binary row format; the
  time wheel, which only starts callbacks; encryption and address parsing.
\<close>

end
